(* ===== verification/Prelude.thy ===== *)
theory Prelude
  imports Main "HOL-Library.Word"
begin

text \<open>
  Shared vocabulary of the development.

  A Node.js Buffer is a list of bytes, a thrown \<open>Error\<close> is a value of the datatype
  \<open>error\<close> (one constructor per kind of throw in the modelled files), and an operation that
  may throw returns \<open>error + 'a\<close>, the error on the left. JavaScript numbers that count or
  measure are \<open>nat\<close>; times in milliseconds (\<open>Date.now()\<close>) are \<open>int\<close>, since the code subtracts
  them freely. The big-endian integer accessors and the hexadecimal conversions of Buffer, which
  every wire format of the program uses, are modelled here once with their round trips.
\<close>

section \<open>Types\<close>

type_synonym byte = "8 word"

type_synonym bytes = "byte list"

type_synonym time = int

text \<open>The errors that the modelled code (or the runtime it calls) can throw.\<close>

datatype error =
    RangeError                      \<comment> \<open>out-of-range read or write of a Buffer\<close>
  | TypeError                       \<comment> \<open>wrong argument to a runtime or libsodium function\<close>
  | HmacSecretMissing               \<comment> \<open>config.js: getHmacKey\<close>
  | FrameTooLarge nat nat           \<comment> \<open>frame.js: announced length and bound\<close>
  | EnvelopeTooShort                \<comment> \<open>message.js: unwrapPayload\<close>
  | SodiumNotReady                  \<comment> \<open>packet.js, handshake.js: libsodium not initialised\<close>
  | KeysNotInit                     \<comment> \<open>keys.js: getPublicKey, sign\<close>
  | BadSeed                         \<comment> \<open>keys.js: loadOrCreateSeed\<close>
  | PayloadTooLarge                 \<comment> \<open>packet.js: buildPacket, extractPackets\<close>
  | PacketTooLarge                  \<comment> \<open>packet.js: extractPackets\<close>
  | PacketTooShort                  \<comment> \<open>packet.js: parsePacket\<close>
  | PayloadLenMismatch              \<comment> \<open>packet.js: parsePacket\<close>
  | InvalidMagic                    \<comment> \<open>packet.js: extractPackets\<close>
  | SealedTooShort                  \<comment> \<open>handshake.js: SecureSession.open\<close>
  | DecryptFailed                   \<comment> \<open>libsodium: AEAD tag mismatch\<close>
  | WeakPublicKey                   \<comment> \<open>libsodium: crypto_scalarmult on a weak point\<close>
  | HsBadSize nat                   \<comment> \<open>handshake.js: MSG1, MSG2 or MSG3 of wrong size\<close>
  | HsBadSignature nat              \<comment> \<open>handshake.js: signature in MSG1, MSG2 or MSG3\<close>
  | SessionNotReady                 \<comment> \<open>secureConnection.js: send before the session\<close>
  | DataTruncated                   \<comment> \<open>secureConnection.js: DATA without a sequence number\<close>
  | UnknownControl nat              \<comment> \<open>secureConnection.js: unknown control type\<close>
  | RateLimited                     \<comment> \<open>secureConnection.js: per-IP limit\<close>
  | SessionRateLimited              \<comment> \<open>secureConnection.js: per-session limit\<close>
  | SessionReplay nat               \<comment> \<open>secureConnection.js: replayed sequence number\<close>
  | HandshakeTimeout                \<comment> \<open>secureConnection.js: handshake timer\<close>
  | SocketError                     \<comment> \<open>an error event of the socket itself\<close>
  | EmptyMessage                    \<comment> \<open>file/protocol.js: decode\<close>
  | UnknownFileMessage nat          \<comment> \<open>file/protocol.js: decode\<close>
  | FileIncomplete                  \<comment> \<open>file/chunkStore.js: assemble\<close>
  | NoSuchFile                      \<comment> \<open>a file-system call on a missing path\<close>
  | JsonSyntax                      \<comment> \<open>\<open>JSON.parse\<close> of a text that is none\<close>
  | NoSession                       \<comment> \<open>attestp2pNode.js: sendMessage\<close>
  | UnknownManifest                 \<comment> \<open>attestp2pNode.js: download\<close>
  | FileNotFound                    \<comment> \<open>attestp2pNode.js: sendFile\<close>
  | MissingArgument nat             \<comment> \<open>udpDiscovery.js, peerManager.js: constructor checks\<close>

type_synonym 'a res = "error + 'a"

named_theorems layout \<open>lengths and slices of the wire formats\<close>
named_theorems step_defs \<open>unfolding rules of handlers and step functions\<close>

section \<open>Sequencing of operations that may throw\<close>

definition bind_res :: "'a res \<Rightarrow> ('a \<Rightarrow> 'b res) \<Rightarrow> 'b res" where
  "bind_res r f = (case r of Inl e \<Rightarrow> Inl e | Inr x \<Rightarrow> f x)"

lemma bind_res_simps [simp]:
  "bind_res (Inl e) f = Inl e"
  "bind_res (Inr x) f = f x"
  by (simp_all add: bind_res_def)

lemma bind_res_eq_Inr:
  "bind_res r f = Inr y \<longleftrightarrow> (\<exists>x. r = Inr x \<and> f x = Inr y)"
  by (cases r) simp_all

section \<open>Slices\<close>

text \<open>\<open>Buffer.subarray(i, j)\<close>, with its clamping of both ends to the buffer's length.\<close>

definition subarray :: "'a list \<Rightarrow> nat \<Rightarrow> nat \<Rightarrow> 'a list" where
  "subarray b i j = take (j - i) (drop i b)"

lemma length_subarray [simp]: "length (subarray b i j) = min (j - i) (length b - i)"
  by (simp add: subarray_def min.commute)

lemma subarray_zero [simp]: "subarray b 0 n = take n b"
  by (simp add: subarray_def)

lemma subarray_append_left:
  "j \<le> length a \<Longrightarrow> subarray (a @ b) i j = subarray a i j"
  by (cases "i \<le> j") (simp_all add: subarray_def)

lemma subarray_append_right:
  "length a \<le> i \<Longrightarrow> subarray (a @ b) i j = subarray b (i - length a) (j - length a)"
  by (simp add: subarray_def)

lemma subarray_all: "length b \<le> j \<Longrightarrow> subarray b i j = drop i b"
  by (simp add: subarray_def)

section \<open>Big-endian integers\<close>

primrec be_bytes :: "nat \<Rightarrow> nat \<Rightarrow> bytes" where
  "be_bytes 0 n = []"
| "be_bytes (Suc k) n = be_bytes k (n div 256) @ [of_nat (n mod 256)]"

definition be_val :: "bytes \<Rightarrow> nat" where
  "be_val bs = foldl (\<lambda>a b. a * 256 + unat b) 0 bs"

lemma length_be_bytes [simp]: "length (be_bytes k n) = k"
  by (induction k arbitrary: n) simp_all

text \<open>For evaluation at concrete values.\<close>

lemma be_bytes_numeral:
  "be_bytes (numeral k) n = be_bytes (pred_numeral k) (n div 256) @ [of_nat (n mod 256)]"
  by (subst numeral_eq_Suc [of k]) (rule be_bytes.simps)

lemma be_val_Nil [simp]: "be_val [] = 0"
  by (simp add: be_val_def)

lemma be_val_snoc: "be_val (bs @ [b]) = be_val bs * 256 + unat b"
  by (simp add: be_val_def)

lemma unat_byte_less: "unat (b :: byte) < 256"
proof -
  have "unat b < 2 ^ LENGTH(8)" by (rule unsigned_less)
  then show ?thesis by simp
qed

lemma be_val_less: "be_val bs < 256 ^ length bs"
proof (induction bs rule: rev_induct)
  case Nil
  show ?case by simp
next
  case (snoc b bs)
  have "be_val bs * 256 + unat b < (be_val bs + 1) * 256"
    using unat_byte_less [of b] by simp
  also have "\<dots> \<le> 256 ^ length bs * 256"
    using snoc.IH by (intro mult_right_mono) simp_all
  finally show ?case by (simp add: be_val_snoc mult.commute)
qed

lemma be_val_be_bytes: "n < 256 ^ k \<Longrightarrow> be_val (be_bytes k n) = n"
proof (induction k arbitrary: n)
  case 0
  then show ?case by simp
next
  case (Suc k)
  then have "n div 256 < 256 ^ k"
    by (simp add: less_mult_imp_div_less mult.commute)
  then have "be_val (be_bytes k (n div 256)) = n div 256" by (rule Suc.IH)
  then show ?case
    by (simp add: be_val_snoc unat_of_nat)
qed

lemma be_bytes_be_val: "be_bytes (length bs) (be_val bs) = bs"
proof (induction bs rule: rev_induct)
  case Nil
  show ?case by simp
next
  case (snoc b bs)
  have "(be_val bs * 256 + unat b) div 256 = be_val bs"
    using unat_byte_less [of b] by simp
  moreover have "(be_val bs * 256 + unat b) mod 256 = unat b"
    using unat_byte_less [of b] by simp
  ultimately show ?case using snoc.IH by (simp add: be_val_snoc)
qed

text \<open>
  \<open>writeUInt32BE\<close>, \<open>writeBigUInt64BE\<close>, \<open>readUInt32BE\<close> and \<open>readBigUInt64BE\<close> throw a
  \<open>RangeError\<close> for a value that does not fit and for an offset past the end.
\<close>

definition writeUInt32BE :: "nat \<Rightarrow> bytes res" where
  "writeUInt32BE n = (if n < 2 ^ 32 then Inr (be_bytes 4 n) else Inl RangeError)"

definition writeBigUInt64BE :: "int \<Rightarrow> bytes res" where
  "writeBigUInt64BE n =
     (if 0 \<le> n \<and> n < 2 ^ 64 then Inr (be_bytes 8 (nat n)) else Inl RangeError)"

definition readUInt32BE :: "bytes \<Rightarrow> nat \<Rightarrow> nat res" where
  "readUInt32BE b off =
     (if off + 4 \<le> length b then Inr (be_val (subarray b off (off + 4))) else Inl RangeError)"

definition readBigUInt64BE :: "bytes \<Rightarrow> nat \<Rightarrow> nat res" where
  "readBigUInt64BE b off =
     (if off + 8 \<le> length b then Inr (be_val (subarray b off (off + 8))) else Inl RangeError)"

definition readUInt8 :: "bytes \<Rightarrow> nat \<Rightarrow> nat res" where
  "readUInt8 b off = (if off < length b then Inr (unat (b ! off)) else Inl RangeError)"

lemma readUInt32BE_bound: "readUInt32BE b off = Inr n \<Longrightarrow> n < 2 ^ 32"
  using be_val_less [of "subarray b off (off + 4)"]
  by (auto simp: readUInt32BE_def split: if_splits)

lemma readBigUInt64BE_bound: "readBigUInt64BE b off = Inr n \<Longrightarrow> n < 2 ^ 64"
  using be_val_less [of "subarray b off (off + 8)"]
  by (auto simp: readBigUInt64BE_def split: if_splits)

lemma read_write32:
  "writeUInt32BE n = Inr w \<Longrightarrow> readUInt32BE (a @ w @ b) (length a) = Inr n"
  by (auto simp: writeUInt32BE_def readUInt32BE_def subarray_append_right subarray_append_left
      be_val_be_bytes split: if_splits)

lemma read_write64:
  "writeBigUInt64BE n = Inr w \<Longrightarrow> readBigUInt64BE (a @ w @ b) (length a) = Inr (nat n)"
  by (auto simp: writeBigUInt64BE_def readBigUInt64BE_def subarray_append_right
      subarray_append_left be_val_be_bytes nat_less_iff split: if_splits)

lemma length_writeUInt32BE [layout]: "writeUInt32BE n = Inr w \<Longrightarrow> length w = 4"
  by (auto simp: writeUInt32BE_def split: if_splits)

lemma length_writeBigUInt64BE [layout]: "writeBigUInt64BE n = Inr w \<Longrightarrow> length w = 8"
  by (auto simp: writeBigUInt64BE_def split: if_splits)

section \<open>Hexadecimal strings\<close>

text \<open>
  \<open>buf.toString("hex")\<close> writes two lower-case digits per byte. \<open>Buffer.from(s, "hex")\<close> reads
  pairs of digits of either case and stops at the first pair that is not one.
\<close>

definition hex_digits :: string where
  "hex_digits = ''0123456789abcdef''"

definition hex_of_nibble :: "nat \<Rightarrow> char" where
  "hex_of_nibble n = hex_digits ! n"

definition nibble_of_hex :: "char \<Rightarrow> nat option" where
  "nibble_of_hex c =
     (let n = (of_char c :: nat) in
      if 48 \<le> n \<and> n \<le> 57 then Some (n - 48)
      else if 97 \<le> n \<and> n \<le> 102 then Some (n - 87)
      else if 65 \<le> n \<and> n \<le> 70 then Some (n - 55)
      else None)"

primrec hex_of_bytes :: "bytes \<Rightarrow> string" where
  "hex_of_bytes [] = ''''"
| "hex_of_bytes (b # bs) =
     hex_of_nibble (unat b div 16) # hex_of_nibble (unat b mod 16) # hex_of_bytes bs"

fun bytes_of_hex :: "string \<Rightarrow> bytes" where
  "bytes_of_hex (c # d # cs) =
     (case (nibble_of_hex c, nibble_of_hex d) of
        (Some h, Some l) \<Rightarrow> of_nat (16 * h + l) # bytes_of_hex cs
      | _ \<Rightarrow> [])"
| "bytes_of_hex _ = []"

lemma all_nibbles: "(n :: nat) < 16 \<Longrightarrow> n \<in> {0, 1, 2, 3, 4, 5, 6, 7, 8, 9, 10, 11, 12, 13, 14, 15}"
  by (simp; presburger)

lemma nibble_of_hex_of_nibble: "n < 16 \<Longrightarrow> nibble_of_hex (hex_of_nibble n) = Some n"
  by (drule all_nibbles) (auto simp: nibble_of_hex_def hex_of_nibble_def hex_digits_def)

lemma hex_of_nibble_neq_colon: "n < 16 \<Longrightarrow> hex_of_nibble n \<noteq> CHR '':''"
  by (drule all_nibbles) (auto simp: hex_of_nibble_def hex_digits_def)

lemma length_hex_of_bytes [simp]: "length (hex_of_bytes bs) = 2 * length bs"
  by (induction bs) simp_all

lemma bytes_of_hex_of_bytes [simp]: "bytes_of_hex (hex_of_bytes bs) = bs"
proof (induction bs)
  case Nil
  show ?case by simp
next
  case (Cons b bs)
  have "unat b div 16 < 16" using unat_byte_less [of b] by simp
  then show ?case using Cons.IH
    by (simp add: nibble_of_hex_of_nibble)
qed

lemma hex_of_bytes_inj: "hex_of_bytes a = hex_of_bytes b \<longleftrightarrow> a = b"
  by (metis bytes_of_hex_of_bytes)

lemma hex_of_bytes_no_colon: "CHR '':'' \<notin> set (hex_of_bytes bs)"
proof (induction bs)
  case Nil
  show ?case by simp
next
  case (Cons b bs)
  have "unat b div 16 < 16" using unat_byte_less [of b] by simp
  then have "hex_of_nibble (unat b div 16) \<noteq> CHR '':''" by (rule hex_of_nibble_neq_colon)
  moreover have "hex_of_nibble (unat b mod 16) \<noteq> CHR '':''"
    by (rule hex_of_nibble_neq_colon) simp
  ultimately show ?case using Cons.IH by auto
qed

end
