(* ===== verification/Config.thy ===== *)
theory Config
  imports Prelude
begin

text \<open>
  \<open>src/config.js\<close>: the protocol's constants and the fail-closed access to the HMAC secret. The
  environment is read through an argument: \<open>secret\<close> is \<open>process.env.HMAC_SECRET\<close> as the bytes of
  its UTF-8 text, absent or present. The settings that the environment may override (ports, the
  multicast group, paths) and the intervals of timers are in \<^theory_text>\<open>Settings\<close>.
\<close>

named_theorems config \<open>values of the constants of config.js\<close>

definition getHmacKey :: "bytes option \<Rightarrow> bytes res" where
  "getHmacKey secret =
     (case secret of
        None \<Rightarrow> Inl HmacSecretMissing
      | Some key \<Rightarrow> if key = [] then Inl HmacSecretMissing else Inr key)"

text \<open>\<open>a || d\<close> on an optional number: absent and zero select the default.\<close>

definition js_or :: "int option \<Rightarrow> int \<Rightarrow> int" where
  "js_or a d = (case a of None \<Rightarrow> d | Some n \<Rightarrow> if n = 0 then d else n)"

definition MAGIC :: bytes where
  [config]: "MAGIC = [0x41, 0x54, 0x54, 0x50]"

definition MAX_PAYLOAD_SIZE :: nat where
  [config]: "MAX_PAYLOAD_SIZE = 1 * 1024 * 1024"

definition MAX_PACKET_SIZE :: nat where
  [config]: "MAX_PACKET_SIZE = 2 * 1024 * 1024"

definition MAX_BUFFER_SIZE :: nat where
  [config]: "MAX_BUFFER_SIZE = 5 * 1024 * 1024"

definition MAX_PACKETS_PER_SECOND :: nat where
  [config]: "MAX_PACKETS_PER_SECOND = 50"

definition MAX_PACKETS_PER_SECOND_PER_IP :: nat where
  [config]: "MAX_PACKETS_PER_SECOND_PER_IP = 200"

definition PARTIAL_PACKET_TIMEOUT :: time where
  [config]: "PARTIAL_PACKET_TIMEOUT = 5000"

definition MAX_CONNECTION_TIME :: time where
  [config]: "MAX_CONNECTION_TIME = 60000"

definition REPLAY_ENVELOPE_LEN :: nat where
  [config]: "REPLAY_ENVELOPE_LEN = 24"

definition REPLAY_WINDOW_MS :: time where
  [config]: "REPLAY_WINDOW_MS = 30000"

definition REPLAY_CACHE_MAX :: nat where
  [config]: "REPLAY_CACHE_MAX = 100000"

definition PEER_TTL_MS :: time where
  [config]: "PEER_TTL_MS = 15000"

definition BLACKLIST_BAN_MS :: time where
  [config]: "BLACKLIST_BAN_MS = 5 * 60 * 1000"

definition BLACKLIST_STRIKE_THRESHOLD :: int where
  [config]: "BLACKLIST_STRIKE_THRESHOLD = 5"

definition BLACKLIST_STRIKE_WINDOW_MS :: time where
  [config]: "BLACKLIST_STRIKE_WINDOW_MS = 60 * 1000"

definition SESSION_MAX_FRAME :: nat where
  [config]: "SESSION_MAX_FRAME = 2 * 1024 * 1024"

definition SESSION_MAX_MSG_PER_SECOND :: int where
  [config]: "SESSION_MAX_MSG_PER_SECOND = 100"

definition SESSION_REKEY_EVERY_MSGS :: int where
  [config]: "SESSION_REKEY_EVERY_MSGS = 1000"

definition SESSION_REKEY_EVERY_BYTES :: int where
  [config]: "SESSION_REKEY_EVERY_BYTES = 8 * 1024 * 1024"

definition SESSION_REKEY_EVERY_MS :: int where
  [config]: "SESSION_REKEY_EVERY_MS = 5 * 60 * 1000"

lemma getHmacKey_Inr: "getHmacKey s = Inr k \<longleftrightarrow> s = Some k \<and> k \<noteq> []"
  by (auto simp: getHmacKey_def split: option.splits if_splits)

lemma length_MAGIC [simp, layout]: "length MAGIC = 4"
  by (simp add: MAGIC_def)

end
