(* ===== verification/Framing.thy ===== *)
theory Framing
  imports Config
begin

text \<open>
  Cutting a TCP byte stream into messages. The locale \<open>segmenter\<close> is the contract between a
  receiver and the routine that cuts its buffer (\<open>FrameDecoder.push\<close> of \<open>src/protocol/frame.js\<close>
  and \<open>extractPackets\<close> of \<open>src/protocol/packet.js\<close>): the routine repeats one step, and what the
  step decides on a buffer it also decides on every longer buffer. From that alone follows that
  the messages cut out of a stream do not depend on how TCP fragments it. The second half of the
  theory models \<open>src/protocol/frame.js\<close> and discharges the contract for it; the packet theory
  does so for the packets.
\<close>

section \<open>The contract of a segmenter\<close>

text \<open>One iteration of the loop: wait for more bytes, throw, or emit a message.\<close>

datatype seg = Wait | Fail error | Emit bytes bytes

text \<open>
  A receiver feeds the chunks of a stream one by one: the bytes left over are kept in front of
  the next chunk. A \<open>cutter\<close> is the segmenting loop with the messages found so far.
\<close>

type_synonym cutter = "bytes list \<Rightarrow> bytes \<Rightarrow> (bytes list \<times> bytes) res"

fun feed :: "(bytes \<Rightarrow> (bytes list \<times> bytes) res) \<Rightarrow> bytes \<Rightarrow> bytes list \<Rightarrow> (bytes list \<times> bytes) res" where
  "feed cutf buf [] = Inr ([], buf)"
| "feed cutf buf (c # cs) =
     (case cutf (buf @ c) of
        Inl e \<Rightarrow> Inl e
      | Inr (xs, r) \<Rightarrow>
          (case feed cutf r cs of Inl e \<Rightarrow> Inl e | Inr (ys, r') \<Rightarrow> Inr (xs @ ys, r')))"

locale segmenter =
  fixes nxt :: "bytes \<Rightarrow> seg"
    and cutf :: cutter
  assumes cut_Wait: "nxt b = Wait \<Longrightarrow> cutf acc b = Inr (acc, b)"
    and cut_Fail: "nxt b = Fail e \<Longrightarrow> cutf acc b = Inl e"
    and cut_Emit: "nxt b = Emit x r \<Longrightarrow> cutf acc b = cutf (acc @ [x]) r"
    and emit_shorter: "nxt b = Emit x r \<Longrightarrow> length r < length b"
    and emit_append: "nxt b = Emit x r \<Longrightarrow> nxt (b @ c) = Emit x (r @ c)"
    and fail_append: "nxt b = Fail e \<Longrightarrow> nxt (b @ c) = Fail e"
begin

lemma cut_acc: "cutf acc b = (case cutf [] b of Inl e \<Rightarrow> Inl e | Inr (xs, r) \<Rightarrow> Inr (acc @ xs, r))"
proof (induction "length b" arbitrary: acc b rule: less_induct)
  case less
  show ?case
  proof (cases "nxt b")
    case Wait
    then show ?thesis by (simp add: cut_Wait)
  next
    case (Fail e)
    then show ?thesis by (simp add: cut_Fail)
  next
    case (Emit x r)
    have "length r < length b" using Emit by (rule emit_shorter)
    then show ?thesis using less.hyps [of r "acc @ [x]"] less.hyps [of r "[x]"]
      by (simp add: cut_Emit [OF Emit] split: sum.split prod.split)
  qed
qed

lemma cut_append:
  "cutf [] (a @ c) =
     (case cutf [] a of
        Inl e \<Rightarrow> Inl e
      | Inr (xs, r) \<Rightarrow>
          (case cutf [] (r @ c) of Inl e \<Rightarrow> Inl e | Inr (ys, r') \<Rightarrow> Inr (xs @ ys, r')))"
proof (induction "length a" arbitrary: a rule: less_induct)
  case less
  show ?case
  proof (cases "nxt a")
    case Wait
    then show ?thesis by (simp add: cut_Wait split: sum.split)
  next
    case (Fail e)
    then show ?thesis by (simp add: cut_Fail fail_append)
  next
    case (Emit x r)
    have "cutf [] (a @ c) = cutf [x] (r @ c)"
      using emit_append [OF Emit] by (simp add: cut_Emit)
    moreover have "cutf [] a = cutf [x] r" using Emit by (simp add: cut_Emit)
    moreover have "length r < length a" using Emit by (rule emit_shorter)
    ultimately show ?thesis using less.hyps [of r]
      by (simp add: cut_acc [of "[x]"] split: sum.split prod.split)
  qed
qed

text \<open>What is left over after a cut holds no further message: cutting it again waits.\<close>

lemma cut_residue: "cutf acc b = Inr (xs, r) \<Longrightarrow> nxt r = Wait"
proof (induction "length b" arbitrary: acc b rule: less_induct)
  case less
  show ?case
  proof (cases "nxt b")
    case Wait
    then show ?thesis using less.prems by (simp add: cut_Wait)
  next
    case (Fail e)
    then show ?thesis using less.prems by (simp add: cut_Fail)
  next
    case (Emit x s)
    then have "cutf (acc @ [x]) s = Inr (xs, r)" using less.prems by (simp add: cut_Emit)
    then show ?thesis using less.hyps emit_shorter [OF Emit] by blast
  qed
qed

lemma cut_residue_suffix: "cutf acc b = Inr (xs, r) \<Longrightarrow> length r \<le> length b"
proof (induction "length b" arbitrary: acc b rule: less_induct)
  case less
  show ?case
  proof (cases "nxt b")
    case (Emit x s)
    then have "cutf (acc @ [x]) s = Inr (xs, r)" using less.prems by (simp add: cut_Emit)
    then have "length r \<le> length s" using less.hyps emit_shorter [OF Emit] by blast
    then show ?thesis using emit_shorter [OF Emit] by simp
  qed (use less.prems in \<open>simp_all add: cut_Wait cut_Fail\<close>)
qed

text \<open>Every emitted message comes from a step on some buffer.\<close>

lemma cut_emits: "cutf acc b = Inr (xs, r) \<Longrightarrow> x \<in> set xs \<Longrightarrow> x \<in> set acc \<or> (\<exists>b s. nxt b = Emit x s)"
proof (induction "length b" arbitrary: acc b rule: less_induct)
  case less
  show ?case
  proof (cases "nxt b")
    case (Emit y s)
    then have "cutf (acc @ [y]) s = Inr (xs, r)" using less.prems by (simp add: cut_Emit)
    then show ?thesis using less.hyps [OF emit_shorter [OF Emit]] less.prems(2) Emit by fastforce
  qed (use less.prems in \<open>simp_all add: cut_Wait cut_Fail\<close>)
qed

text \<open>Fragmentation is invisible: feeding chunks cuts the concatenated stream.\<close>

lemma feed_concat:
  assumes "nxt buf = Wait"
  shows "feed (cutf []) buf cs = cutf [] (buf @ concat cs)"
  using assms
proof (induction cs arbitrary: buf)
  case Nil
  then show ?case by (simp add: cut_Wait)
next
  case (Cons c cs)
  show ?case
  proof (cases "cutf [] (buf @ c)")
    case (Inl e)
    then show ?thesis using cut_append [of "buf @ c" "concat cs"] by simp
  next
    case (Inr p)
    obtain xs r where p: "p = (xs, r)" by (cases p)
    have "nxt r = Wait" using Inr p by (auto intro: cut_residue)
    then show ?thesis using Inr p Cons.IH [of r] cut_append [of "buf @ c" "concat cs"]
      by (simp split: sum.split)
  qed
qed

end

text \<open>With an encoder whose output the step takes back, whole streams are taken back.\<close>

locale framed_stream = segmenter +
  fixes enc :: "'p \<Rightarrow> bytes"
    and dec :: "'p \<Rightarrow> bytes"
    and fits :: "'p \<Rightarrow> bool"
  assumes wait_Nil: "nxt [] = Wait"
    and nxt_enc: "fits p \<Longrightarrow> nxt (enc p) = Emit (dec p) []"
begin

lemma cut_stream:
  assumes "\<forall>p \<in> set ps. fits p"
  shows "cutf [] (concat (map enc ps) @ rest) =
    (case cutf [] rest of Inl e \<Rightarrow> Inl e | Inr (xs, r) \<Rightarrow> Inr (map dec ps @ xs, r))"
  using assms
proof (induction ps)
  case Nil
  show ?case by (simp split: sum.split)
next
  case (Cons p ps)
  let ?tail = "concat (map enc ps) @ rest"
  have "nxt (enc p @ ?tail) = Emit (dec p) ?tail"
    using emit_append [OF nxt_enc [of p], of ?tail] Cons.prems by simp
  then have "cutf [] (enc p @ ?tail) = cutf [dec p] ?tail" by (simp add: cut_Emit)
  then show ?case using Cons by (simp add: cut_acc [of "[dec p]"] split: sum.split prod.split)
qed

lemma stream_roundtrip:
  assumes "\<forall>p \<in> set ps. fits p" and "concat cs = concat (map enc ps)"
  shows "feed (cutf []) [] cs = Inr (map dec ps, [])"
  using cut_stream [OF assms(1), of "[]"] assms(2)
  by (simp add: feed_concat [OF wait_Nil] cut_Wait [OF wait_Nil])

text \<open>A strict prefix of an encoded message is neither an error nor a message.\<close>

lemma prefix_waits:
  assumes "fits p" and "enc p = a @ c" and "c \<noteq> []"
  shows "nxt a = Wait"
proof (cases "nxt a")
  case (Fail e)
  then show ?thesis using fail_append [OF Fail, of c] nxt_enc [OF assms(1)] assms(2) by simp
next
  case (Emit x r)
  then show ?thesis using emit_append [OF Emit, of c] nxt_enc [OF assms(1)] assms(2,3) by simp
qed simp

text \<open>
  A receiver that has seen a part of a stream has cut out some first messages, and what it keeps,
  with the rest of the stream, is the encoding of the others.
\<close>

lemma cut_partial:
  assumes "\<forall>p \<in> set ps. fits p" and "buf @ rest = concat (map enc ps)"
  shows "\<exists>ps1 ps2 r. ps = ps1 @ ps2 \<and> cutf [] buf = Inr (map dec ps1, r) \<and>
    r @ rest = concat (map enc ps2)"
  using assms
proof (induction ps arbitrary: buf)
  case Nil
  then show ?case by (auto simp: cut_Wait wait_Nil)
next
  case (Cons p ps)
  show ?case
  proof (cases "length (enc p) \<le> length buf")
    case True
    then have "take (length (enc p)) buf = enc p"
      using arg_cong [OF Cons.prems(2), of "take (length (enc p))"] by simp
    then obtain b where b: "buf = enc p @ b" by (metis append_take_drop_id)
    then have b2: "b @ rest = concat (map enc ps)" using Cons.prems(2) by simp
    obtain ps1 ps2 r where r: "ps = ps1 @ ps2" "cutf [] b = Inr (map dec ps1, r)"
      "r @ rest = concat (map enc ps2)"
      using Cons.IH [OF _ b2] Cons.prems(1) by auto
    have "cutf [] buf = Inr (map dec (p # ps1), r)"
      using cut_stream [of "[p]" b] Cons.prems(1) r(2) b by simp
    then show ?thesis using r by (intro exI [of _ "p # ps1"] exI [of _ ps2] exI [of _ r]) simp
  next
    case False
    define c where "c = drop (length buf) (enc p)"
    have "take (length buf) (enc p) = buf"
      using arg_cong [OF Cons.prems(2), of "take (length buf)"] False by simp
    then have "enc p = buf @ c" by (metis append_take_drop_id c_def)
    moreover have "c \<noteq> []" using False by (simp add: c_def)
    ultimately have "cutf [] buf = Inr ([], buf)"
      using prefix_waits [of p buf c] Cons.prems(1) by (simp add: cut_Wait)
    then show ?thesis using Cons.prems(2)
      by (intro exI [of _ "[]"] exI [of _ "p # ps"] exI [of _ buf]) simp
  qed
qed

end

section \<open>frame.js: length-prefixed frames\<close>

text \<open>\<open>| len(4, UInt32BE) | payload(len) |\<close>\<close>

definition encodeFrame :: "bytes \<Rightarrow> bytes res" where
  "encodeFrame payload = bind_res (writeUInt32BE (length payload)) (\<lambda>len. Inr (len @ payload))"

record frame_decoder =
  fd_max :: nat
  fd_buf :: bytes

definition new_frame_decoder :: "nat \<Rightarrow> frame_decoder" where
  "new_frame_decoder maxFrame = \<lparr>fd_max = maxFrame, fd_buf = []\<rparr>"

text \<open>
  The \<open>while\<close> loop of \<open>push\<close>. The frames found before a throw are lost with the local array,
  while \<open>this.buf\<close> keeps the position reached: the result is the outcome and the buffer.
\<close>

function push_loop :: "nat \<Rightarrow> bytes list \<Rightarrow> bytes \<Rightarrow> bytes list res \<times> bytes" where
  "push_loop mx frames buf =
     (if 4 \<le> length buf then
        (let len = be_val (subarray buf 0 4) in
         if mx < len then (Inl (FrameTooLarge len mx), buf)
         else if length buf < 4 + len then (Inr frames, buf)
         else push_loop mx (frames @ [subarray buf 4 (4 + len)]) (drop (4 + len) buf))
      else (Inr frames, buf))"
  by pat_completeness auto
termination
  by (relation "measure (\<lambda>(mx, frames, buf). length buf)") auto

declare push_loop.simps [simp del]

definition push :: "frame_decoder \<Rightarrow> bytes \<Rightarrow> bytes list res \<times> frame_decoder" where
  "push d chunk =
     (case push_loop (fd_max d) [] (fd_buf d @ chunk) of
        (r, buf) \<Rightarrow> (r, d\<lparr>fd_buf := buf\<rparr>))"

section \<open>frame.js satisfies the contract\<close>

definition frame_next :: "nat \<Rightarrow> bytes \<Rightarrow> seg" where
  "frame_next mx buf =
     (if length buf < 4 then Wait
      else let len = be_val (take 4 buf) in
        if mx < len then Fail (FrameTooLarge len mx)
        else if length buf < 4 + len then Wait
        else Emit (take len (drop 4 buf)) (drop (4 + len) buf))"

definition frame_cut :: "nat \<Rightarrow> cutter" where
  "frame_cut mx acc buf =
     (case push_loop mx acc buf of (Inl e, _) \<Rightarrow> Inl e | (Inr xs, r) \<Rightarrow> Inr (xs, r))"

definition frame_bytes :: "bytes \<Rightarrow> bytes" where
  "frame_bytes p = be_bytes 4 (length p) @ p"

lemma encodeFrame_eq:
  "encodeFrame p = (if length p < 2 ^ 32 then Inr (frame_bytes p) else Inl RangeError)"
  by (simp add: encodeFrame_def writeUInt32BE_def frame_bytes_def)

lemma encodeFrame_map:
  "map encodeFrame ps = map Inr ws \<Longrightarrow>
     ws = map frame_bytes ps \<and> (\<forall>p \<in> set ps. length p < 2 ^ 32)"
  by (induction ps arbitrary: ws) (auto simp: encodeFrame_eq split: if_splits)

lemma frame_next_emit_append:
  "frame_next mx b = Emit x r \<Longrightarrow> frame_next mx (b @ c) = Emit x (r @ c)"
  by (auto simp: frame_next_def Let_def split: if_splits)

lemma frame_next_fail_append: "frame_next mx b = Fail e \<Longrightarrow> frame_next mx (b @ c) = Fail e"
  by (auto simp: frame_next_def Let_def split: if_splits)

lemma frame_next_shorter: "frame_next mx b = Emit x r \<Longrightarrow> length r < length b"
  by (auto simp: frame_next_def Let_def split: if_splits)

lemma frame_next_encoded:
  assumes "length p \<le> mx" and "length p < 2 ^ 32"
  shows "frame_next mx (frame_bytes p) = Emit p []"
  using assms by (simp add: frame_next_def frame_bytes_def be_val_be_bytes)

lemma frame_cut_Wait: "frame_next mx b = Wait \<Longrightarrow> frame_cut mx acc b = Inr (acc, b)"
  by (auto simp: frame_next_def frame_cut_def push_loop.simps [of mx acc b] Let_def
      split: if_splits)

lemma frame_cut_Fail: "frame_next mx b = Fail e \<Longrightarrow> frame_cut mx acc b = Inl e"
  by (auto simp: frame_next_def frame_cut_def push_loop.simps [of mx acc b] Let_def
      split: if_splits)

lemma frame_cut_Emit:
  "frame_next mx b = Emit x r \<Longrightarrow> frame_cut mx acc b = frame_cut mx (acc @ [x]) r"
  by (auto simp: frame_next_def frame_cut_def push_loop.simps [of mx acc b] subarray_def Let_def
      split: if_splits)

interpretation frames: framed_stream
  "frame_next mx" "frame_cut mx" frame_bytes "\<lambda>p. p" "\<lambda>p. length p \<le> mx \<and> length p < 2 ^ 32"
  for mx
proof unfold_locales
  show "frame_next mx [] = Wait" by (simp add: frame_next_def)
qed (fact frame_cut_Wait frame_cut_Fail frame_cut_Emit frame_next_shorter
       frame_next_emit_append frame_next_fail_append
     | erule conjE, rule frame_next_encoded, assumption+)+

text \<open>The chunks a connection receives go through \<open>push\<close> one after the other.\<close>

fun push_all :: "frame_decoder \<Rightarrow> bytes list \<Rightarrow> bytes list res \<times> frame_decoder" where
  "push_all d [] = (Inr [], d)"
| "push_all d (c # cs) =
     (case push d c of
        (Inl e, d') \<Rightarrow> (Inl e, d')
      | (Inr xs, d') \<Rightarrow>
          (case push_all d' cs of
             (Inl e, d'') \<Rightarrow> (Inl e, d'')
           | (Inr ys, d'') \<Rightarrow> (Inr (xs @ ys), d'')))"

lemma push_max [simp]: "fd_max (snd (push d c)) = fd_max d"
  by (simp add: push_def split: prod.split)

lemma frame_cut_push:
  "frame_cut (fd_max d) [] (fd_buf d @ c) =
     (case push d c of (Inl e, _) \<Rightarrow> Inl e | (Inr xs, d') \<Rightarrow> Inr (xs, fd_buf d'))"
  by (simp add: push_def frame_cut_def split: prod.split sum.split)

lemma feed_push_all:
  "feed (frame_cut (fd_max d) []) (fd_buf d) cs =
     (case push_all d cs of (Inl e, _) \<Rightarrow> Inl e | (Inr xs, d') \<Rightarrow> Inr (xs, fd_buf d'))"
proof (induction cs arbitrary: d)
  case Nil
  show ?case by simp
next
  case (Cons c cs)
  obtain r d' where p: "push d c = (r, d')" by (cases "push d c")
  have m: "fd_max d' = fd_max d" using push_max [of d c] p by simp
  show ?case using Cons.IH [of d'] frame_cut_push [of d c]
    by (simp add: p m split: sum.split prod.split)
qed

lemma push_all_max: "fd_max (snd (push_all d cs)) = fd_max d"
proof (induction cs arbitrary: d)
  case (Cons c cs)
  obtain r d' where p: "push d c = (r, d')" by (cases "push d c")
  have "fd_max d' = fd_max d" using push_max [of d c] p by simp
  then show ?case using Cons.IH [of d']
    by (cases r; cases "push_all d' cs") (auto simp: p split: sum.split)
qed simp

lemma frame_next_Wait_bound: "frame_next mx b = Wait \<Longrightarrow> length b < 4 + mx"
  by (auto simp: frame_next_def Let_def split: if_splits)

text \<open>C14. The frames of a session survive TCP: however the byte stream of any list of encoded frames
  is cut into chunks, \<open>FrameDecoder.push\<close> on the successive chunks returns exactly the payloads, in
  order, and its buffer ends empty.\<close>

theorem frame_stream_roundtrip:
  assumes "map encodeFrame ps = map Inr ws" and "\<forall>p \<in> set ps. length p \<le> mx"
    and "concat cs = concat ws"
  shows "push_all (new_frame_decoder mx) cs = (Inr ps, new_frame_decoder mx)"
proof -
  have "ws = map frame_bytes ps" and "\<forall>p \<in> set ps. length p < 2 ^ 32"
    using encodeFrame_map [OF assms(1)] by simp_all
  then have "feed (frame_cut mx []) [] cs = Inr (ps, [])"
    using frames.stream_roundtrip [of ps mx cs] assms(2,3) by simp
  then show ?thesis
    using feed_push_all [of "new_frame_decoder mx" cs] push_all_max [of "new_frame_decoder mx" cs]
    by (cases "push_all (new_frame_decoder mx) cs")
      (auto simp: new_frame_decoder_def split: sum.splits)
qed

theorem frame_stream_roundtrip_witness:
  "push_all (new_frame_decoder 8) [[0, 0, 0], [2, 7], [9, 0, 0, 0, 0]] =
     (Inr [[7, 9], []], new_frame_decoder 8)"
  by (rule frame_stream_roundtrip [where ws = "[[0, 0, 0, 2, 7, 9], [0, 0, 0, 0]]"])
    (simp_all add: encodeFrame_eq frame_bytes_def be_bytes_numeral)

text \<open>The decoder's memory is bounded: after any chunk that it accepts, fewer bytes than one
  maximal frame and its length prefix stay buffered, and an announced length above the bound is
  refused from the four bytes of the prefix alone.\<close>

theorem frame_buffer_bounded:
  "(\<forall>xs. fst (push d c) = Inr xs \<longrightarrow> length (fd_buf (snd (push d c))) < 4 + fd_max d) \<and>
   (\<forall>n. fd_max d < n \<and> n < 2 ^ 32 \<and> fd_buf d = [] \<longrightarrow>
      fst (push d (be_bytes 4 n)) = Inl (FrameTooLarge n (fd_max d)))"
proof (intro conjI allI impI)
  fix xs assume "fst (push d c) = Inr xs"
  then have "frame_cut (fd_max d) [] (fd_buf d @ c) = Inr (xs, fd_buf (snd (push d c)))"
    by (cases "push d c") (simp add: frame_cut_push)
  then show "length (fd_buf (snd (push d c))) < 4 + fd_max d"
    by (rule frame_next_Wait_bound [OF frames.cut_residue])
next
  fix n assume "fd_max d < n \<and> n < 2 ^ 32 \<and> fd_buf d = []"
  then show "fst (push d (be_bytes 4 n)) = Inl (FrameTooLarge n (fd_max d))"
    by (simp add: push_def push_loop.simps be_val_be_bytes)
qed

theorem frame_buffer_bounded_witness:
  "fst (push (new_frame_decoder 8) (be_bytes 4 9)) = Inl (FrameTooLarge 9 8) \<and>
   length (fd_buf (snd (push (new_frame_decoder 8) [0, 0, 0, 8, 1]))) < 12"
proof -
  have "fst (push (new_frame_decoder 8) [0, 0, 0, 8, 1]) = Inr []"
    by (simp add: push_def push_loop.simps new_frame_decoder_def be_val_def)
  then show ?thesis
    using frame_buffer_bounded [of "new_frame_decoder 8" "[0, 0, 0, 8, 1]"]
    by (auto simp: new_frame_decoder_def)
qed

end
