(* ===== verification/Keys.thy ===== *)
theory Keys
  imports Config
begin

text \<open>
  The cryptographic runtime and \<open>src/crypto/keys.js\<close>.

  libsodium and Node's OpenSSL binding are not under \<open>src/\<close>: they are the argument \<open>crypto\<close> of every
  definition that uses them, a record of functions. What the program relies on is stated as named
  predicates over that record (sizes of outputs, correctness of signatures, of the AEAD and of the
  key agreement), each documented behaviour of these libraries; a theorem that needs one has it as
  a hypothesis. \<open>demo_crypto\<close> at the end is a concrete record that satisfies them all, used only in
  witnesses: nothing is proved from its particular functions.
\<close>

section \<open>The runtime\<close>

record crypto =
  sha256 :: "bytes \<Rightarrow> bytes"                            \<comment> \<open>\<open>createHash("sha256")\<close>\<close>
  hmac_sha256 :: "bytes \<Rightarrow> bytes \<Rightarrow> bytes"              \<comment> \<open>\<open>createHmac\<close>: key, message\<close>
  hkdf_sync :: "bytes \<Rightarrow> bytes \<Rightarrow> bytes \<Rightarrow> bytes"       \<comment> \<open>\<open>hkdfSync\<close>: ikm, salt, info\<close>
  ed_public :: "bytes \<Rightarrow> bytes"                         \<comment> \<open>public key of a seed\<close>
  ed_private :: "bytes \<Rightarrow> bytes"                        \<comment> \<open>private key of a seed\<close>
  ed_sign :: "bytes \<Rightarrow> bytes \<Rightarrow> bytes"                  \<comment> \<open>\<open>crypto_sign_detached\<close>: private key, message\<close>
  ed_verify :: "bytes \<Rightarrow> bytes \<Rightarrow> bytes \<Rightarrow> bool res"    \<comment> \<open>signature, message, public key\<close>
  x_public :: "bytes \<Rightarrow> bytes"                          \<comment> \<open>X25519 public key of a private key\<close>
  x_scalarmult :: "bytes \<Rightarrow> bytes \<Rightarrow> bytes res"         \<comment> \<open>\<open>crypto_scalarmult\<close>\<close>
  aead_encrypt :: "bytes \<Rightarrow> bytes \<Rightarrow> bytes \<Rightarrow> bytes"    \<comment> \<open>plaintext, nonce, key\<close>
  aead_decrypt :: "bytes \<Rightarrow> bytes \<Rightarrow> bytes \<Rightarrow> bytes res" \<comment> \<open>ciphertext, nonce, key\<close>

text \<open>Documented behaviour that the program relies on.\<close>

definition crypto_sizes :: "crypto \<Rightarrow> bool" where
  "crypto_sizes C \<longleftrightarrow>
     (\<forall>m. length (sha256 C m) = 32) \<and>
     (\<forall>k m. length (hmac_sha256 C k m) = 32) \<and>
     (\<forall>k s i. length (hkdf_sync C k s i) = 32) \<and>
     (\<forall>s. length s = 32 \<longrightarrow> length (ed_public C s) = 32) \<and>
     (\<forall>s m. length s = 32 \<longrightarrow> length (ed_sign C (ed_private C s) m) = 64) \<and>
     (\<forall>k. length k = 32 \<longrightarrow> length (x_public C k) = 32)"

definition sign_correct :: "crypto \<Rightarrow> bool" where
  "sign_correct C \<longleftrightarrow>
     (\<forall>s m. length s = 32 \<longrightarrow>
        ed_verify C (ed_sign C (ed_private C s) m) m (ed_public C s) = Inr True)"

definition aead_correct :: "crypto \<Rightarrow> bool" where
  "aead_correct C \<longleftrightarrow>
     (\<forall>p n k. length n = 24 \<and> length k = 32 \<longrightarrow>
        aead_decrypt C (aead_encrypt C p n k) n k = Inr p)"

definition aead_size :: "crypto \<Rightarrow> bool" where
  "aead_size C \<longleftrightarrow> (\<forall>p n k. length (aead_encrypt C p n k) = length p + 16)"

definition dh_agrees :: "crypto \<Rightarrow> bool" where
  "dh_agrees C \<longleftrightarrow>
     (\<forall>a b. length a = 32 \<and> length b = 32 \<longrightarrow>
        x_scalarmult C a (x_public C b) = x_scalarmult C b (x_public C a) \<and>
        (\<exists>s. x_scalarmult C a (x_public C b) = Inr s))"

lemma crypto_sizesD [layout]:
  assumes "crypto_sizes C"
  shows "length (sha256 C m) = 32" and "length (hmac_sha256 C k m) = 32"
    and "length (hkdf_sync C k s i) = 32"
    and "length sd = 32 \<Longrightarrow> length (ed_public C sd) = 32"
    and "length sd = 32 \<Longrightarrow> length (ed_sign C (ed_private C sd) m) = 64"
    and "length sd = 32 \<Longrightarrow> length (x_public C sd) = 32"
  using assms by (simp_all add: crypto_sizes_def)

lemma sign_correctD:
  "sign_correct C \<Longrightarrow> length s = 32 \<Longrightarrow>
     ed_verify C (ed_sign C (ed_private C s) m) m (ed_public C s) = Inr True"
  by (simp add: sign_correct_def)

section \<open>keys.js\<close>

text \<open>
  The module's state: whether \<open>sodium.ready\<close> has been awaited, and the key pair, which \<open>initKeys\<close>
  sets and nothing clears.
\<close>

record keypair =
  kp_public :: bytes
  kp_private :: bytes

record keystore =
  sodium_ready :: bool
  keyPair :: "keypair option"

definition fresh_keystore :: keystore where
  "fresh_keystore = \<lparr>sodium_ready = False, keyPair = None\<rparr>"

definition SEEDBYTES :: nat where
  "SEEDBYTES = 32"

text \<open>\<open>String.prototype.trim\<close> on the ASCII white space.\<close>

definition is_ws :: "char \<Rightarrow> bool" where
  "is_ws c = ((of_char c :: nat) \<in> {9, 10, 11, 12, 13, 32})"

definition trim :: "string \<Rightarrow> string" where
  "trim s = rev (dropWhile is_ws (rev (dropWhile is_ws s)))"

text \<open>
  \<open>loadOrCreateSeed\<close>: the identity file is absent or a text. \<open>rnd\<close> is what
  \<open>randombytes_buf(32)\<close> returns; the second result is the file afterwards.
\<close>

definition loadOrCreateSeed :: "bytes \<Rightarrow> string option \<Rightarrow> bytes res \<times> string option" where
  "loadOrCreateSeed rnd file =
     (case file of
        Some text \<Rightarrow>
          (let seed = bytes_of_hex (trim text) in
           if length seed \<noteq> SEEDBYTES then (Inl BadSeed, file) else (Inr seed, file))
      | None \<Rightarrow> (Inr rnd, Some (hex_of_bytes rnd)))"

definition initKeys ::
    "crypto \<Rightarrow> bytes \<Rightarrow> string option \<Rightarrow> keystore \<Rightarrow> unit res \<times> string option \<times> keystore" where
  "initKeys C rnd file ks =
     (let ks = ks\<lparr>sodium_ready := True\<rparr> in
      case loadOrCreateSeed rnd file of
        (Inl e, file') \<Rightarrow> (Inl e, file', ks)
      | (Inr seed, file') \<Rightarrow>
          (Inr (), file',
           ks\<lparr>keyPair := Some \<lparr>kp_public = ed_public C seed, kp_private = ed_private C seed\<rparr>\<rparr>))"

definition getPublicKey :: "keystore \<Rightarrow> bytes res" where
  "getPublicKey ks =
     (case keyPair ks of None \<Rightarrow> Inl KeysNotInit | Some kp \<Rightarrow> Inr (kp_public kp))"

definition sign :: "crypto \<Rightarrow> keystore \<Rightarrow> bytes \<Rightarrow> bytes res" where
  "sign C ks data =
     (case keyPair ks of None \<Rightarrow> Inl KeysNotInit | Some kp \<Rightarrow> Inr (ed_sign C (kp_private kp) data))"

text \<open>A process whose \<open>initKeys\<close> has run on the seed \<open>s\<close>.\<close>

definition keystore_of :: "crypto \<Rightarrow> bytes \<Rightarrow> keystore" where
  "keystore_of C s =
     \<lparr>sodium_ready = True,
      keyPair = Some \<lparr>kp_public = ed_public C s, kp_private = ed_private C s\<rparr>\<rparr>"

lemma keystore_of_simps [simp]:
  "sodium_ready (keystore_of C s)"
  "getPublicKey (keystore_of C s) = Inr (ed_public C s)"
  "sign C (keystore_of C s) m = Inr (ed_sign C (ed_private C s) m)"
  by (simp_all add: keystore_of_def getPublicKey_def sign_def)

text \<open>Hexadecimal digits are no white space, so \<open>trim\<close> leaves the seed file alone.\<close>

lemma hex_digit_not_ws: "n < 16 \<Longrightarrow> \<not> is_ws (hex_of_nibble n)"
  by (drule all_nibbles) (auto simp: is_ws_def hex_of_nibble_def hex_digits_def)

lemma hex_of_bytes_no_ws: "\<forall>c \<in> set (hex_of_bytes bs). \<not> is_ws c"
proof (induction bs)
  case (Cons b bs)
  have "\<not> is_ws (hex_of_nibble (unat b div 16))" "\<not> is_ws (hex_of_nibble (unat b mod 16))"
    using unat_byte_less [of b] by (auto intro!: hex_digit_not_ws)
  with Cons.IH show ?case by simp
qed simp

lemma dropWhile_no_ws: "\<forall>c \<in> set s. \<not> is_ws c \<Longrightarrow> dropWhile is_ws s = s"
  by (cases s) simp_all

lemma trim_hex [simp]: "trim (hex_of_bytes bs) = hex_of_bytes bs"
  using hex_of_bytes_no_ws [of bs] by (simp add: trim_def dropWhile_no_ws)

lemma loadOrCreateSeed_reload:
  assumes "loadOrCreateSeed rnd file = (Inr seed, file')" and "length rnd = SEEDBYTES"
  shows "loadOrCreateSeed rnd' file' = (Inr seed, file')"
  using assms
  by (cases "file") (auto simp: loadOrCreateSeed_def Let_def split: if_splits)

section \<open>A concrete runtime for witnesses\<close>

text \<open>
  \<open>pad n\<close> cuts or fills a byte list to \<open>n\<close> bytes. The demonstration functions are deliberately
  simple: the signature carries a prefix of the message behind the key, the AEAD marks the
  plaintext with the key, and the shared secret is the bytewise sum.
\<close>

definition pad :: "nat \<Rightarrow> bytes \<Rightarrow> bytes" where
  "pad n b = take n (b @ replicate n 0)"

definition demo_crypto :: crypto where
  "demo_crypto = \<lparr>
     sha256 = (\<lambda>m. pad 32 (of_nat (length m) # m)),
     hmac_sha256 = (\<lambda>k m. pad 32 (take 4 (pad 4 k) @ m)),
     hkdf_sync = (\<lambda>ikm salt info. pad 32 (last (0 # info) # of_nat (length salt) # ikm)),
     ed_public = (\<lambda>s. pad 32 s),
     ed_private = (\<lambda>s. pad 32 s),
     ed_sign = (\<lambda>k m. pad 64 (pad 32 k @ m)),
     ed_verify = (\<lambda>sig m pk.
       if length sig \<noteq> 64 \<or> length pk \<noteq> 32 then Inl TypeError else Inr (sig = pad 64 (pk @ m))),
     x_public = (\<lambda>k. pad 32 k),
     x_scalarmult = (\<lambda>a b. Inr (map2 (+) (pad 32 a) (pad 32 b))),
     aead_encrypt = (\<lambda>p n k. pad 16 k @ p),
     aead_decrypt = (\<lambda>c n k. if take 16 c = pad 16 k then Inr (drop 16 c) else Inl DecryptFailed)\<rparr>"

lemma length_pad [simp]: "length (pad n b) = n"
  by (simp add: pad_def)

lemma pad_pad [simp]: "pad n (pad n b) = pad n b"
  by (simp add: pad_def)

lemma demo_sizes: "crypto_sizes demo_crypto"
  by (simp add: crypto_sizes_def demo_crypto_def)

lemma demo_sign: "sign_correct demo_crypto"
  by (simp add: sign_correct_def demo_crypto_def)

lemma demo_aead: "aead_correct demo_crypto"
  by (simp add: aead_correct_def demo_crypto_def)

lemma demo_size: "aead_size demo_crypto"
  by (simp add: aead_size_def demo_crypto_def)

lemma demo_dh: "dh_agrees demo_crypto"
  by (auto simp: dh_agrees_def demo_crypto_def intro!: nth_equalityI)

text \<open>The node's identity is stable: once \<open>initKeys\<close> has succeeded, whatever random bytes a
  later start would draw, running it again on the identity file it left gives the same key pair
  (hence the same nodeId) and leaves the file unchanged.\<close>

theorem identity_stable:
  assumes "initKeys C rnd file ks = (Inr (), file', ks')" and "length rnd = SEEDBYTES"
  shows "initKeys C rnd' file' fresh_keystore =
    (Inr (), file', \<lparr>sodium_ready = True, keyPair = keyPair ks'\<rparr>)"
proof -
  obtain seed where seed: "loadOrCreateSeed rnd file = (Inr seed, file')"
    and ks': "keyPair ks' =
      Some \<lparr>kp_public = ed_public C seed, kp_private = ed_private C seed\<rparr>"
    using assms(1) by (auto simp: initKeys_def Let_def split: prod.splits sum.splits)
  show ?thesis
    using loadOrCreateSeed_reload [OF seed assms(2)]
    by (simp add: initKeys_def fresh_keystore_def ks')
qed

theorem identity_stable_witness:
  "initKeys demo_crypto [] (Some (hex_of_bytes (replicate 32 7))) fresh_keystore =
     (Inr (), Some (hex_of_bytes (replicate 32 7)), keystore_of demo_crypto (replicate 32 7))"
  using identity_stable [of demo_crypto "replicate 32 7" None fresh_keystore
      "Some (hex_of_bytes (replicate 32 7))" "keystore_of demo_crypto (replicate 32 7)" "[]"]
  by (simp add: initKeys_def loadOrCreateSeed_def fresh_keystore_def keystore_of_def SEEDBYTES_def)

end
