(* ===== verification/Packet.thy ===== *)
theory Packet
  imports Framing Keys
begin

text \<open>
  \<open>src/protocol/packet.js\<close>: the authenticated binary packet

    \<open>| MAGIC(4) | type(1) | nodeId(32) | payloadLen(4) | payload | signature(64) | HMAC(32) |\<close>

  with its builder, parser, two verifications and the extraction of whole packets from a receive
  buffer. The \<open>Buffer.isBuffer\<close> tests of the code hold by typing here. The extraction satisfies the
  segmenter contract of the framing theory (interpretation \<open>packets\<close>).
\<close>

section \<open>Layout\<close>

definition HEADER_LEN :: nat where
  [config]: "HEADER_LEN = 41"

definition SIGNATURE_LEN :: nat where
  [config]: "SIGNATURE_LEN = 64"

definition HMAC_LEN :: nat where
  [config]: "HMAC_LEN = 32"

definition MIN_PACKET_LEN :: nat where
  [config]: "MIN_PACKET_LEN = HEADER_LEN + SIGNATURE_LEN + HMAC_LEN"

text \<open>The object \<open>parsePacket\<close> returns; \<open>magic\<close> is kept as bytes, its consumers never read it.\<close>

record packet =
  pk_magic :: bytes
  pk_type :: nat
  pk_nodeId :: bytes
  pk_payloadLen :: nat
  pk_payload :: bytes
  pk_signature :: bytes

section \<open>Operations\<close>

text \<open>\<open>Buffer.from([n])\<close> keeps the low eight bits of \<open>n\<close>.\<close>

definition byte_of :: "int \<Rightarrow> bytes" where
  "byte_of n = [word_of_int n]"

definition verifySignature :: "crypto \<Rightarrow> keystore \<Rightarrow> packet \<Rightarrow> bool res" where
  "verifySignature C ks p =
     (if \<not> sodium_ready ks then Inl SodiumNotReady
      else bind_res (writeUInt32BE (pk_payloadLen p)) (\<lambda>payloadLenBuf.
        let body = MAGIC @ byte_of (int (pk_type p)) @ pk_nodeId p @ payloadLenBuf @ pk_payload p
        in ed_verify C (pk_signature p) body (pk_nodeId p)))"

definition buildPacket ::
    "crypto \<Rightarrow> keystore \<Rightarrow> bytes option \<Rightarrow> int \<Rightarrow> bytes \<Rightarrow> bytes res" where
  "buildPacket C ks secret type payload =
     (if MAX_PAYLOAD_SIZE < length payload then Inl PayloadTooLarge
      else bind_res (getPublicKey ks) (\<lambda>nodeId.
        bind_res (writeUInt32BE (length payload)) (\<lambda>payloadLen.
          let header = MAGIC @ byte_of type @ nodeId @ payloadLen;
              body = header @ payload
          in bind_res (sign C ks body) (\<lambda>signature.
            let signedBody = body @ signature
            in bind_res (getHmacKey secret) (\<lambda>key.
              Inr (signedBody @ hmac_sha256 C key signedBody))))))"

definition parsePacket :: "bytes \<Rightarrow> packet res" where
  "parsePacket buffer =
     (if length buffer < MIN_PACKET_LEN then Inl PacketTooShort
      else bind_res (readUInt8 buffer 4) (\<lambda>type.
        bind_res (readUInt32BE buffer 37) (\<lambda>payloadLen.
          let totalLength = HEADER_LEN + payloadLen + SIGNATURE_LEN + HMAC_LEN;
              payloadStart = HEADER_LEN;
              payloadEnd = payloadStart + payloadLen;
              signatureStart = payloadEnd;
              signatureEnd = signatureStart + SIGNATURE_LEN
          in if MAX_PAYLOAD_SIZE < payloadLen \<or> length buffer < totalLength
             then Inl PayloadLenMismatch
             else Inr \<lparr>pk_magic = subarray buffer 0 4, pk_type = type,
                       pk_nodeId = subarray buffer 5 37, pk_payloadLen = payloadLen,
                       pk_payload = subarray buffer payloadStart payloadEnd,
                       pk_signature = subarray buffer signatureStart signatureEnd\<rparr>)))"

definition verifyPacket :: "crypto \<Rightarrow> bytes option \<Rightarrow> bytes \<Rightarrow> bool res" where
  "verifyPacket C secret buffer =
     (if length buffer < MIN_PACKET_LEN then Inr False
      else if subarray buffer 0 4 \<noteq> MAGIC then Inr False
      else
        let body = subarray buffer 0 (length buffer - HMAC_LEN);
            receivedHmac = drop (length buffer - HMAC_LEN) buffer
        in bind_res (getHmacKey secret) (\<lambda>key.
          let computedHmac = hmac_sha256 C key body
          in if length receivedHmac \<noteq> length computedHmac then Inl RangeError
             else Inr (receivedHmac = computedHmac)))"

text \<open>The \<open>while\<close> loop of \<open>extractPackets\<close>, over the offset into the buffer.\<close>

function extract_loop :: "bytes \<Rightarrow> nat \<Rightarrow> bytes list \<Rightarrow> (bytes list \<times> bytes) res" where
  "extract_loop buffer offset packets =
     (if offset + HEADER_LEN \<le> length buffer then
        if subarray buffer offset (offset + 4) \<noteq> MAGIC then Inl InvalidMagic
        else (case readUInt32BE buffer (offset + 37) of
           Inl e \<Rightarrow> Inl e
         | Inr payloadLen \<Rightarrow>
             if MAX_PAYLOAD_SIZE < payloadLen then Inl PayloadTooLarge
             else let totalLength = HEADER_LEN + payloadLen + SIGNATURE_LEN + HMAC_LEN in
               if MAX_PACKET_SIZE < totalLength then Inl PacketTooLarge
               else if length buffer < offset + totalLength then Inr (packets, drop offset buffer)
               else extract_loop buffer (offset + totalLength)
                      (packets @ [subarray buffer offset (offset + totalLength)]))
      else Inr (packets, drop offset buffer))"
  by pat_completeness auto
termination
  by (relation "measure (\<lambda>(buffer, offset, packets). Suc (length buffer) - offset)")
    (auto simp: HEADER_LEN_def)

declare extract_loop.simps [simp del]

definition extractPackets :: "bytes \<Rightarrow> (bytes list \<times> bytes) res" where
  "extractPackets buffer = extract_loop buffer 0 []"

section \<open>Extraction satisfies the segmenter contract\<close>

definition packet_next :: "bytes \<Rightarrow> seg" where
  "packet_next b =
     (if length b < HEADER_LEN then Wait
      else if take 4 b \<noteq> MAGIC then Fail InvalidMagic
      else let payloadLen = be_val (take 4 (drop 37 b));
               totalLength = HEADER_LEN + payloadLen + SIGNATURE_LEN + HMAC_LEN in
        if MAX_PAYLOAD_SIZE < payloadLen then Fail PayloadTooLarge
        else if MAX_PACKET_SIZE < totalLength then Fail PacketTooLarge
        else if length b < totalLength then Wait
        else Emit (take totalLength b) (drop totalLength b))"

definition packet_cut :: cutter where
  "packet_cut acc b = extract_loop b 0 acc"

text \<open>The loop only looks at the bytes from its offset on.\<close>

lemma extract_loop_step:
  assumes "offset + HEADER_LEN \<le> length buffer"
    and "readUInt32BE buffer (offset + 37) = Inr n"
    and "T = HEADER_LEN + n + SIGNATURE_LEN + HMAC_LEN"
  shows "extract_loop buffer offset acc =
    (if subarray buffer offset (offset + 4) \<noteq> MAGIC then Inl InvalidMagic
     else if MAX_PAYLOAD_SIZE < n then Inl PayloadTooLarge
     else if MAX_PACKET_SIZE < T then Inl PacketTooLarge
     else if length buffer < offset + T then Inr (acc, drop offset buffer)
     else extract_loop buffer (offset + T) (acc @ [subarray buffer offset (offset + T)]))"
  by (subst extract_loop.simps) (simp only: assms Let_def sum.case if_True)

lemma extract_loop_drop:
  "k \<le> length buffer \<Longrightarrow> extract_loop buffer (k + offset) acc = extract_loop (drop k buffer) offset acc"
proof (induction "drop k buffer" offset acc rule: extract_loop.induct)
  case (1 offset acc)
  have sub: "subarray buffer (k + i) (k + j) = subarray (drop k buffer) i j" for i j
    by (simp add: subarray_def add.commute)
  show ?case
  proof (cases "offset + HEADER_LEN \<le> length (drop k buffer)")
    case False
    then have "\<not> k + offset + HEADER_LEN \<le> length buffer" using "1.prems" by auto
    with False show ?thesis
      by (simp only: extract_loop.simps [of buffer "k + offset"]
          extract_loop.simps [of "drop k buffer" offset] if_False) (simp add: add.commute)
  next
    case True
    define n where "n = be_val (subarray (drop k buffer) (offset + 37) (offset + 37 + 4))"
    define T where "T = HEADER_LEN + n + SIGNATURE_LEN + HMAC_LEN"
    have rd: "readUInt32BE (drop k buffer) (offset + 37) = Inr n"
      using True by (simp add: readUInt32BE_def HEADER_LEN_def n_def)
    have "readUInt32BE buffer (k + offset + 37) = readUInt32BE (drop k buffer) (offset + 37)"
      using True "1.prems" sub [of "offset + 37" "offset + 37 + 4"]
      by (simp add: readUInt32BE_def HEADER_LEN_def add.assoc)
    with rd have rd': "readUInt32BE buffer (k + offset + 37) = Inr n" by simp
    have guard: "k + offset + HEADER_LEN \<le> length buffer" using True "1.prems" by simp
    have short: "length buffer < k + (offset + T) \<longleftrightarrow> length (drop k buffer) < offset + T"
      using "1.prems" by auto
    have IH: "extract_loop buffer (k + (offset + T)) (acc @ [subarray (drop k buffer) offset (offset + T)])
        = extract_loop (drop k buffer) (offset + T) (acc @ [subarray (drop k buffer) offset (offset + T)])"
      if "subarray (drop k buffer) offset (offset + 4) = MAGIC" "\<not> MAX_PAYLOAD_SIZE < n"
        "\<not> MAX_PACKET_SIZE < T" "\<not> length (drop k buffer) < offset + T"
      using "1.hyps" [OF True _ rd _ T_def] that "1.prems" by simp
    show ?thesis
      using IH sub [of offset "offset + 4"] sub [of offset "offset + T"]
      by (simp only: extract_loop_step [OF guard rd' T_def] extract_loop_step [OF True rd T_def]
          short add.assoc)
        (simp add: add.commute)
  qed
qed

lemma packet_read_len:
  "HEADER_LEN \<le> length b \<Longrightarrow> readUInt32BE b 37 = Inr (be_val (take 4 (drop 37 b)))"
  by (simp add: readUInt32BE_def subarray_def HEADER_LEN_def)

lemma packet_cut_Wait: "packet_next b = Wait \<Longrightarrow> packet_cut acc b = Inr (acc, b)"
  by (auto simp: packet_next_def packet_cut_def extract_loop.simps [of b 0] Let_def packet_read_len
      split: if_splits)

lemma packet_cut_Fail: "packet_next b = Fail e \<Longrightarrow> packet_cut acc b = Inl e"
  by (auto simp: packet_next_def packet_cut_def extract_loop.simps [of b 0] Let_def packet_read_len
      split: if_splits)

lemma packet_cut_Emit:
  assumes "packet_next b = Emit x r"
  shows "packet_cut acc b = packet_cut (acc @ [x]) r"
proof -
  let ?t = "HEADER_LEN + be_val (take 4 (drop 37 b)) + SIGNATURE_LEN + HMAC_LEN"
  have t: "?t \<le> length b" and x: "x = take ?t b" "r = drop ?t b"
    using assms by (auto simp: packet_next_def Let_def split: if_splits)
  have "packet_cut acc b = extract_loop b ?t (acc @ [x])"
    using assms x
    by (auto simp: packet_next_def packet_cut_def extract_loop.simps [of b 0] Let_def
        packet_read_len split: if_splits)
  also have "\<dots> = packet_cut (acc @ [x]) r"
    using extract_loop_drop [OF t, of 0] x by (simp add: packet_cut_def)
  finally show ?thesis .
qed

lemma packet_next_shorter: "packet_next b = Emit x r \<Longrightarrow> length r < length b"
  by (auto simp: packet_next_def Let_def HEADER_LEN_def split: if_splits)

lemma packet_next_emit_append: "packet_next b = Emit x r \<Longrightarrow> packet_next (b @ c) = Emit x (r @ c)"
  by (auto simp: packet_next_def Let_def HEADER_LEN_def split: if_splits)

lemma packet_next_fail_append: "packet_next b = Fail e \<Longrightarrow> packet_next (b @ c) = Fail e"
  by (auto simp: packet_next_def Let_def HEADER_LEN_def split: if_splits)

text \<open>A byte list that is exactly one well-formed packet.\<close>

definition packet_shape :: "bytes \<Rightarrow> bool" where
  "packet_shape p \<longleftrightarrow> packet_next p = Emit p []"

interpretation packets: framed_stream packet_next packet_cut "\<lambda>p. p" "\<lambda>p. p" packet_shape
proof unfold_locales
  show "packet_next [] = Wait" by (simp add: packet_next_def HEADER_LEN_def)
qed (fact packet_cut_Wait packet_cut_Fail packet_cut_Emit packet_next_shorter
       packet_next_emit_append packet_next_fail_append
     | simp add: packet_shape_def)+

section \<open>Built packets\<close>

text \<open>What \<open>buildPacket\<close> returns, field by field.\<close>

lemma buildPacket_eq:
  "buildPacket C ks secret type payload = Inr w \<longleftrightarrow>
     (\<exists>kp key. keyPair ks = Some kp \<and> secret = Some key \<and> key \<noteq> [] \<and>
        length payload \<le> MAX_PAYLOAD_SIZE \<and>
        (let body = MAGIC @ byte_of type @ kp_public kp @ be_bytes 4 (length payload) @ payload;
             signed = body @ ed_sign C (kp_private kp) body
         in w = signed @ hmac_sha256 C key signed))"
  by (auto simp: buildPacket_def bind_res_eq_Inr getPublicKey_def sign_def getHmacKey_Inr
      writeUInt32BE_def MAX_PAYLOAD_SIZE_def Let_def split: option.splits)

lemma length_byte_of [simp]: "length (byte_of n) = 1"
  by (simp add: byte_of_def)

text \<open>The slices of a byte list laid out as a packet.\<close>

lemma packet_slices:
  assumes "w = MAGIC @ t @ nid @ be_bytes 4 n @ payload @ sig @ mac"
    and "length t = 1" "length nid = 32" "length payload = n" "length sig = 64" "length mac = 32"
    and "n \<le> MAX_PAYLOAD_SIZE"
  shows "length w = HEADER_LEN + n + SIGNATURE_LEN + HMAC_LEN"
    and "take 4 w = MAGIC" and "w ! 4 = hd t" and "subarray w 5 37 = nid"
    and "be_val (take 4 (drop 37 w)) = n" and "subarray w 41 (41 + n) = payload"
    and "subarray w (41 + n) (41 + n + 64) = sig"
    and "take (length w - 32) w = MAGIC @ t @ nid @ be_bytes 4 n @ payload @ sig"
    and "drop (length w - 32) w = mac"
proof -
  show len: "length w = HEADER_LEN + n + SIGNATURE_LEN + HMAC_LEN"
    using assms by (simp add: config)
  show "take 4 w = MAGIC" using assms by simp
  show "w ! 4 = hd t" using assms(1,2) by (cases t) (simp_all add: nth_append)
  show "subarray w 5 37 = nid" using assms by (simp add: subarray_def)
  show "be_val (take 4 (drop 37 w)) = n"
    using assms by (simp add: be_val_be_bytes MAX_PAYLOAD_SIZE_def)
  show "subarray w 41 (41 + n) = payload" using assms by (simp add: subarray_def)
  show "subarray w (41 + n) (41 + n + 64) = sig" using assms by (simp add: subarray_def)
  show "take (length w - 32) w = MAGIC @ t @ nid @ be_bytes 4 n @ payload @ sig"
    using assms by simp
  show "drop (length w - 32) w = mac" using assms by simp
qed

lemma packet_next_whole:
  assumes "take 4 w = MAGIC" and "be_val (take 4 (drop 37 w)) = n" and "n \<le> MAX_PAYLOAD_SIZE"
    and "length w = HEADER_LEN + n + SIGNATURE_LEN + HMAC_LEN"
  shows "packet_next w = Emit w []"
  using assms by (simp add: packet_next_def config)

lemma built_packet:
  assumes "crypto_sizes C" and "length s = 32"
    and "buildPacket C (keystore_of C s) (Some key) type payload = Inr w"
  obtains sig mac where
    "w = MAGIC @ byte_of type @ ed_public C s @ be_bytes 4 (length payload) @ payload @ sig @ mac"
    "sig = ed_sign C (ed_private C s)
       (MAGIC @ byte_of type @ ed_public C s @ be_bytes 4 (length payload) @ payload)"
    "mac = hmac_sha256 C key
       (MAGIC @ byte_of type @ ed_public C s @ be_bytes 4 (length payload) @ payload @ sig)"
    "length sig = 64" "length mac = 32" "length (ed_public C s) = 32"
    "length payload \<le> MAX_PAYLOAD_SIZE" "key \<noteq> []"
  using assms crypto_sizesD [OF assms(1)]
  by (auto simp: buildPacket_eq Let_def keystore_of_def)

lemma built_packet_shape:
  assumes "crypto_sizes C" and "length s = 32"
    and "buildPacket C (keystore_of C s) (Some key) type payload = Inr w"
  shows "packet_shape w"
proof -
  obtain sig mac where
    w: "w = MAGIC @ byte_of type @ ed_public C s @ be_bytes 4 (length payload) @ payload @ sig @ mac"
    and l: "length sig = 64" "length mac = 32" "length (ed_public C s) = 32"
      "length payload \<le> MAX_PAYLOAD_SIZE"
    using assms by (rule built_packet) blast
  note sl = packet_slices [OF w length_byte_of l(3) refl l(1,2,4)]
  show ?thesis
    unfolding packet_shape_def using sl(2,5) l(4) sl(1) by (rule packet_next_whole)
qed

lemma built_packet_accepted:
  assumes "crypto_sizes C" and "sign_correct C" and "length s = 32"
    and w: "buildPacket C (keystore_of C s) (Some key) type payload = Inr w" and "sodium_ready ks"
  obtains p where "verifyPacket C (Some key) w = Inr True" "parsePacket w = Inr p"
    "pk_type p = nat (type mod 256)" "pk_nodeId p = ed_public C s" "pk_payload p = payload"
    "verifySignature C ks p = Inr True"
proof -
  let ?body = "MAGIC @ byte_of type @ ed_public C s @ be_bytes 4 (length payload) @ payload"
  obtain sig mac where
    eq: "w = MAGIC @ byte_of type @ ed_public C s @ be_bytes 4 (length payload) @ payload @ sig @ mac"
    and sig: "sig = ed_sign C (ed_private C s) ?body"
    and mac: "mac = hmac_sha256 C key
       (MAGIC @ byte_of type @ ed_public C s @ be_bytes 4 (length payload) @ payload @ sig)"
    and l: "length sig = 64" "length mac = 32" "length (ed_public C s) = 32"
      "length payload \<le> MAX_PAYLOAD_SIZE" and key: "key \<noteq> []"
    using assms(1,3) w by (rule built_packet) blast
  note sl = packet_slices [OF eq length_byte_of l(3) refl l(1,2,4)]
  have long: "\<not> length w < MIN_PACKET_LEN" "41 \<le> length w" "4 < length w"
    using sl(1) by (simp_all add: config)
  have hmac: "verifyPacket C (Some key) w = Inr True"
    using long sl(2,8,9) mac l(2) key
    by (simp add: verifyPacket_def getHmacKey_def HMAC_LEN_def Let_def)
  have ty: "unat (word_of_int type :: byte) = nat (type mod 256)"
    by (simp add: unat_eq_nat_uint uint_word_of_int)
  define p where "p = \<lparr>pk_magic = MAGIC, pk_type = nat (type mod 256), pk_nodeId = ed_public C s,
    pk_payloadLen = length payload, pk_payload = payload, pk_signature = sig\<rparr>"
  have parse: "parsePacket w = Inr p"
    using long sl l(4) ty
    by (simp add: parsePacket_def readUInt8_def readUInt32BE_def subarray_def [of w 37]
        p_def Let_def config byte_of_def)
  have "byte_of (int (nat (type mod 256))) = byte_of type"
    by (simp add: byte_of_def word_of_int_eq_iff take_bit_eq_mod)
  then have "verifySignature C ks p = Inr True"
    using assms(5) l(4) sign_correctD [OF assms(2,3), of ?body] sig
    by (simp add: verifySignature_def p_def writeUInt32BE_def MAX_PAYLOAD_SIZE_def)
  with hmac parse show ?thesis by (intro that [of p]) (simp_all add: p_def)
qed

lemma extract_packet_cut: "packet_cut [] = extractPackets"
  by (simp add: fun_eq_iff packet_cut_def extractPackets_def)

section \<open>Properties\<close>

text \<open>A packet that a node builds is accepted field by field by every node that shares the HMAC
  secret: the HMAC verifies, parsing returns the type (modulo 256), the sender's public key and the
  payload that went in, and the Ed25519 signature of the parsed packet verifies.\<close>

theorem packet_roundtrip:
  assumes "crypto_sizes C" and "sign_correct C" and "length s = 32"
    and "key \<noteq> []" and "length payload \<le> MAX_PAYLOAD_SIZE" and "sodium_ready ks"
  shows "\<exists>w p. buildPacket C (keystore_of C s) (Some key) type payload = Inr w \<and>
    verifyPacket C (Some key) w = Inr True \<and> parsePacket w = Inr p \<and>
    pk_type p = nat (type mod 256) \<and> pk_nodeId p = ed_public C s \<and> pk_payload p = payload \<and>
    verifySignature C ks p = Inr True"
proof -
  obtain w where w: "buildPacket C (keystore_of C s) (Some key) type payload = Inr w"
    using assms(4,5) buildPacket_eq [of C "keystore_of C s" "Some key" type payload]
    by (auto simp: keystore_of_def Let_def)
  with built_packet_accepted [OF assms(1-3) w assms(6)] show ?thesis by metis
qed

theorem packet_roundtrip_witness:
  "\<exists>w p. buildPacket demo_crypto (keystore_of demo_crypto (replicate 32 5)) (Some [1]) 258 [9, 9] = Inr w \<and>
    verifyPacket demo_crypto (Some [1]) w = Inr True \<and> parsePacket w = Inr p \<and>
    pk_type p = 2 \<and> pk_nodeId p = ed_public demo_crypto (replicate 32 5) \<and> pk_payload p = [9, 9] \<and>
    verifySignature demo_crypto (keystore_of demo_crypto (replicate 32 6)) p = Inr True"
  using packet_roundtrip [OF demo_sizes demo_sign, of "replicate 32 5" "[1]" "[9, 9]"
      "keystore_of demo_crypto (replicate 32 6)" 258]
  by (simp add: MAX_PAYLOAD_SIZE_def)

text \<open>The packets of a stream survive TCP: however the concatenation of any list of built packets
  is cut into chunks, extracting from the accumulated buffer chunk after chunk returns exactly those
  packets, in order, with nothing left over and no error.\<close>

theorem packet_stream:
  assumes "crypto_sizes C" and "length s = 32"
    and "map (\<lambda>(type, payload). buildPacket C (keystore_of C s) (Some key) type payload) ps = map Inr ws"
    and "concat cs = concat ws"
  shows "feed extractPackets [] cs = Inr (ws, [])"
proof -
  have "packet_shape w" if "w \<in> set ws" for w
  proof -
    have "Inr w \<in> set (map (\<lambda>(type, payload).
        buildPacket C (keystore_of C s) (Some key) type payload) ps)"
      using that assms(3) by simp
    then obtain type payload where
      "buildPacket C (keystore_of C s) (Some key) type payload = Inr w" by auto
    then show ?thesis by (rule built_packet_shape [OF assms(1,2)])
  qed
  then show ?thesis
    using packets.stream_roundtrip [of ws cs] assms(4) by (simp add: extract_packet_cut)
qed

theorem packet_stream_witness:
  "\<exists>w. feed extractPackets [] [take 60 w, drop 60 w @ take 3 w, drop 3 w] = Inr ([w, w], [])"
proof -
  let ?C = demo_crypto and ?s = "replicate 32 5 :: bytes"
  obtain w where w: "buildPacket ?C (keystore_of ?C ?s) (Some [1]) 2 [9] = Inr w"
    using buildPacket_eq [of ?C "keystore_of ?C ?s" "Some [1]" 2 "[9]"]
    by (auto simp: keystore_of_def Let_def MAX_PAYLOAD_SIZE_def)
  have "feed extractPackets [] [take 60 w, drop 60 w @ take 3 w, drop 3 w] = Inr ([w, w], [])"
    by (rule packet_stream [OF demo_sizes, of ?s "[1]" "[(2, [9]), (2, [9])]"]) (simp_all add: w)
  then show ?thesis by blast
qed

text \<open>The bytes cut out and the bytes left over are the buffer.\<close>

lemma packet_next_take: "packet_next b = Emit x r \<Longrightarrow> b = x @ r"
  by (auto simp: packet_next_def Let_def split: if_splits)

lemma packet_cut_lossless: "packet_cut acc b = Inr (xs, r) \<Longrightarrow> concat xs @ r = concat acc @ b"
proof (induction "length b" arbitrary: acc b rule: less_induct)
  case less
  show ?case
  proof (cases "packet_next b")
    case (Emit y s)
    then have "packet_cut (acc @ [y]) s = Inr (xs, r)"
      using less.prems by (simp add: packet_cut_Emit)
    then have "concat xs @ r = concat (acc @ [y]) @ s"
      using less.hyps packet_next_shorter [OF Emit] by blast
    then show ?thesis using packet_next_take [OF Emit] by simp
  qed (use less.prems in \<open>simp_all add: packet_cut_Wait packet_cut_Fail\<close>)
qed

lemma packet_next_emits:
  "packet_next b = Emit x r \<Longrightarrow>
     take 4 x = MAGIC \<and> MIN_PACKET_LEN \<le> length x \<and> length x \<le> MIN_PACKET_LEN + MAX_PAYLOAD_SIZE \<and>
     length x = MIN_PACKET_LEN + be_val (take 4 (drop 37 x))"
proof -
  assume e: "packet_next b = Emit x r"
  define n where "n = be_val (take 4 (drop 37 b))"
  have n: "n \<le> MAX_PAYLOAD_SIZE" "take 4 b = MAGIC" "137 + n \<le> length b" "x = take (137 + n) b"
    using e by (auto simp: packet_next_def Let_def n_def HEADER_LEN_def SIGNATURE_LEN_def
        HMAC_LEN_def split: if_splits)
  have "take 4 (drop 37 x) = take 4 (drop 37 b)" by (simp add: n(4) drop_take)
  then have "be_val (take 4 (drop 37 x)) = n" by (simp add: n_def)
  with n show ?thesis
    by (simp add: MIN_PACKET_LEN_def HEADER_LEN_def SIGNATURE_LEN_def HMAC_LEN_def)
qed

lemma packet_next_Wait_bound: "packet_next b = Wait \<Longrightarrow> length b < MIN_PACKET_LEN + MAX_PAYLOAD_SIZE"
  by (auto simp: packet_next_def Let_def config split: if_splits)

lemma packet_next_no_PacketTooLarge: "packet_next b \<noteq> Fail PacketTooLarge"
  by (auto simp: packet_next_def Let_def config)

lemma packet_cut_no_PacketTooLarge: "packet_cut acc b \<noteq> Inl PacketTooLarge"
proof (induction "length b" arbitrary: acc b rule: less_induct)
  case less
  show ?case
  proof (cases "packet_next b")
    case (Fail e)
    then show ?thesis using packet_next_no_PacketTooLarge [of b] by (auto simp: packet_cut_Fail)
  next
    case (Emit y s)
    then show ?thesis using less.hyps packet_next_shorter [OF Emit] by (simp add: packet_cut_Emit)
  qed (simp add: packet_cut_Wait)
qed

text \<open>Extraction loses and invents nothing and is bounded: when it succeeds, the packets followed
  by the remainder are exactly the buffer, each packet starts with the magic and has the length its
  header announces (at most 1 MiB of payload), and less than one maximal packet remains. The separate
  check of the packet size against \<open>MAX_PACKET_SIZE\<close> can never fire.\<close>

theorem extract_lossless_bounded:
  "extractPackets b \<noteq> Inl PacketTooLarge \<and>
   (\<forall>xs r. extractPackets b = Inr (xs, r) \<longrightarrow>
      concat xs @ r = b \<and> length r < MIN_PACKET_LEN + MAX_PAYLOAD_SIZE \<and>
      (\<forall>x \<in> set xs. take 4 x = MAGIC \<and> length x = MIN_PACKET_LEN + be_val (take 4 (drop 37 x)) \<and>
         length x \<le> MIN_PACKET_LEN + MAX_PAYLOAD_SIZE))"
proof (intro conjI allI impI)
  show "extractPackets b \<noteq> Inl PacketTooLarge"
    using packet_cut_no_PacketTooLarge [of "[]" b] by (simp add: extract_packet_cut)
next
  fix xs r assume "extractPackets b = Inr (xs, r)"
  then have ok: "packet_cut [] b = Inr (xs, r)" by (simp add: extract_packet_cut)
  show "concat xs @ r = b" using packet_cut_lossless [OF ok] by simp
  show "length r < MIN_PACKET_LEN + MAX_PAYLOAD_SIZE"
    using packets.cut_residue [OF ok] by (rule packet_next_Wait_bound)
  show "\<forall>x \<in> set xs. take 4 x = MAGIC \<and> length x = MIN_PACKET_LEN + be_val (take 4 (drop 37 x)) \<and>
      length x \<le> MIN_PACKET_LEN + MAX_PAYLOAD_SIZE"
    using packets.cut_emits [OF ok] packet_next_emits by fastforce
qed

theorem extract_lossless_bounded_witness:
  "extractPackets (MAGIC @ replicate 5 0) = Inr ([], MAGIC @ replicate 5 0) \<and>
   length (MAGIC @ replicate 5 (0 :: byte)) < MIN_PACKET_LEN + MAX_PAYLOAD_SIZE"
proof -
  have "extractPackets (MAGIC @ replicate 5 0) = Inr ([], MAGIC @ replicate 5 0)"
    by (simp add: extractPackets_def extract_loop.simps HEADER_LEN_def)
  then show ?thesis using extract_lossless_bounded [of "MAGIC @ replicate 5 0"] by blast
qed

text \<open>What the two checks cover: \<open>verifyPacket\<close> accepts exactly the buffers that start with the
  magic and end in the HMAC, under the configured non-empty secret, of all bytes before it; without a
  secret it accepts nothing. And for a buffer with the magic that parses, \<open>verifySignature\<close> checks the
  signature over the received header and payload bytes themselves, not over a re-encoding that could
  differ from them.\<close>

theorem packet_checks_cover:
  "(verifyPacket C secret b = Inr True \<longleftrightarrow>
      MIN_PACKET_LEN \<le> length b \<and> take 4 b = MAGIC \<and>
      (\<exists>key. secret = Some key \<and> key \<noteq> [] \<and>
         drop (length b - 32) b = hmac_sha256 C key (take (length b - 32) b) \<and>
         length (hmac_sha256 C key (take (length b - 32) b)) = 32)) \<and>
   (\<forall>p. parsePacket b = Inr p \<and> take 4 b = MAGIC \<and> sodium_ready ks \<longrightarrow>
      verifySignature C ks p =
        ed_verify C (pk_signature p) (take (HEADER_LEN + pk_payloadLen p) b) (subarray b 5 37))"
proof (intro conjI allI impI)
  show "verifyPacket C secret b = Inr True \<longleftrightarrow>
      MIN_PACKET_LEN \<le> length b \<and> take 4 b = MAGIC \<and>
      (\<exists>key. secret = Some key \<and> key \<noteq> [] \<and>
         drop (length b - 32) b = hmac_sha256 C key (take (length b - 32) b) \<and>
         length (hmac_sha256 C key (take (length b - 32) b)) = 32)"
    by (auto simp: verifyPacket_def getHmacKey_def config Let_def split: option.splits)
next
  fix p assume h: "parsePacket b = Inr p \<and> take 4 b = MAGIC \<and> sodium_ready ks"
  then have len: "MIN_PACKET_LEN \<le> length b" by (auto simp: parsePacket_def split: if_splits)
  define n where "n = be_val (subarray b 37 41)"
  have ty: "readUInt8 b 4 = Inr (unat (b ! 4))" and rd: "readUInt32BE b 37 = Inr n"
    using len by (simp_all add: readUInt8_def readUInt32BE_def n_def config)
  have p: "pk_type p = unat (b ! 4)" "pk_nodeId p = subarray b 5 37" "pk_payloadLen p = n"
    "pk_payload p = subarray b 41 (41 + n)" and n: "n \<le> MAX_PAYLOAD_SIZE"
    using h len ty rd by (auto simp: parsePacket_def HEADER_LEN_def Let_def split: if_splits)
  have "length (subarray b 37 41) = 4" using len by (simp add: config)
  then have lenbuf: "be_bytes 4 n = subarray b 37 41"
    using be_bytes_be_val [of "subarray b 37 41"] by (simp add: n_def)
  have "take (41 + n) b = take 4 b @ subarray b 4 5 @ subarray b 5 37 @ subarray b 37 41 @ subarray b 41 (41 + n)"
    using take_add [of 41 n b] take_add [of 37 4 b] take_add [of 5 32 b] take_add [of 4 1 b]
    by (simp add: subarray_def)
  moreover have "subarray b 4 5 = byte_of (int (pk_type p))"
    using len by (simp add: p(1) byte_of_def subarray_def take_Suc hd_drop_conv_nth config)
  ultimately show "verifySignature C ks p =
      ed_verify C (pk_signature p) (take (HEADER_LEN + pk_payloadLen p) b) (subarray b 5 37)"
    using h n lenbuf
    by (simp add: verifySignature_def writeUInt32BE_def p(2,3,4) HEADER_LEN_def MAX_PAYLOAD_SIZE_def)
qed

theorem packet_checks_cover_witness:
  "verifyPacket demo_crypto None (MAGIC @ replicate 133 0) \<noteq> Inr True \<and>
   (\<exists>p. parsePacket (MAGIC @ replicate 133 0) = Inr p \<and>
      verifySignature demo_crypto (keystore_of demo_crypto []) p =
        ed_verify demo_crypto (replicate 64 0) (MAGIC @ replicate 37 0) (replicate 32 0))"
proof -
  let ?b = "MAGIC @ replicate 133 0 :: bytes"
  let ?p = "\<lparr>pk_magic = MAGIC, pk_type = 0, pk_nodeId = replicate 32 0, pk_payloadLen = 0,
    pk_payload = [], pk_signature = replicate 64 0\<rparr>"
  have zeros: "be_val (replicate k 0) = 0" for k
    by (induction k) (simp_all add: be_val_snoc flip: replicate_append_same)
  have parse: "parsePacket ?b = Inr ?p"
    by (simp add: parsePacket_def readUInt8_def readUInt32BE_def subarray_def config nth_append zeros)
  show ?thesis
    using packet_checks_cover [of demo_crypto None ?b "keystore_of demo_crypto []"] parse
    by (simp add: HEADER_LEN_def subarray_def)
qed

end
