(* ===== verification/JsMap.thy ===== *)
theory JsMap
  imports Prelude
begin

text \<open>
  The insertion-ordered \<open>Map\<close> (and \<open>Set\<close>) of JavaScript, as an association list with distinct
  keys: \<open>set\<close> on a present key keeps its position, \<open>set\<close> on an absent key appends, \<open>delete\<close> keeps
  the order of the rest, and iteration follows the list. The order matters to the program: the
  replay cache evicts the first key and stops its purge at the first fresh entry. The locale
  \<open>ordered_map\<close> states the contract and proves what the client components use of it; the
  interpretation \<open>jsm\<close> discharges it for the association lists.
\<close>

section \<open>The operations\<close>

type_synonym ('k, 'v) jsmap = "('k \<times> 'v) list"

definition jm_get :: "('k, 'v) jsmap \<Rightarrow> 'k \<Rightarrow> 'v option" where
  "jm_get m k = map_of m k"

definition jm_has :: "('k, 'v) jsmap \<Rightarrow> 'k \<Rightarrow> bool" where
  "jm_has m k = (jm_get m k \<noteq> None)"

primrec jm_set :: "('k, 'v) jsmap \<Rightarrow> 'k \<Rightarrow> 'v \<Rightarrow> ('k, 'v) jsmap" where
  "jm_set [] k v = [(k, v)]"
| "jm_set (p # m) k v = (if fst p = k then (k, v) # m else p # jm_set m k v)"

definition jm_delete :: "('k, 'v) jsmap \<Rightarrow> 'k \<Rightarrow> ('k, 'v) jsmap" where
  "jm_delete m k = filter (\<lambda>p. fst p \<noteq> k) m"

definition jm_keys :: "('k, 'v) jsmap \<Rightarrow> 'k list" where
  "jm_keys m = map fst m"

definition jm_size :: "('k, 'v) jsmap \<Rightarrow> nat" where
  "jm_size m = length m"

definition jm_ok :: "('k, 'v) jsmap \<Rightarrow> bool" where
  "jm_ok m = distinct (jm_keys m)"

text \<open>A loop \<open>for (const [k, v] of m) if (p) m.delete(k)\<close> over the whole map.\<close>

definition jm_delete_if :: "('k \<Rightarrow> 'v \<Rightarrow> bool) \<Rightarrow> ('k, 'v) jsmap \<Rightarrow> ('k, 'v) jsmap" where
  "jm_delete_if p m = filter (\<lambda>kv. \<not> p (fst kv) (snd kv)) m"

section \<open>The contract\<close>

locale ordered_map =
  fixes get :: "'m \<Rightarrow> 'k \<Rightarrow> 'v option"
    and put :: "'m \<Rightarrow> 'k \<Rightarrow> 'v \<Rightarrow> 'm"
    and del :: "'m \<Rightarrow> 'k \<Rightarrow> 'm"
    and keys :: "'m \<Rightarrow> 'k list"
    and ok :: "'m \<Rightarrow> bool"
  assumes get_put: "get (put m k v) j = (if j = k then Some v else get m j)"
    and get_del: "get (del m k) j = (if j = k then None else get m j)"
    and get_keys: "get m k \<noteq> None \<longleftrightarrow> k \<in> set (keys m)"
    and keys_put: "keys (put m k v) = (if k \<in> set (keys m) then keys m else keys m @ [k])"
    and keys_del: "keys (del m k) = filter (\<lambda>j. j \<noteq> k) (keys m)"
    and ok_distinct: "ok m = distinct (keys m)"
begin

lemma ok_put: "ok m \<Longrightarrow> ok (put m k v)"
  by (simp add: ok_distinct keys_put)

lemma ok_del: "ok m \<Longrightarrow> ok (del m k)"
  by (simp add: ok_distinct keys_del)

lemma keys_put_fresh: "get m k = None \<Longrightarrow> keys (put m k v) = keys m @ [k]"
  using get_keys [of m k] by (simp add: keys_put)

lemma keys_put_present: "get m k \<noteq> None \<Longrightarrow> keys (put m k v) = keys m"
  using get_keys [of m k] by (simp add: keys_put)

lemma size_put: "length (keys (put m k v)) \<le> Suc (length (keys m))"
  by (simp add: keys_put)

lemma keys_del_hd:
  assumes "ok m" and "keys m = k # ks"
  shows "keys (del m k) = ks"
proof -
  have "k \<notin> set ks" using assms by (simp add: ok_distinct)
  then have "filter (\<lambda>j. j \<noteq> k) ks = ks" by (auto intro: filter_True)
  with assms(2) show ?thesis by (simp add: keys_del)
qed

lemma del_absent_keys: "get m k = None \<Longrightarrow> keys (del m k) = keys m"
  using get_keys [of m k] by (auto simp: keys_del intro: filter_True)

end

section \<open>The association lists satisfy it\<close>

lemma jm_keys_set:
  "jm_keys (jm_set m k v) = (if k \<in> set (jm_keys m) then jm_keys m else jm_keys m @ [k])"
  by (induction m) (auto simp: jm_keys_def)

lemma jm_get_set: "jm_get (jm_set m k v) j = (if j = k then Some v else jm_get m j)"
  by (induction m) (auto simp: jm_get_def)

lemma jm_get_delete: "jm_get (jm_delete m k) j = (if j = k then None else jm_get m j)"
  by (induction m) (auto simp: jm_get_def jm_delete_def)

lemma jm_keys_delete: "jm_keys (jm_delete m k) = filter (\<lambda>j. j \<noteq> k) (jm_keys m)"
  by (induction m) (auto simp: jm_keys_def jm_delete_def)

lemma jm_get_iff_keys: "jm_get m k \<noteq> None \<longleftrightarrow> k \<in> set (jm_keys m)"
  by (induction m) (auto simp: jm_get_def jm_keys_def)

interpretation jsm: ordered_map jm_get jm_set jm_delete jm_keys jm_ok
  by unfold_locales
    (simp_all add: jm_get_set jm_get_delete jm_get_iff_keys jm_keys_set jm_keys_delete jm_ok_def
      del: not_None_eq)

lemmas jm_simps [simp] = jm_get_set jm_get_delete

lemma jm_empty [simp]:
  "jm_get [] k = None" "jm_keys [] = []" "jm_ok []" "jm_size [] = 0" "\<not> jm_has [] k"
  by (simp_all add: jm_get_def jm_keys_def jm_ok_def jm_size_def jm_has_def)

lemma jm_has_set [simp]: "jm_has (jm_set m k v) j \<longleftrightarrow> j = k \<or> jm_has m j"
  by (simp add: jm_has_def)

lemma jm_has_delete [simp]: "jm_has (jm_delete m k) j \<longleftrightarrow> j \<noteq> k \<and> jm_has m j"
  by (simp add: jm_has_def)

lemma jm_has_keys: "jm_has m k \<longleftrightarrow> k \<in> set (jm_keys m)"
  by (simp add: jm_has_def jm_get_iff_keys del: not_None_eq)

lemma jm_size_keys: "jm_size m = length (jm_keys m)"
  by (simp add: jm_size_def jm_keys_def)

text \<open>A loop that deletes by a predicate is a filter; on distinct keys it acts pointwise.\<close>

lemma jm_ok_delete_if: "jm_ok m \<Longrightarrow> jm_ok (jm_delete_if p m)"
  by (induction m) (auto simp: jm_ok_def jm_keys_def jm_delete_if_def)

lemma jm_get_delete_if:
  assumes "jm_ok m"
  shows "jm_get (jm_delete_if p m) k =
    (case jm_get m k of None \<Rightarrow> None | Some v \<Rightarrow> if p k v then None else Some v)"
  using assms
proof (induction m)
  case Nil
  show ?case by (simp add: jm_delete_if_def)
next
  case (Cons a m)
  obtain j v where a: "a = (j, v)" by (cases a)
  have notin: "j \<notin> set (jm_keys m)" and IH: "jm_get (jm_delete_if p m) k =
    (case jm_get m k of None \<Rightarrow> None | Some v \<Rightarrow> if p k v then None else Some v)"
    using Cons by (simp_all add: jm_ok_def jm_keys_def a)
  from notin have none: "jm_get m j = None" using jm_get_iff_keys by fastforce
  show ?case using IH none
    by (cases "k = j") (simp_all add: a jm_get_def jm_delete_if_def)
qed

end
