(* ===== verification/Replay.thy ===== *)
theory Replay
  imports JsMap Config
begin

text \<open>
  The anti-replay layer of the packet protocol: the envelope of \<open>src/protocol/message.js\<close>
  (timestamp and nonce in front of the application data) and the guard of
  \<open>src/protocol/replay.js\<close> (freshness window and insertion-ordered nonce cache with a hard bound).
  The clock and the random nonce are arguments.
\<close>

section \<open>message.js\<close>

definition NONCE_LEN :: nat where
  "NONCE_LEN = 16"

definition TIMESTAMP_LEN :: nat where
  "TIMESTAMP_LEN = 8"

text \<open>\<open>now\<close> is \<open>Date.now()\<close>, \<open>nonce\<close> the result of \<open>crypto.randomBytes(16)\<close>.\<close>

definition wrapPayload :: "time \<Rightarrow> bytes \<Rightarrow> bytes \<Rightarrow> bytes res" where
  "wrapPayload now nonce data =
     bind_res (writeBigUInt64BE now) (\<lambda>ts. Inr (ts @ nonce @ data))"

text \<open>
  \<open>Number(big)\<close>: the nearest IEEE double of an unsigned 64-bit integer, ties to even. Up to 53 bits
  the value is exact; above, it is rounded to 53 significant bits.
\<close>

fun bit_len :: "nat \<Rightarrow> nat" where
  "bit_len n = (if n = 0 then 0 else Suc (bit_len (n div 2)))"

declare bit_len.simps [simp del]

definition Number_of_u64 :: "nat \<Rightarrow> nat" where
  "Number_of_u64 n =
     (if bit_len n \<le> 53 then n
      else let e = bit_len n - 53; q = n div 2 ^ e; r = n mod 2 ^ e; half = 2 ^ (e - 1)
           in (if half < r \<or> (r = half \<and> odd q) then q + 1 else q) * 2 ^ e)"

definition unwrapPayload :: "bytes \<Rightarrow> (time \<times> bytes \<times> bytes) res" where
  "unwrapPayload payload =
     (if length payload < REPLAY_ENVELOPE_LEN then Inl EnvelopeTooShort
      else bind_res (readBigUInt64BE payload 0) (\<lambda>big.
        Inr (int (Number_of_u64 big),
             subarray payload TIMESTAMP_LEN REPLAY_ENVELOPE_LEN,
             drop REPLAY_ENVELOPE_LEN payload)))"

lemma bit_len_le: "n < 2 ^ k \<Longrightarrow> bit_len n \<le> k"
proof (induction n arbitrary: k rule: bit_len.induct)
  case (1 n)
  show ?case
  proof (cases "n = 0")
    case True
    then show ?thesis by (simp add: bit_len.simps [of 0])
  next
    case False
    with "1.prems" obtain j where k: "k = Suc j" by (cases k) auto
    have "n div 2 < 2 ^ j" using "1.prems" k by (simp add: less_mult_imp_div_less mult.commute)
    then show ?thesis using "1.IH" [OF False] False k by (simp add: bit_len.simps [of n])
  qed
qed

lemma bit_len_ge: "0 < n \<Longrightarrow> 2 ^ bit_len n \<le> 2 * n"
proof (induction n rule: bit_len.induct)
  case (1 n)
  show ?case
  proof (cases "n div 2 = 0")
    case True
    then have "bit_len (n div 2) = 0" by (simp add: bit_len.simps)
    then show ?thesis using "1.prems" by (simp add: bit_len.simps [of n])
  next
    case False
    then have "2 ^ bit_len (n div 2) \<le> 2 * (n div 2)" using 1 by simp
    also have "\<dots> \<le> n" by simp
    finally show ?thesis using "1.prems" by (simp add: bit_len.simps [of n])
  qed
qed

lemma Number_exact: "n < 2 ^ 53 \<Longrightarrow> Number_of_u64 n = n"
  by (simp add: Number_of_u64_def bit_len_le)

lemma Number_large:
  assumes "2 ^ 53 \<le> n"
  shows "2 ^ 53 \<le> Number_of_u64 n"
proof (cases "bit_len n \<le> 53")
  case True
  then show ?thesis using assms by (simp add: Number_of_u64_def)
next
  case False
  define e where "e = bit_len n - 53"
  have "2 ^ (e + 53) \<le> 2 * n" using bit_len_ge [of n] assms False by (simp add: e_def)
  then have "2 ^ 52 * 2 ^ e \<le> n" by (simp add: power_add mult.commute)
  then have "2 ^ 52 \<le> n div 2 ^ e" by (simp add: less_eq_div_iff_mult_less_eq)
  moreover have "2 ^ 1 \<le> (2 :: nat) ^ e" using False by (intro power_increasing) (simp_all add: e_def)
  ultimately have "2 ^ 52 * 2 \<le> n div 2 ^ e * 2 ^ e" by (intro mult_mono) simp_all
  then show ?thesis using False by (simp add: Number_of_u64_def e_def [symmetric] Let_def)
qed

section \<open>replay.js\<close>

record replay_guard =
  rg_windowMs :: time
  rg_maxEntries :: nat
  rg_seen :: "(string, time) jsmap"

definition new_replay_guard :: "time \<Rightarrow> nat \<Rightarrow> replay_guard" where
  "new_replay_guard windowMs maxEntries =
     \<lparr>rg_windowMs = windowMs, rg_maxEntries = maxEntries, rg_seen = []\<rparr>"

datatype replay_reason = OutsideWindow | NonceSeen

datatype replay_result = ReplayOk | ReplayBad replay_reason

definition replay_key :: "bytes \<Rightarrow> bytes \<Rightarrow> string" where
  "replay_key nodeId nonce = hex_of_bytes nodeId @ '':'' @ hex_of_bytes nonce"

text \<open>
  \<open>_purge\<close> iterates the map in insertion order, deleting expired entries, and stops at the first
  fresh one.
\<close>

fun purge_loop :: "time \<Rightarrow> time \<Rightarrow> (string \<times> time) list \<Rightarrow> (string, time) jsmap \<Rightarrow> (string, time) jsmap" where
  "purge_loop w now [] seen = seen"
| "purge_loop w now ((key, ts) # es) seen =
     (if w < now - ts then purge_loop w now es (jm_delete seen key) else seen)"

definition purge :: "time \<Rightarrow> replay_guard \<Rightarrow> replay_guard" where
  "purge now g = g\<lparr>rg_seen := purge_loop (rg_windowMs g) now (rg_seen g) (rg_seen g)\<rparr>"

text \<open>\<open>timestamp\<close> is \<open>None\<close> when it is not a finite number.\<close>

definition check ::
    "replay_guard \<Rightarrow> bytes \<Rightarrow> time option \<Rightarrow> bytes \<Rightarrow> time \<Rightarrow> replay_result \<times> replay_guard" where
  "check g nodeId timestamp nonce now =
     (case timestamp of
        None \<Rightarrow> (ReplayBad OutsideWindow, g)
      | Some ts \<Rightarrow>
          if rg_windowMs g < \<bar>now - ts\<bar> then (ReplayBad OutsideWindow, g)
          else
            let g = purge now g;
                key = replay_key nodeId nonce
            in if jm_has (rg_seen g) key then (ReplayBad NonceSeen, g)
               else
                 let seen = (if rg_maxEntries g \<le> jm_size (rg_seen g)
                             then (case jm_keys (rg_seen g) of
                                     [] \<Rightarrow> rg_seen g
                                   | oldest # _ \<Rightarrow> jm_delete (rg_seen g) oldest)
                             else rg_seen g)
                 in (ReplayOk, g\<lparr>rg_seen := jm_set seen key ts\<rparr>))"

definition replay_size :: "replay_guard \<Rightarrow> nat" where
  "replay_size g = jm_size (rg_seen g)"

text \<open>A sequence of calls; the guard is shared by all connections of a server.\<close>

record query =
  q_nodeId :: bytes
  q_timestamp :: "time option"
  q_nonce :: bytes
  q_now :: time

definition check_query :: "replay_guard \<Rightarrow> query \<Rightarrow> replay_result \<times> replay_guard" where
  "check_query g q = check g (q_nodeId q) (q_timestamp q) (q_nonce q) (q_now q)"

fun check_run :: "replay_guard \<Rightarrow> query list \<Rightarrow> replay_result list \<times> replay_guard" where
  "check_run g [] = ([], g)"
| "check_run g (q # qs) =
     (let (r, g) = check_query g q; (rs, g) = check_run g qs in (r # rs, g))"

section \<open>Purge and insertion on distinct keys\<close>

lemma replay_key_inj: "replay_key a n = replay_key b m \<longleftrightarrow> a = b \<and> n = m"
proof
  assume eq: "replay_key a n = replay_key b m"
  have pre: "takeWhile (\<lambda>c. c \<noteq> CHR '':'') (replay_key a n) = hex_of_bytes a" for a n
    using hex_of_bytes_no_colon [of a] unfolding replay_key_def
    by (subst takeWhile_append2) auto
  have "hex_of_bytes a = hex_of_bytes b" using arg_cong [OF eq] pre by metis
  with eq show "a = b \<and> n = m" by (simp add: replay_key_def hex_of_bytes_inj)
qed simp

lemma delete_hd:
  assumes "jm_ok ((k, v) # m)"
  shows "jm_delete ((k, v) # m) k = m"
proof -
  have "k \<notin> set (map fst m)" using assms by (simp add: jm_ok_def jm_keys_def)
  then show ?thesis by (auto simp: jm_delete_def intro!: filter_True)
qed

lemma purge_loop_dropWhile:
  "jm_ok m \<Longrightarrow> purge_loop w now m m = dropWhile (\<lambda>(k, ts). w < now - ts) m"
proof (induction m)
  case (Cons p m)
  obtain k ts where p: "p = (k, ts)" by (cases p)
  have "jm_ok m" using Cons.prems by (simp add: jm_ok_def jm_keys_def)
  then show ?case using Cons.IH Cons.prems by (simp add: p delete_hd)
qed simp

lemma purge_seen:
  "jm_ok (rg_seen g) \<Longrightarrow>
     rg_seen (purge now g) = dropWhile (\<lambda>(k, ts). rg_windowMs g < now - ts) (rg_seen g)"
  by (simp add: purge_def purge_loop_dropWhile)

lemma purge_fields [simp]:
  "rg_windowMs (purge now g) = rg_windowMs g"
  "rg_maxEntries (purge now g) = rg_maxEntries g"
  by (simp_all add: purge_def)

lemma jm_ok_suffix: "jm_ok (a @ b) \<Longrightarrow> jm_ok b"
  by (simp add: jm_ok_def jm_keys_def)

lemma jm_ok_dropWhile: "jm_ok m \<Longrightarrow> jm_ok (dropWhile P m)"
  by (rule jm_ok_suffix [of "takeWhile P m"]) simp

lemma jm_ok_purge: "jm_ok (rg_seen g) \<Longrightarrow> jm_ok (rg_seen (purge now g))"
  by (simp add: purge_seen jm_ok_dropWhile)

lemma jm_set_fresh: "\<not> jm_has m k \<Longrightarrow> jm_set m k v = m @ [(k, v)]"
  by (induction m) (auto simp: jm_has_def jm_get_def)

text \<open>One accepted check appends its entry, after dropping the first if the cache is full.\<close>

lemma check_ok_seen:
  assumes "jm_ok (rg_seen g)" and "check g nid (Some ts) nonce now = (ReplayOk, g')"
  shows "rg_seen g' =
    (let s = rg_seen (purge now g) in if rg_maxEntries g \<le> length s then tl s else s)
      @ [(replay_key nid nonce, ts)]"
proof -
  let ?s = "rg_seen (purge now g)" and ?k = "replay_key nid nonce"
  have fresh: "\<not> jm_has ?s ?k"
    and g': "rg_seen g' = jm_set (if rg_maxEntries g \<le> jm_size ?s
        then (case jm_keys ?s of [] \<Rightarrow> ?s | oldest # _ \<Rightarrow> jm_delete ?s oldest) else ?s) ?k ts"
    using assms(2) by (auto simp: check_def Let_def split: if_splits)
  have ok: "jm_ok ?s" using assms(1) by (rule jm_ok_purge)
  have "(case jm_keys ?s of [] \<Rightarrow> ?s | oldest # _ \<Rightarrow> jm_delete ?s oldest) = tl ?s"
    using ok by (cases ?s) (auto simp: jm_keys_def delete_hd)
  moreover have "\<not> jm_has (tl ?s) ?k"
    using fresh by (cases ?s) (auto simp: jm_has_keys jm_keys_def)
  ultimately show ?thesis using g' fresh by (auto simp: jm_set_fresh jm_size_def Let_def)
qed

lemma check_bad_seen:
  "check g nid ts nonce now = (ReplayBad r, g') \<Longrightarrow> g' = g \<or> g' = purge now g"
  by (auto simp: check_def Let_def split: option.splits if_splits)

lemma check_fields:
  "check g nid ts nonce now = (r, g') \<Longrightarrow>
     rg_windowMs g' = rg_windowMs g \<and> rg_maxEntries g' = rg_maxEntries g"
  by (auto simp: check_def Let_def split: option.splits if_splits)

text \<open>The guard's invariant: distinct keys, at most \<open>maxEntries\<close> of them (at least one slot).\<close>

definition replay_inv :: "replay_guard \<Rightarrow> bool" where
  "replay_inv g \<longleftrightarrow> jm_ok (rg_seen g) \<and> replay_size g \<le> max 1 (rg_maxEntries g)"

lemma replay_inv_new: "replay_inv (new_replay_guard w m)"
  by (simp add: replay_inv_def new_replay_guard_def replay_size_def)

lemma length_purge: "jm_ok (rg_seen g) \<Longrightarrow> length (rg_seen (purge now g)) \<le> length (rg_seen g)"
  by (simp add: purge_seen length_dropWhile_le)

lemma replay_inv_purge: "replay_inv g \<Longrightarrow> replay_inv (purge now g)"
  using length_purge [of g now]
  by (auto simp: replay_inv_def replay_size_def jm_size_def jm_ok_purge)

lemma replay_inv_check:
  assumes "replay_inv g" and "check g nid ts nonce now = (r, g')"
  shows "replay_inv g'"
proof (cases r)
  case (ReplayBad x)
  then show ?thesis using check_bad_seen assms replay_inv_purge by blast
next
  case ReplayOk
  then obtain t where ts: "ts = Some t" using assms(2) by (cases ts) (auto simp: check_def)
  let ?s = "rg_seen (purge now g)" and ?k = "replay_key nid nonce"
  have ok: "jm_ok (rg_seen g)" using assms(1) by (simp add: replay_inv_def)
  have eq: "rg_seen g' = (if rg_maxEntries g \<le> length ?s then tl ?s else ?s) @ [(?k, t)]"
    using check_ok_seen [OF ok, of nid t nonce now g'] assms(2) ReplayOk ts by (simp add: Let_def)
  have fresh: "?k \<notin> set (map fst ?s)"
    using assms(2) ReplayOk ts
    by (auto simp: check_def Let_def jm_has_keys jm_keys_def split: if_splits)
  have "distinct (map fst ?s)" using jm_ok_purge [OF ok] by (simp add: jm_ok_def jm_keys_def)
  then have "jm_ok (rg_seen g')"
    using fresh by (cases ?s) (auto simp: eq jm_ok_def jm_keys_def)
  moreover have "length ?s \<le> max 1 (rg_maxEntries g)"
    using replay_inv_purge [OF assms(1), of now]
    by (simp add: replay_inv_def replay_size_def jm_size_def)
  ultimately show ?thesis using check_fields [OF assms(2)]
    by (cases ?s) (auto simp: replay_inv_def replay_size_def jm_size_def eq)
qed

lemma replay_inv_run: "replay_inv g \<Longrightarrow> check_run g qs = (rs, g') \<Longrightarrow> replay_inv g'"
proof (induction qs arbitrary: g rs)
  case (Cons q qs)
  then show ?case
    by (auto simp: Let_def check_query_def split: prod.splits dest: replay_inv_check)
qed simp

lemma check_run_fields:
  "check_run g qs = (rs, g') \<Longrightarrow>
     rg_windowMs g' = rg_windowMs g \<and> rg_maxEntries g' = rg_maxEntries g"
proof (induction qs arbitrary: g rs)
  case (Cons q qs)
  then show ?case
    by (auto simp: Let_def check_query_def split: prod.splits dest!: check_fields)
qed simp

section \<open>An accepted entry stays until it is stale\<close>

text \<open>
  After its acceptance, the entry of a packet is in the cache with at most \<open>j\<close> entries behind it,
  \<open>j\<close> being the number of acceptances since, or its timestamp has left the window.
\<close>

definition protects :: "replay_guard \<Rightarrow> string \<Rightarrow> time \<Rightarrow> nat \<Rightarrow> time \<Rightarrow> bool" where
  "protects g key ts j now \<longleftrightarrow>
     rg_windowMs g < now - ts \<or>
     (\<exists>pre post. rg_seen g = pre @ (key, ts) # post \<and> length post \<le> j)"

lemma protects_purge:
  assumes "protects g key ts j t" and "t \<le> now" and "jm_ok (rg_seen g)"
  shows "protects (purge now g) key ts j now"
proof (cases "rg_windowMs g < now - ts")
  case False
  with assms(1,2) obtain pre post where "rg_seen g = pre @ (key, ts) # post" "length post \<le> j"
    by (auto simp: protects_def)
  with False show ?thesis using assms(3)
    by (auto simp: protects_def purge_seen dropWhile_append3)
qed (simp add: protects_def)

lemma protects_later: "protects g key ts j t \<Longrightarrow> t \<le> now \<Longrightarrow> protects g key ts j now"
  by (auto simp: protects_def)

lemma protects_check:
  assumes "protects g key ts j t" and "t \<le> now" and "jm_ok (rg_seen g)"
    and "check g nid ts' nonce now = (r, g')" and "r = ReplayOk \<Longrightarrow> Suc j < rg_maxEntries g"
  shows "protects g' key ts (if r = ReplayOk then Suc j else j) now"
proof (cases r)
  case (ReplayBad x)
  then have "g' = g \<or> g' = purge now g" using assms(4) by (auto dest: check_bad_seen)
  then show ?thesis
    using ReplayBad protects_purge [OF assms(1-3)] protects_later [OF assms(1,2)] by auto
next
  case ReplayOk
  then obtain u where u: "ts' = Some u" using assms(4) by (cases ts') (auto simp: check_def)
  let ?s = "rg_seen (purge now g)"
  have eq: "rg_seen g' = (if rg_maxEntries g \<le> length ?s then tl ?s else ?s) @ [(replay_key nid nonce, u)]"
    using check_ok_seen [OF assms(3), of nid u nonce now g'] assms(4) ReplayOk u by (simp add: Let_def)
  have w: "rg_windowMs g' = rg_windowMs g" using check_fields [OF assms(4)] by simp
  show ?thesis
  proof (cases "rg_windowMs g < now - ts")
    case False
    then obtain pre post where s: "?s = pre @ (key, ts) # post" and j: "length post \<le> j"
      using protects_purge [OF assms(1-3)] by (auto simp: protects_def)
    have "pre = [] \<Longrightarrow> \<not> rg_maxEntries g \<le> length ?s" using s j assms(5) ReplayOk by simp
    then have "rg_seen g' = (if rg_maxEntries g \<le> length ?s then tl pre else pre) @
        (key, ts) # (post @ [(replay_key nid nonce, u)])"
      using s eq by (cases pre) auto
    moreover have "length (post @ [(replay_key nid nonce, u)]) \<le> Suc j" using j by simp
    ultimately have "\<exists>a b. rg_seen g' = a @ (key, ts) # b \<and> length b \<le> Suc j" by blast
    then show ?thesis using ReplayOk by (simp add: protects_def)
  qed (simp add: protects_def w)
qed

lemma protects_run:
  assumes "protects g key ts j t" and "replay_inv g" and "check_run g qs = (rs, g')"
    and "sorted (t # map q_now qs)" and "j + count_list rs ReplayOk < rg_maxEntries g"
  shows "protects g' key ts (j + count_list rs ReplayOk) (last (t # map q_now qs))"
  using assms
proof (induction qs arbitrary: g j t rs)
  case Nil
  then show ?case by simp
next
  case (Cons q qs)
  obtain r g1 where c: "check_query g q = (r, g1)" by (cases "check_query g q")
  obtain rs1 where run: "check_run g1 qs = (rs1, g')" and rs: "rs = r # rs1"
    using Cons.prems(3) by (auto simp: c Let_def split: prod.splits)
  have chk: "check g (q_nodeId q) (q_timestamp q) (q_nonce q) (q_now q) = (r, g1)"
    using c by (simp add: check_query_def)
  have ok: "jm_ok (rg_seen g)" using Cons.prems(2) by (simp add: replay_inv_def)
  let ?j = "if r = ReplayOk then Suc j else j"
  have "protects g1 key ts ?j (q_now q)"
    using Cons.prems rs by (intro protects_check [OF Cons.prems(1) _ ok chk]) auto
  moreover have "replay_inv g1" using Cons.prems(2) chk by (rule replay_inv_check)
  ultimately have "protects g' key ts (?j + count_list rs1 ReplayOk) (last (q_now q # map q_now qs))"
    using Cons.prems(4,5) rs check_fields [OF chk] by (intro Cons.IH [OF _ _ run]) (auto split: if_splits)
  then show ?case using rs by (simp split: if_splits)
qed

lemma protects_rejects:
  assumes "protects g (replay_key nid nonce) ts j t" and "t \<le> now" and "jm_ok (rg_seen g)"
  shows "fst (check g nid (Some ts) nonce now) \<noteq> ReplayOk"
proof (cases "rg_windowMs g < \<bar>now - ts\<bar>")
  case False
  then have "\<exists>pre post. rg_seen (purge now g) = pre @ (replay_key nid nonce, ts) # post"
    using protects_purge [OF assms] by (auto simp: protects_def)
  then have "jm_has (rg_seen (purge now g)) (replay_key nid nonce)"
    by (auto simp: jm_has_keys jm_keys_def)
  with False show ?thesis by (simp add: check_def Let_def)
qed (simp add: check_def)

lemma protects_accepted:
  assumes "check g nid (Some ts) nonce now = (ReplayOk, g')" and "jm_ok (rg_seen g)"
  shows "protects g' (replay_key nid nonce) ts 0 now"
  using check_ok_seen [OF assms(2,1)] unfolding protects_def by auto

section \<open>Properties\<close>

text \<open>C13. No packet is accepted twice. From a new guard, after any calls, once a packet
  (node, timestamp, nonce) has been accepted, presenting it again is rejected, as long as the clock
  has not gone back and fewer than \<open>maxEntries\<close> other packets were accepted in between: eviction by
  the memory bound and the lazy purge never open a window for a replay.\<close>

theorem no_replay:
  assumes "check_run (new_replay_guard w mx) qs1 = (rs1, g1)"
    and "check_query g1 q = (ReplayOk, g2)"
    and "check_run g2 qs2 = (rs2, g3)"
    and "sorted (q_now q # map q_now qs2 @ [now])"
    and "count_list rs2 ReplayOk < mx"
  shows "fst (check_query g3 (q\<lparr>q_now := now\<rparr>)) \<noteq> ReplayOk"
proof -
  have inv1: "replay_inv g1" using replay_inv_run [OF replay_inv_new assms(1)] .
  obtain ts where ts: "q_timestamp q = Some ts"
    and chk: "check g1 (q_nodeId q) (Some ts) (q_nonce q) (q_now q) = (ReplayOk, g2)"
    using assms(2) by (cases "q_timestamp q") (auto simp: check_query_def check_def)
  have inv2: "replay_inv g2" using inv1 chk by (rule replay_inv_check)
  have mx: "rg_maxEntries g2 = mx"
    using check_run_fields [OF assms(1)] check_fields [OF chk] by (simp add: new_replay_guard_def)
  have "protects g2 (replay_key (q_nodeId q) (q_nonce q)) ts 0 (q_now q)"
    using chk inv1 by (intro protects_accepted) (auto simp: replay_inv_def)
  moreover have sorted: "sorted (q_now q # map q_now qs2)" and last: "last (q_now q # map q_now qs2) \<le> now"
    using assms(4) by (auto simp: sorted_append last_map)
  ultimately have "protects g3 (replay_key (q_nodeId q) (q_nonce q)) ts
      (0 + count_list rs2 ReplayOk) (last (q_now q # map q_now qs2))"
    using inv2 assms(3,5) mx by (intro protects_run) auto
  moreover have "jm_ok (rg_seen g3)"
    using replay_inv_run [OF inv2 assms(3)] by (simp add: replay_inv_def)
  ultimately show ?thesis
    using protects_rejects last ts by (simp add: check_query_def)
qed

theorem no_replay_witness:
  "fst (check_query (snd (check_run (new_replay_guard 10 2) [\<lparr>q_nodeId = [1], q_timestamp = Some 95,
      q_nonce = [7], q_now = 100\<rparr>, \<lparr>q_nodeId = [2], q_timestamp = Some 101, q_nonce = [7], q_now = 101\<rparr>]))
     \<lparr>q_nodeId = [1], q_timestamp = Some 95, q_nonce = [7], q_now = 102\<rparr>) \<noteq> ReplayOk"
proof -
  let ?q = "\<lparr>q_nodeId = [1], q_timestamp = Some 95, q_nonce = [7], q_now = 100\<rparr>"
  let ?p = "\<lparr>q_nodeId = [2], q_timestamp = Some 101, q_nonce = [7], q_now = 101\<rparr>"
  let ?g = "new_replay_guard 10 2"
  let ?g1 = "?g\<lparr>rg_seen := [(replay_key [1] [7], 95)]\<rparr>"
  let ?g2 = "?g\<lparr>rg_seen := [(replay_key [1] [7], 95), (replay_key [2] [7], 101)]\<rparr>"
  have q: "check_query ?g ?q = (ReplayOk, ?g1)"
    by (simp add: check_query_def check_def new_replay_guard_def purge_def)
  have p: "check_run ?g1 [?p] = ([ReplayOk], ?g2)"
    by (simp add: check_query_def check_def new_replay_guard_def purge_def jm_has_def jm_get_def
        jm_size_def replay_key_inj)
  show ?thesis
    using no_replay [of 10 2 "[]" "[]" ?g ?q ?g1 "[?p]" "[ReplayOk]" ?g2 102] q p
    by (simp add: Let_def)
qed

text \<open>The guard's decision, branch by branch, and its memory bound: a check accepts exactly when the
  timestamp is finite and within the window of the clock and the node's nonce is not in the purged
  cache; and after any sequence of calls from a new guard the cache holds distinct keys and at most
  \<open>maxEntries\<close> entries (one, if \<open>maxEntries\<close> is 0).\<close>

theorem replay_decision_and_bound:
  "fst (check g nid timestamp nonce now) =
     (case timestamp of
        None \<Rightarrow> ReplayBad OutsideWindow
      | Some ts \<Rightarrow>
          if rg_windowMs g < \<bar>now - ts\<bar> then ReplayBad OutsideWindow
          else if jm_has (rg_seen (purge now g)) (replay_key nid nonce) then ReplayBad NonceSeen
          else ReplayOk) \<and>
   distinct (jm_keys (rg_seen (snd (check_run (new_replay_guard w m) qs)))) \<and>
   replay_size (snd (check_run (new_replay_guard w m) qs)) \<le> max 1 m"
proof (intro conjI)
  let ?g = "snd (check_run (new_replay_guard w m) qs)"
  obtain rs g' where run: "check_run (new_replay_guard w m) qs = (rs, g')"
    by (cases "check_run (new_replay_guard w m) qs")
  have "replay_inv g'" using replay_inv_new run by (rule replay_inv_run)
  moreover have "rg_maxEntries g' = m"
    using check_run_fields [OF run] by (simp add: new_replay_guard_def)
  ultimately show "distinct (jm_keys (rg_seen ?g))" and "replay_size ?g \<le> max 1 m"
    by (simp_all add: run replay_inv_def jm_ok_def)
qed (simp add: check_def Let_def split: option.split)

lemma unwrap_wrap:
  assumes "wrapPayload ts nonce data = Inr payload" and "length nonce = NONCE_LEN" and "ts < 2 ^ 53"
  shows "unwrapPayload payload = Inr (ts, nonce, data)"
proof -
  have "0 \<le> ts" and payload: "payload = be_bytes 8 (nat ts) @ nonce @ data"
    using assms(1) by (auto simp: wrapPayload_def bind_res_eq_Inr writeBigUInt64BE_def split: if_splits)
  then have "nat ts < 2 ^ 53" using assms(3) by simp
  then show ?thesis using assms(2) \<open>0 \<le> ts\<close> payload
    by (simp add: unwrapPayload_def readBigUInt64BE_def REPLAY_ENVELOPE_LEN_def TIMESTAMP_LEN_def
        NONCE_LEN_def subarray_def be_val_be_bytes Number_exact)
qed

text \<open>The envelope round-trips: what \<open>wrapPayload\<close> produces at a clock value below \<open>2^53\<close> (the
  integers a JavaScript number holds exactly) is taken apart into that clock value, the nonce and the
  data; and no timestamp field of a received payload, however large, is rounded back below \<open>2^53\<close>, so
  a far-future stamp can never look fresh.\<close>

theorem envelope_roundtrip:
  assumes "0 \<le> now" and "now < 2 ^ 53" and "length nonce = NONCE_LEN"
  shows "bind_res (wrapPayload now nonce data) unwrapPayload = Inr (now, nonce, data) \<and>
    (\<forall>payload ts n d. unwrapPayload payload = Inr (ts, n, d) \<and> 2 ^ 53 \<le> be_val (take 8 payload) \<longrightarrow>
       2 ^ 53 \<le> ts)"
proof (intro conjI allI impI)
  have "wrapPayload now nonce data = Inr (be_bytes 8 (nat now) @ nonce @ data)"
    using assms by (simp add: wrapPayload_def writeBigUInt64BE_def)
  then show "bind_res (wrapPayload now nonce data) unwrapPayload = Inr (now, nonce, data)"
    using unwrap_wrap assms(2,3) by simp
next
  fix payload ts n d
  assume h: "unwrapPayload payload = Inr (ts, n, d) \<and> 2 ^ 53 \<le> be_val (take 8 payload)"
  then have "ts = int (Number_of_u64 (be_val (take 8 payload)))"
    by (auto simp: unwrapPayload_def bind_res_eq_Inr readBigUInt64BE_def split: if_splits)
  then show "2 ^ 53 \<le> ts" using h Number_large [of "be_val (take 8 payload)"] by simp
qed

theorem envelope_roundtrip_witness:
  "bind_res (wrapPayload 1700000000000 (replicate 16 3) [1, 2]) unwrapPayload =
     Inr (1700000000000, replicate 16 3, [1, 2])"
  using envelope_roundtrip [of 1700000000000 "replicate 16 3" "[1, 2]"]
  by (simp add: NONCE_LEN_def)

text \<open>The purge is not complete, against the comment beside it ("as soon as one entry is still
  valid, the rest is too"): insertion order is the order of acceptance, not of the timestamps that are
  compared. Here a packet stamped in the future is accepted before a packet stamped in the past; later
  the second entry has left the window, yet the purge stops at the first and keeps it.\<close>

theorem purge_keeps_stale_entry:
  "let g = snd (check_run (new_replay_guard 10 5)
       [\<lparr>q_nodeId = [1], q_timestamp = Some 110, q_nonce = [1], q_now = 100\<rparr>,
        \<lparr>q_nodeId = [1], q_timestamp = Some 90, q_nonce = [2], q_now = 100\<rparr>])
   in rg_seen (purge 105 g) = rg_seen g \<and>
      jm_get (rg_seen (purge 105 g)) (replay_key [1] [2]) = Some 90 \<and> rg_windowMs g < 105 - 90"
  by (simp add: check_query_def check_def new_replay_guard_def purge_def jm_has_def jm_get_def
      jm_size_def replay_key_inj Let_def)

end
