(* ===== verification/Limits.thy ===== *)
theory Limits
  imports JsMap Config
begin

text \<open>
  The two per-address defences shared by the servers: \<open>src/network/ipRateLimiter.js\<close> and
  \<open>src/network/ipBlacklist.js\<close>. Both count events in a window that starts with the first event and
  restarts with the first event after its end. The locale \<open>window_counter\<close> is that contract, with
  what its users get from it: a bound on what is admitted over any interval, and that nobody below
  the limit is refused. It is interpreted here for the rate limiter, and in the server and session
  theories for their own counters.
\<close>

type_synonym ip = string

section \<open>The contract of a window counter\<close>

text \<open>The count and the window's start after one more event at time \<open>t\<close>.\<close>

definition next_window :: "time \<Rightarrow> (nat \<times> time) option \<Rightarrow> time \<Rightarrow> nat \<times> time" where
  "next_window W v t =
     (case v of None \<Rightarrow> (1, t) | Some (c, w) \<Rightarrow> if W < t - w then (1, t) else (c + 1, w))"

datatype 'k hit_event = Hit 'k time | Tidy time

fun event_time :: "'k hit_event \<Rightarrow> time" where
  "event_time (Hit k t) = t"
| "event_time (Tidy t) = t"

text \<open>How many events of key \<open>k\<close> are admitted, and how many occur, in a run.\<close>

fun admitted ::
    "('s \<Rightarrow> 'k \<Rightarrow> time \<Rightarrow> bool \<times> 's) \<Rightarrow> ('s \<Rightarrow> time \<Rightarrow> 's) \<Rightarrow> 'k \<Rightarrow> 's \<Rightarrow> 'k hit_event list \<Rightarrow> nat" where
  "admitted hit tidy k s [] = 0"
| "admitted hit tidy k s (Hit j t # es) =
     (if j = k \<and> fst (hit s j t) then 1 else 0) + admitted hit tidy k (snd (hit s j t)) es"
| "admitted hit tidy k s (Tidy t # es) = admitted hit tidy k (tidy s t) es"

fun hits :: "'k \<Rightarrow> 'k hit_event list \<Rightarrow> nat" where
  "hits k [] = 0"
| "hits k (Hit j t # es) = (if j = k then 1 else 0) + hits k es"
| "hits k (Tidy t # es) = hits k es"

lemma spend_one:
  "(x :: nat) \<le> y \<Longrightarrow> (if c + 1 \<le> l then 1 else 0) + ((l - (c + 1)) + x) \<le> (l - c) + y"
  by auto

locale window_counter =
  fixes hit :: "'s \<Rightarrow> 'k \<Rightarrow> time \<Rightarrow> bool \<times> 's"
    and tidy :: "'s \<Rightarrow> time \<Rightarrow> 's"
    and view :: "'s \<Rightarrow> 'k \<Rightarrow> (nat \<times> time) option"
    and ok :: "'s \<Rightarrow> bool"
    and limit :: nat
    and W :: time
  assumes hit_result: "ok s \<Longrightarrow> fst (hit s k t) \<longleftrightarrow> fst (next_window W (view s k) t) \<le> limit"
    and view_hit: "ok s \<Longrightarrow>
      view (snd (hit s k t)) j = (if j = k then Some (next_window W (view s k) t) else view s j)"
    and ok_hit: "ok s \<Longrightarrow> ok (snd (hit s k t))"
    and view_tidy: "ok s \<Longrightarrow> view (tidy s t) k = view s k \<or>
      (view (tidy s t) k = None \<and> (\<exists>c w. view s k = Some (c, w) \<and> W < t - w))"
    and ok_tidy: "ok s \<Longrightarrow> ok (tidy s t)"
    and W_nonneg: "0 \<le> W"
begin

text \<open>
  \<open>windows E m\<close> bounds the number of windows that can start in \<open>[m, E]\<close>; \<open>quota\<close> bounds what is
  still admitted for a key from time \<open>t\<close> up to \<open>E\<close>.
\<close>

definition windows :: "time \<Rightarrow> time \<Rightarrow> nat" where
  "windows E m = (if E < m then 0 else nat ((E - m) div (W + 1)) + 1)"

definition quota :: "time \<Rightarrow> time \<Rightarrow> (nat \<times> time) option \<Rightarrow> nat" where
  "quota E t v =
     (case v of None \<Rightarrow> limit * windows E t
      | Some (c, w) \<Rightarrow> (limit - c) + limit * windows E (max t (w + W + 1)))"

lemma windows_antimono: "m \<le> m' \<Longrightarrow> windows E m' \<le> windows E m"
  using W_nonneg by (auto simp: windows_def intro!: nat_mono zdiv_mono1)

lemma windows_Suc: "t \<le> E \<Longrightarrow> windows E t = Suc (windows E (t + W + 1))"
proof -
  assume t: "t \<le> E"
  show ?thesis
  proof (cases "E < t + W + 1")
    case True
    then have "(E - t) div (W + 1) = 0" using t by (intro div_pos_pos_trivial) simp_all
    then show ?thesis using True t by (simp add: windows_def)
  next
    case False
    have "E - t = (E - (t + W + 1)) + (W + 1)" by simp
    then have "(E - t) div (W + 1) = ((E - (t + W + 1)) + (W + 1)) div (W + 1)" by (rule arg_cong)
    also have "\<dots> = (E - (t + W + 1)) div (W + 1) + 1"
      using W_nonneg by (intro div_add_self2) simp
    finally have "(E - t) div (W + 1) = (E - (t + W + 1)) div (W + 1) + 1" .
    moreover have "0 \<le> (E - (t + W + 1)) div (W + 1)"
      using False W_nonneg by (intro pos_imp_zdiv_nonneg_iff [THEN iffD2]) simp_all
    ultimately show ?thesis using False t by (simp add: windows_def nat_add_distrib)
  qed
qed

lemma quota_antimono: "t \<le> t' \<Longrightarrow> quota E t' v \<le> quota E t v"
  by (auto simp: quota_def intro!: mult_le_mono2 windows_antimono split: option.split)

lemma quota_fresh:
  assumes "t \<le> E" and "m \<le> t"
  shows "(if 1 \<le> limit then 1 else 0) + quota E t (Some (1, t)) \<le> limit * windows E m"
proof -
  have "max t (t + W + 1) = t + W + 1" using W_nonneg by simp
  then have "(if 1 \<le> limit then 1 else 0) + quota E t (Some (1, t)) = limit * windows E t"
    using windows_Suc [OF assms(1)] by (cases "1 \<le> limit") (simp_all add: quota_def)
  then show ?thesis using windows_antimono [OF assms(2)] by simp
qed

lemma quota_hit:
  assumes "ok s" and "t \<le> t'" and "t' \<le> E"
  shows "(if fst (hit s k t') then 1 else 0) + quota E t' (view (snd (hit s k t')) k)
    \<le> quota E t (view s k)"
proof (cases "view s k")
  case None
  then show ?thesis
    using quota_fresh [OF assms(3,2)]
    by (simp add: hit_result [OF assms(1)] view_hit [OF assms(1)] next_window_def quota_def)
next
  case (Some p)
  obtain c w where p: "p = (c, w)" by (cases p)
  show ?thesis
  proof (cases "W < t' - w")
    case True
    then have "max t (w + W + 1) \<le> t'" using assms(2) by simp
    then have "(if 1 \<le> limit then 1 else 0) + quota E t' (Some (1, t'))
        \<le> limit * windows E (max t (w + W + 1))"
      using assms(3) by (intro quota_fresh)
    then show ?thesis using Some p True
      by (simp add: hit_result [OF assms(1)] view_hit [OF assms(1)] next_window_def quota_def)
  next
    case False
    have "windows E (max t' (w + W + 1)) \<le> windows E (max t (w + W + 1))"
      using assms(2) by (intro windows_antimono) simp
    then have le: "limit * windows E (max t' (w + W + 1)) \<le> limit * windows E (max t (w + W + 1))"
      by (rule mult_le_mono2)
    have hit: "fst (hit s k t') \<longleftrightarrow> c + 1 \<le> limit"
      and view: "view (snd (hit s k t')) k = Some (c + 1, w)"
      using Some p False
      by (simp_all add: hit_result [OF assms(1)] view_hit [OF assms(1)] next_window_def)
    show ?thesis unfolding quota_def Some p hit view option.case prod.case
      using le by (rule spend_one)
  qed
qed

lemma quota_tidy:
  assumes "ok s" and "t \<le> t'"
  shows "quota E t' (view (tidy s t') k) \<le> quota E t (view s k)"
  using view_tidy [OF assms(1), of t' k]
proof
  assume "view (tidy s t') k = None \<and> (\<exists>c w. view s k = Some (c, w) \<and> W < t' - w)"
  then obtain c w where none: "view (tidy s t') k = None" and v: "view s k = Some (c, w)"
    and "W < t' - w" by blast
  then have "windows E t' \<le> windows E (max t (w + W + 1))"
    using assms(2) by (intro windows_antimono) simp
  then have "limit * windows E t' \<le> limit * windows E (max t (w + W + 1))" by simp
  then show ?thesis unfolding quota_def none v option.case prod.case by linarith
qed (simp add: quota_antimono [OF assms(2)])

lemma admitted_quota:
  assumes "ok s" and "sorted (t # map event_time es)" and "\<forall>e \<in> set es. event_time e \<le> E"
  shows "admitted hit tidy k s es \<le> quota E t (view s k)"
  using assms
proof (induction es arbitrary: s t)
  case Nil
  then show ?case by simp
next
  case (Cons e es)
  show ?case
  proof (cases e)
    case (Hit j t')
    have IH: "admitted hit tidy k (snd (hit s j t')) es \<le> quota E t' (view (snd (hit s j t')) k)"
      using Cons.prems Hit by (intro Cons.IH) (auto intro: ok_hit)
    show ?thesis
    proof (cases "j = k")
      case True
      then show ?thesis using IH Hit Cons.prems quota_hit [of s t t' E k] by auto
    next
      case False
      then have "view (snd (hit s j t')) k = view s k" using Cons.prems(1) by (simp add: view_hit)
      then show ?thesis using IH Hit False Cons.prems quota_antimono [of t t' E "view s k"] by simp
    qed
  next
    case (Tidy t')
    have "admitted hit tidy k (tidy s t') es \<le> quota E t' (view (tidy s t') k)"
      using Cons.prems Tidy by (intro Cons.IH) (auto intro: ok_tidy)
    then show ?thesis using Tidy Cons.prems quota_tidy [of s t t' E k] by auto
  qed
qed

text \<open>The bound over an interval \<open>[t, E]\<close>, from any state.\<close>

lemma quota_bound:
  assumes "t \<le> E"
  shows "quota E t v \<le> limit * (nat ((E - t) div (W + 1)) + 2)"
proof -
  have "quota E t v \<le> limit + limit * windows E t"
    using windows_antimono [of t "max t w" E for w]
    by (auto simp: quota_def intro!: add_mono mult_le_mono2 split: option.split)
  moreover have "windows E t = nat ((E - t) div (W + 1)) + 1" using assms by (simp add: windows_def)
  ultimately show ?thesis by (simp add: algebra_simps)
qed

lemma admitted_bound:
  assumes "ok s" and "sorted (t # map event_time es)" and "\<forall>e \<in> set es. event_time e \<le> E"
    and "t \<le> E"
  shows "admitted hit tidy k s es \<le> limit * (nat ((E - t) div (W + 1)) + 2)"
  using admitted_quota [OF assms(1-3), of k] quota_bound [OF assms(4), of "view s k"] by linarith

text \<open>Nobody is refused before the limit is reached.\<close>

lemma hit_below:
  assumes "ok s" and "case view s k of None \<Rightarrow> True | Some (c, w) \<Rightarrow> c \<le> n" and "n < limit"
  shows "fst (hit s k t)" and "case view (snd (hit s k t)) k of None \<Rightarrow> True | Some (c, w) \<Rightarrow> c \<le> Suc n"
  using assms
  by (auto simp: hit_result view_hit next_window_def split: option.splits)

lemma admitted_all:
  assumes "ok s" and "case view s k of None \<Rightarrow> True | Some (c, w) \<Rightarrow> c \<le> n"
    and "n + hits k es \<le> limit"
  shows "admitted hit tidy k s es = hits k es"
  using assms
proof (induction es arbitrary: s n)
  case Nil
  then show ?case by simp
next
  case (Cons e es)
  show ?case
  proof (cases e)
    case (Hit j t)
    show ?thesis
    proof (cases "j = k")
      case True
      then show ?thesis using Hit Cons.prems Cons.IH [of "snd (hit s k t)" "Suc n"]
          hit_below [OF Cons.prems(1,2), of t] ok_hit by auto
    next
      case False
      then show ?thesis using Hit Cons.prems Cons.IH [of "snd (hit s j t)" n]
        by (simp add: view_hit ok_hit)
    qed
  next
    case (Tidy t)
    then have "case view (tidy s t) k of None \<Rightarrow> True | Some (c, w) \<Rightarrow> c \<le> n"
      using view_tidy [OF Cons.prems(1), of t k] Cons.prems(2) by auto
    then show ?thesis using Tidy Cons.prems Cons.IH [of "tidy s t" n] ok_tidy by simp
  qed
qed

end

section \<open>ipRateLimiter.js\<close>

record counter =
  ct_count :: nat
  ct_windowStart :: time

lemma counter_update:
  "(c :: counter)\<lparr>ct_count := n\<rparr> = \<lparr>ct_count = n, ct_windowStart = ct_windowStart c\<rparr>"
  by (cases c) simp

record rate_limiter =
  rl_limit :: nat
  rl_windowMs :: time
  rl_counters :: "(ip, counter) jsmap"

definition new_rate_limiter :: "nat \<Rightarrow> time \<Rightarrow> rate_limiter" where
  "new_rate_limiter limit windowMs =
     \<lparr>rl_limit = limit, rl_windowMs = windowMs, rl_counters = []\<rparr>"

text \<open>
  \<open>c.count++\<close> mutates the object the map holds: the model stores the new counter under the same key,
  which keeps its position.
\<close>

definition allow :: "rate_limiter \<Rightarrow> ip \<Rightarrow> time \<Rightarrow> bool \<times> rate_limiter" where
  "allow rl ip now =
     (let c = (case jm_get (rl_counters rl) ip of
                 None \<Rightarrow> \<lparr>ct_count = 0, ct_windowStart = now\<rparr>
               | Some c \<Rightarrow>
                   if rl_windowMs rl < now - ct_windowStart c
                   then \<lparr>ct_count = 0, ct_windowStart = now\<rparr> else c);
          c = c\<lparr>ct_count := ct_count c + 1\<rparr>
      in (ct_count c \<le> rl_limit rl, rl\<lparr>rl_counters := jm_set (rl_counters rl) ip c\<rparr>))"

definition rl_cleanup :: "rate_limiter \<Rightarrow> time \<Rightarrow> rate_limiter" where
  "rl_cleanup rl now =
     rl\<lparr>rl_counters := jm_delete_if (\<lambda>ip c. rl_windowMs rl * 2 < now - ct_windowStart c) (rl_counters rl)\<rparr>"

definition rl_size :: "rate_limiter \<Rightarrow> nat" where
  "rl_size rl = jm_size (rl_counters rl)"

definition rl_view :: "rate_limiter \<Rightarrow> ip \<Rightarrow> (nat \<times> time) option" where
  "rl_view rl ip = map_option (\<lambda>c. (ct_count c, ct_windowStart c)) (jm_get (rl_counters rl) ip)"

definition rl_ok :: "nat \<Rightarrow> time \<Rightarrow> rate_limiter \<Rightarrow> bool" where
  "rl_ok limit W rl \<longleftrightarrow>
     rl_limit rl = limit \<and> rl_windowMs rl = W \<and> 0 \<le> W \<and> jm_ok (rl_counters rl)"

lemma allow_view:
  "fst (allow rl ip t) \<longleftrightarrow> fst (next_window (rl_windowMs rl) (rl_view rl ip) t) \<le> rl_limit rl"
  "rl_view (snd (allow rl ip t)) j =
     (if j = ip then Some (next_window (rl_windowMs rl) (rl_view rl ip) t) else rl_view rl j)"
  by (auto simp: allow_def rl_view_def next_window_def Let_def split: option.split)

lemma allow_ok: "rl_ok l W rl \<Longrightarrow> rl_ok l W (snd (allow rl ip t))"
  by (simp add: rl_ok_def allow_def Let_def jsm.ok_put)

lemma rl_cleanup_view:
  assumes "rl_ok l W rl"
  shows "rl_view (rl_cleanup rl t) ip = rl_view rl ip \<or>
    (rl_view (rl_cleanup rl t) ip = None \<and> (\<exists>c w. rl_view rl ip = Some (c, w) \<and> W < t - w))"
proof (cases "jm_get (rl_counters rl) ip")
  case None
  then show ?thesis using assms
    by (simp add: rl_view_def rl_cleanup_def rl_ok_def jm_get_delete_if)
next
  case (Some c)
  then show ?thesis using assms
    by (auto simp: rl_view_def rl_cleanup_def rl_ok_def jm_get_delete_if)
qed

lemma rl_cleanup_ok: "rl_ok l W rl \<Longrightarrow> rl_ok l W (rl_cleanup rl t)"
  by (simp add: rl_ok_def rl_cleanup_def jm_ok_delete_if)

interpretation rate: window_counter allow rl_cleanup rl_view "rl_ok l (int w)" l "int w" for l w
proof unfold_locales
  fix s :: rate_limiter and k :: ip and t j
  assume s: "rl_ok l (int w) s"
  then show "fst (allow s k t) \<longleftrightarrow> fst (next_window (int w) (rl_view s k) t) \<le> l"
    and "rl_view (snd (allow s k t)) j =
      (if j = k then Some (next_window (int w) (rl_view s k) t) else rl_view s j)"
    by (simp_all add: allow_view rl_ok_def)
  show "rl_ok l (int w) (snd (allow s k t))" using s by (rule allow_ok)
  show "rl_ok l (int w) (rl_cleanup s t)" using s by (rule rl_cleanup_ok)
  show "rl_view (rl_cleanup s t) k = rl_view s k \<or>
    (rl_view (rl_cleanup s t) k = None \<and> (\<exists>c v. rl_view s k = Some (c, v) \<and> int w < t - v))"
    using s by (rule rl_cleanup_view)
qed simp

text \<open>C21. The per-address limiter bounds an attacker over any stretch of time, whatever other addresses
  do and whenever the periodic cleanup runs: between \<open>t\<close> and \<open>E\<close> an address is admitted at most
  \<open>limit\<close> times per started window, plus the rest of the window in progress. And an address with no
  counter that makes at most \<open>limit\<close> requests is never refused.\<close>

theorem rate_limit_bound:
  assumes "jm_ok (rl_counters rl)" and "rl_windowMs rl = int w"
    and "sorted (t # map event_time es)" and "\<forall>e \<in> set es. event_time e \<le> E" and "t \<le> E"
  shows "admitted allow rl_cleanup ip rl es \<le> rl_limit rl * (nat ((E - t) div (int w + 1)) + 2) \<and>
    (jm_get (rl_counters rl) ip = None \<and> hits ip es \<le> rl_limit rl \<longrightarrow>
       admitted allow rl_cleanup ip rl es = hits ip es)"
proof (intro conjI impI)
  have ok: "rl_ok (rl_limit rl) (int w) rl" using assms by (simp add: rl_ok_def)
  show "admitted allow rl_cleanup ip rl es \<le> rl_limit rl * (nat ((E - t) div (int w + 1)) + 2)"
    using ok assms(3-5) by (rule rate.admitted_bound)
  assume "jm_get (rl_counters rl) ip = None \<and> hits ip es \<le> rl_limit rl"
  then show "admitted allow rl_cleanup ip rl es = hits ip es"
    using ok by (intro rate.admitted_all [where n = 0]) (auto simp: rl_view_def)
qed

theorem rate_limit_bound_witness:
  "admitted allow rl_cleanup ''a'' (new_rate_limiter 2 1000)
      [Hit ''a'' 10, Hit ''b'' 20, Hit ''a'' 500, Hit ''a'' 900, Tidy 950, Hit ''a'' 1005] \<le> 4 \<and>
   admitted allow rl_cleanup ''b'' (new_rate_limiter 2 1000)
      [Hit ''a'' 10, Hit ''b'' 20, Hit ''a'' 500, Hit ''a'' 900, Tidy 950, Hit ''a'' 1005] = 1"
  using rate_limit_bound [of "new_rate_limiter 2 1000" 1000 10
      "[Hit ''a'' 10, Hit ''b'' 20, Hit ''a'' 500, Hit ''a'' 900, Tidy 950, Hit ''a'' 1005]" 1010 "''a''"]
    rate_limit_bound [of "new_rate_limiter 2 1000" 1000 10
      "[Hit ''a'' 10, Hit ''b'' 20, Hit ''a'' 500, Hit ''a'' 900, Tidy 950, Hit ''a'' 1005]" 1010 "''b''"]
  by (simp add: new_rate_limiter_def)

end
