(* ===== verification/Blacklist.thy ===== *)
theory Blacklist
  imports Limits
begin

text \<open>
  \<open>src/network/ipBlacklist.js\<close>: infractions ("strikes") per address in a restarting window, a ban at
  the threshold, lazy and periodic rehabilitation. The locale \<open>ban_registry\<close> is what the servers rely
  on: a ban, once given, is in force until its end whatever else the registry is asked, and no longer.
\<close>

section \<open>The registry\<close>

record blacklist =
  bl_banMs :: time
  bl_strikeThreshold :: int
  bl_strikeWindowMs :: time
  bl_strikes :: "(ip, counter) jsmap"
  bl_bans :: "(ip, time) jsmap"

text \<open>The constructor's options: an absent or zero option selects the default of config.js.\<close>

definition new_blacklist :: "time option \<Rightarrow> int option \<Rightarrow> time option \<Rightarrow> blacklist" where
  "new_blacklist banMs strikeThreshold strikeWindowMs =
     \<lparr>bl_banMs = js_or banMs BLACKLIST_BAN_MS,
      bl_strikeThreshold = js_or strikeThreshold BLACKLIST_STRIKE_THRESHOLD,
      bl_strikeWindowMs = js_or strikeWindowMs BLACKLIST_STRIKE_WINDOW_MS,
      bl_strikes = [], bl_bans = []\<rparr>"

definition isBanned :: "blacklist \<Rightarrow> ip \<Rightarrow> time \<Rightarrow> bool \<times> blacklist" where
  "isBanned bl ip now =
     (case jm_get (bl_bans bl) ip of
        None \<Rightarrow> (False, bl)
      | Some until \<Rightarrow>
          if until \<le> now then (False, bl\<lparr>bl_bans := jm_delete (bl_bans bl) ip\<rparr>)
          else (True, bl))"

definition ban :: "blacklist \<Rightarrow> ip \<Rightarrow> time \<Rightarrow> time \<times> blacklist" where
  "ban bl ip now =
     (now + bl_banMs bl,
      bl\<lparr>bl_bans := jm_set (bl_bans bl) ip (now + bl_banMs bl),
         bl_strikes := jm_delete (bl_strikes bl) ip\<rparr>)"

record strike_result =
  sr_banned :: bool
  sr_count :: int

text \<open>
  \<open>strike\<close> calls \<open>isBanned\<close> and \<open>ban\<close> with its own \<open>now\<close>. The increment \<open>s.count++\<close> mutates the object
  in the map, so the incremented counter is stored before the threshold is tested.
\<close>

definition strike :: "blacklist \<Rightarrow> ip \<Rightarrow> time \<Rightarrow> strike_result \<times> blacklist" where
  "strike bl ip now =
     (case isBanned bl ip now of
        (True, bl) \<Rightarrow> (\<lparr>sr_banned = True, sr_count = bl_strikeThreshold bl\<rparr>, bl)
      | (False, bl) \<Rightarrow>
          let s = (case jm_get (bl_strikes bl) ip of
                     None \<Rightarrow> \<lparr>ct_count = 0, ct_windowStart = now\<rparr>
                   | Some s \<Rightarrow>
                       if bl_strikeWindowMs bl < now - ct_windowStart s
                       then \<lparr>ct_count = 0, ct_windowStart = now\<rparr> else s);
              s = s\<lparr>ct_count := ct_count s + 1\<rparr>;
              bl = bl\<lparr>bl_strikes := jm_set (bl_strikes bl) ip s\<rparr>
          in if bl_strikeThreshold bl \<le> int (ct_count s)
             then (\<lparr>sr_banned = True, sr_count = int (ct_count s)\<rparr>, snd (ban bl ip now))
             else (\<lparr>sr_banned = False, sr_count = int (ct_count s)\<rparr>, bl))"

definition bl_cleanup :: "blacklist \<Rightarrow> time \<Rightarrow> blacklist" where
  "bl_cleanup bl now =
     bl\<lparr>bl_bans := jm_delete_if (\<lambda>ip until. until \<le> now) (bl_bans bl),
        bl_strikes :=
          jm_delete_if (\<lambda>ip s. bl_strikeWindowMs bl < now - ct_windowStart s) (bl_strikes bl)\<rparr>"

definition bannedCount :: "blacklist \<Rightarrow> nat" where
  "bannedCount bl = jm_size (bl_bans bl)"

section \<open>What each operation does to bans and strikes\<close>

definition bl_until :: "blacklist \<Rightarrow> ip \<Rightarrow> time option" where
  "bl_until bl ip = jm_get (bl_bans bl) ip"

definition bl_view :: "blacklist \<Rightarrow> ip \<Rightarrow> (nat \<times> time) option" where
  "bl_view bl ip = map_option (\<lambda>c. (ct_count c, ct_windowStart c)) (jm_get (bl_strikes bl) ip)"

text \<open>
  The invariant: distinct keys, no address both banned and counted, and every count below the
  threshold.
\<close>

definition bl_ok :: "blacklist \<Rightarrow> bool" where
  "bl_ok bl \<longleftrightarrow> jm_ok (bl_bans bl) \<and> jm_ok (bl_strikes bl) \<and>
     (\<forall>ip. bl_until bl ip \<noteq> None \<longrightarrow> bl_view bl ip = None) \<and>
     (\<forall>ip c w. bl_view bl ip = Some (c, w) \<longrightarrow> int c < bl_strikeThreshold bl)"

lemma bl_ok_new: "bl_ok (new_blacklist a b c)"
  by (simp add: bl_ok_def new_blacklist_def bl_until_def bl_view_def)

definition in_force :: "time option \<Rightarrow> time \<Rightarrow> bool" where
  "in_force u now \<longleftrightarrow> (\<exists>t. u = Some t \<and> now < t)"

lemma isBanned_result: "fst (isBanned bl ip now) \<longleftrightarrow> in_force (bl_until bl ip) now"
  by (auto simp: isBanned_def bl_until_def in_force_def split: option.split)

lemma isBanned_until:
  "bl_until (snd (isBanned bl ip now)) j =
     (if j = ip \<and> \<not> in_force (bl_until bl ip) now then None else bl_until bl j)"
  by (auto simp: isBanned_def bl_until_def in_force_def split: option.split)

lemma isBanned_fields [simp]:
  "bl_banMs (snd (isBanned bl ip now)) = bl_banMs bl"
  "bl_strikeThreshold (snd (isBanned bl ip now)) = bl_strikeThreshold bl"
  "bl_strikeWindowMs (snd (isBanned bl ip now)) = bl_strikeWindowMs bl"
  "bl_strikes (snd (isBanned bl ip now)) = bl_strikes bl"
  by (simp_all add: isBanned_def split: option.split)

lemma isBanned_view [simp]: "bl_view (snd (isBanned bl ip now)) = bl_view bl"
  by (simp add: fun_eq_iff bl_view_def)

lemma isBanned_ok: "bl_ok bl \<Longrightarrow> bl_ok (snd (isBanned bl ip now))"
  by (auto simp: bl_ok_def isBanned_until isBanned_def jsm.ok_del bl_until_def bl_view_def
      split: option.split)

text \<open>A strike is a hit of a window counter for an address that is not banned.\<close>

lemma strike_eq:
  "strike bl ip now =
    (let bl1 = snd (isBanned bl ip now);
         (c, w) = next_window (bl_strikeWindowMs bl) (bl_view bl ip) now;
         bl2 = bl1\<lparr>bl_strikes := jm_set (bl_strikes bl) ip \<lparr>ct_count = c, ct_windowStart = w\<rparr>\<rparr>
     in if in_force (bl_until bl ip) now
        then (\<lparr>sr_banned = True, sr_count = bl_strikeThreshold bl\<rparr>, bl1)
        else if bl_strikeThreshold bl \<le> int c
        then (\<lparr>sr_banned = True, sr_count = int c\<rparr>, snd (ban bl2 ip now))
        else (\<lparr>sr_banned = False, sr_count = int c\<rparr>, bl2))"
proof -
  obtain b bl1 where i: "isBanned bl ip now = (b, bl1)" by (cases "isBanned bl ip now")
  have b: "b = in_force (bl_until bl ip) now" using isBanned_result [of bl ip now] i by simp
  have f: "bl_strikeThreshold bl1 = bl_strikeThreshold bl"
    "bl_strikeWindowMs bl1 = bl_strikeWindowMs bl" "bl_strikes bl1 = bl_strikes bl"
    using isBanned_fields [of bl ip now] i by simp_all
  show ?thesis
    by (cases "jm_get (bl_strikes bl) ip")
      (auto simp: strike_def i b f Let_def next_window_def bl_view_def counter_update split: bool.split)
qed

lemma strike_banned:
  "in_force (bl_until bl ip) now \<Longrightarrow> strike bl ip now =
     (\<lparr>sr_banned = True, sr_count = bl_strikeThreshold bl\<rparr>, snd (isBanned bl ip now))"
  by (simp add: strike_eq Let_def split: prod.split)

lemma strike_counts:
  assumes "\<not> in_force (bl_until bl ip) now"
    and "next_window (bl_strikeWindowMs bl) (bl_view bl ip) now = (c, w)"
  shows "sr_count (fst (strike bl ip now)) = int c"
    and "sr_banned (fst (strike bl ip now)) \<longleftrightarrow> bl_strikeThreshold bl \<le> int c"
    and "bl_until (snd (strike bl ip now)) j =
      (if j = ip then (if bl_strikeThreshold bl \<le> int c then Some (now + bl_banMs bl) else None)
       else bl_until bl j)"
    and "bl_view (snd (strike bl ip now)) j =
      (if j = ip then (if bl_strikeThreshold bl \<le> int c then None else Some (c, w))
       else bl_view bl j)"
proof -
  have none: "jm_get (bl_bans (snd (isBanned bl ip now))) ip = None"
    using isBanned_until [of bl ip now ip] assms(1) by (simp add: bl_until_def)
  show "sr_count (fst (strike bl ip now)) = int c"
    and "sr_banned (fst (strike bl ip now)) \<longleftrightarrow> bl_strikeThreshold bl \<le> int c"
    using assms by (simp_all add: strike_eq Let_def)
  show "bl_until (snd (strike bl ip now)) j =
      (if j = ip then (if bl_strikeThreshold bl \<le> int c then Some (now + bl_banMs bl) else None)
       else bl_until bl j)"
    using assms none isBanned_until [of bl ip now j]
    by (auto simp: strike_eq Let_def ban_def bl_until_def)
  show "bl_view (snd (strike bl ip now)) j =
      (if j = ip then (if bl_strikeThreshold bl \<le> int c then None else Some (c, w))
       else bl_view bl j)"
    using assms by (auto simp: strike_eq Let_def ban_def bl_view_def)
qed

lemma strike_fields [simp]:
  "bl_banMs (snd (strike bl ip now)) = bl_banMs bl"
  "bl_strikeThreshold (snd (strike bl ip now)) = bl_strikeThreshold bl"
  "bl_strikeWindowMs (snd (strike bl ip now)) = bl_strikeWindowMs bl"
  by (simp_all add: strike_eq Let_def ban_def split: prod.split)

lemma strike_ok:
  assumes "bl_ok bl"
  shows "bl_ok (snd (strike bl ip now))"
proof (cases "in_force (bl_until bl ip) now")
  case True
  then show ?thesis using assms by (simp add: strike_banned isBanned_ok)
next
  case False
  obtain c w where nw: "next_window (bl_strikeWindowMs bl) (bl_view bl ip) now = (c, w)"
    by (cases "next_window (bl_strikeWindowMs bl) (bl_view bl ip) now")
  note sc = strike_counts [OF False nw]
  have "jm_ok (bl_bans (snd (isBanned bl ip now)))"
    using isBanned_ok [OF assms] by (simp add: bl_ok_def)
  then have "jm_ok (bl_bans (snd (strike bl ip now)))" "jm_ok (bl_strikes (snd (strike bl ip now)))"
    using assms False nw
    by (auto simp: strike_eq Let_def ban_def bl_ok_def jsm.ok_put jsm.ok_del)
  then show ?thesis using assms by (auto simp: bl_ok_def sc(3,4))
qed

lemma ban_ok: "bl_ok bl \<Longrightarrow> bl_ok (snd (ban bl ip now))"
  by (auto simp: bl_ok_def ban_def jsm.ok_put jsm.ok_del bl_until_def bl_view_def split: if_splits)

lemma cleanup_until:
  "bl_ok bl \<Longrightarrow> bl_until (bl_cleanup bl now) ip =
     (if in_force (bl_until bl ip) now then bl_until bl ip else None)"
  by (auto simp: bl_ok_def bl_cleanup_def bl_until_def jm_get_delete_if in_force_def split: option.split)

lemma cleanup_view:
  "bl_ok bl \<Longrightarrow> bl_view (bl_cleanup bl now) ip =
     (case bl_view bl ip of None \<Rightarrow> None
      | Some (c, w) \<Rightarrow> if bl_strikeWindowMs bl < now - w then None else Some (c, w))"
  by (auto simp: bl_ok_def bl_cleanup_def bl_view_def jm_get_delete_if split: option.split)

lemma cleanup_fields [simp]:
  "bl_banMs (bl_cleanup bl now) = bl_banMs bl"
  "bl_strikeThreshold (bl_cleanup bl now) = bl_strikeThreshold bl"
  "bl_strikeWindowMs (bl_cleanup bl now) = bl_strikeWindowMs bl"
  by (simp_all add: bl_cleanup_def)

lemma cleanup_ok:
  assumes "bl_ok bl"
  shows "bl_ok (bl_cleanup bl now)"
proof -
  have "jm_ok (bl_bans (bl_cleanup bl now))" "jm_ok (bl_strikes (bl_cleanup bl now))"
    using assms by (simp_all add: bl_ok_def bl_cleanup_def jm_ok_delete_if)
  then show ?thesis
    using assms
    by (auto simp: bl_ok_def cleanup_until [OF assms] cleanup_view [OF assms]
        split: option.splits if_splits) blast+
qed

section \<open>The contract the servers rely on\<close>

datatype reg_event = Ask ip time | Punish ip time | Sweep time

fun reg_time :: "reg_event \<Rightarrow> time" where
  "reg_time (Ask ip t) = t"
| "reg_time (Punish ip t) = t"
| "reg_time (Sweep t) = t"

fun run_registry ::
    "('s \<Rightarrow> ip \<Rightarrow> time \<Rightarrow> bool \<times> 's) \<Rightarrow> ('s \<Rightarrow> ip \<Rightarrow> time \<Rightarrow> strike_result \<times> 's) \<Rightarrow>
     ('s \<Rightarrow> time \<Rightarrow> 's) \<Rightarrow> 's \<Rightarrow> reg_event list \<Rightarrow> 's" where
  "run_registry banned punish tidy s [] = s"
| "run_registry banned punish tidy s (e # es) =
     run_registry banned punish tidy
       (case e of
          Ask ip t \<Rightarrow> snd (banned s ip t)
        | Punish ip t \<Rightarrow> snd (punish s ip t)
        | Sweep t \<Rightarrow> tidy s t) es"

fun punishments :: "ip \<Rightarrow> reg_event list \<Rightarrow> nat" where
  "punishments ip [] = 0"
| "punishments ip (Punish j t # es) = (if j = ip then 1 else 0) + punishments ip es"
| "punishments ip (Ask j t # es) = punishments ip es"
| "punishments ip (Sweep t # es) = punishments ip es"

locale ban_registry =
  fixes banned :: "'s \<Rightarrow> ip \<Rightarrow> time \<Rightarrow> bool \<times> 's"
    and punish :: "'s \<Rightarrow> ip \<Rightarrow> time \<Rightarrow> strike_result \<times> 's"
    and tidy :: "'s \<Rightarrow> time \<Rightarrow> 's"
    and until :: "'s \<Rightarrow> ip \<Rightarrow> time option"
    and ok :: "'s \<Rightarrow> bool"
    and duration :: time
  assumes banned_result: "ok s \<Longrightarrow> fst (banned s ip t) \<longleftrightarrow> in_force (until s ip) t"
    and banned_until: "ok s \<Longrightarrow> until (snd (banned s ip t)) j =
      (if j = ip \<and> \<not> in_force (until s ip) t then None else until s j)"
    and punish_in_force: "ok s \<Longrightarrow> in_force (until s ip) t \<Longrightarrow> sr_banned (fst (punish s ip t))"
    and punish_until: "ok s \<Longrightarrow> until (snd (punish s ip t)) j =
      (if j \<noteq> ip \<or> in_force (until s ip) t then until s j
       else if sr_banned (fst (punish s ip t)) then Some (t + duration) else None)"
    and tidy_until: "ok s \<Longrightarrow> until (tidy s t) ip =
      (if in_force (until s ip) t then until s ip else None)"
    and ok_banned: "ok s \<Longrightarrow> ok (snd (banned s ip t))"
    and ok_punish: "ok s \<Longrightarrow> ok (snd (punish s ip t))"
    and ok_tidy: "ok s \<Longrightarrow> ok (tidy s t)"
begin

abbreviation run where "run \<equiv> run_registry banned punish tidy"

lemma ok_run: "ok s \<Longrightarrow> ok (run s es)"
  by (induction es arbitrary: s) (auto simp: ok_banned ok_punish ok_tidy split: reg_event.split)

lemma ban_kept:
  assumes "ok s" and "until s ip = Some u" and "\<forall>e \<in> set es. reg_time e < u"
  shows "until (run s es) ip = Some u"
  using assms
proof (induction es arbitrary: s)
  case (Cons e es)
  let ?s = "case e of Ask j t \<Rightarrow> snd (banned s j t) | Punish j t \<Rightarrow> snd (punish s j t)
    | Sweep t \<Rightarrow> tidy s t"
  have "in_force (until s ip) (reg_time e)" using Cons.prems by (simp add: in_force_def)
  then have "until ?s ip = Some u"
    using Cons.prems(1,2) by (cases e) (auto simp: banned_until punish_until tidy_until)
  moreover have "ok ?s"
    using Cons.prems(1) by (cases e) (simp_all add: ok_banned ok_punish ok_tidy)
  ultimately show ?case using Cons.IH [of ?s] Cons.prems(3) by simp
qed simp

lemma ban_in_force:
  assumes "ok s" and "until s ip = Some u" and "\<forall>e \<in> set es. reg_time e < u" and "now < u"
  shows "fst (banned (run s es) ip now)"
  using ban_kept [OF assms(1-3)] assms(1,4) by (simp add: banned_result ok_run in_force_def)

lemma ban_released:
  assumes "ok s" and "\<forall>t. until s ip = Some t \<longrightarrow> t \<le> u" and "punishments ip es = 0" and "u \<le> now"
  shows "\<not> fst (banned (run s es) ip now)"
  using assms
proof (induction es arbitrary: s)
  case Nil
  then show ?case by (auto simp: banned_result in_force_def)
next
  case (Cons e es)
  show ?case
  proof (cases e)
    case (Ask j t)
    have "\<forall>t'. until (snd (banned s j t)) ip = Some t' \<longrightarrow> t' \<le> u"
      using Cons.prems(1,2) by (simp add: banned_until)
    then show ?thesis using Cons Ask by (simp add: ok_banned)
  next
    case (Punish j t)
    then have "j \<noteq> ip" using Cons.prems(3) by auto
    then show ?thesis using Cons Punish by (simp add: ok_punish punish_until)
  next
    case (Sweep t)
    have "\<forall>t'. until (tidy s t) ip = Some t' \<longrightarrow> t' \<le> u"
      using Cons.prems(1,2) by (simp add: tidy_until)
    then show ?thesis using Cons Sweep by (simp add: ok_tidy)
  qed
qed

end

section \<open>The blacklist satisfies it\<close>

definition bl_inv :: "time \<Rightarrow> blacklist \<Rightarrow> bool" where
  "bl_inv d bl \<longleftrightarrow> bl_ok bl \<and> bl_banMs bl = d"

lemma strike_until:
  "bl_until (snd (strike bl ip t)) j =
     (if j \<noteq> ip \<or> in_force (bl_until bl ip) t
      then (if j = ip then bl_until bl ip else bl_until bl j)
      else if sr_banned (fst (strike bl ip t)) then Some (t + bl_banMs bl) else None)"
proof (cases "in_force (bl_until bl ip) t")
  case True
  then show ?thesis by (simp add: strike_banned isBanned_until)
next
  case False
  obtain c w where "next_window (bl_strikeWindowMs bl) (bl_view bl ip) t = (c, w)"
    by (cases "next_window (bl_strikeWindowMs bl) (bl_view bl ip) t")
  from strike_counts [OF False this] False show ?thesis by simp
qed

interpretation registry: ban_registry isBanned strike bl_cleanup bl_until "bl_inv d" d for d
proof unfold_locales
  fix s :: blacklist and ip j t
  assume s: "bl_inv d s"
  then have ok: "bl_ok s" and d: "bl_banMs s = d" by (simp_all add: bl_inv_def)
  show "fst (isBanned s ip t) \<longleftrightarrow> in_force (bl_until s ip) t" by (rule isBanned_result)
  show "bl_until (snd (isBanned s ip t)) j =
      (if j = ip \<and> \<not> in_force (bl_until s ip) t then None else bl_until s j)"
    by (rule isBanned_until)
  show "bl_until (snd (strike s ip t)) j =
      (if j \<noteq> ip \<or> in_force (bl_until s ip) t then bl_until s j
       else if sr_banned (fst (strike s ip t)) then Some (t + d) else None)"
    by (simp add: strike_until d)
  show "bl_until (bl_cleanup s t) ip =
      (if in_force (bl_until s ip) t then bl_until s ip else None)"
    using ok by (rule cleanup_until)
  show "bl_inv d (snd (isBanned s ip t))" "bl_inv d (snd (strike s ip t))" "bl_inv d (bl_cleanup s t)"
    using ok d by (simp_all add: bl_inv_def isBanned_ok strike_ok cleanup_ok)
  show "in_force (bl_until s ip) t \<Longrightarrow> sr_banned (fst (strike s ip t))"
    by (simp add: strike_banned)
qed

definition bl_run :: "blacklist \<Rightarrow> reg_event list \<Rightarrow> blacklist" where
  "bl_run = run_registry isBanned strike bl_cleanup"

lemma bl_run_ok: "bl_ok bl \<Longrightarrow> bl_ok (bl_run bl es)"
  using registry.ok_run [of "bl_banMs bl" bl es] by (simp add: bl_run_def bl_inv_def)

text \<open>A ban is enforced for its full duration and not beyond: once a strike at time \<open>t\<close> bans an
  address that was not banned, every query before \<open>t + banMs\<close> finds it banned, whatever strikes, queries
  and cleanups happen in between; and from \<open>t + banMs\<close> on, without new strikes against it, it is free
  again.\<close>

theorem ban_enforced_and_released:
  assumes "bl_ok bl" and "\<not> fst (isBanned bl ip t)" and "sr_banned (fst (strike bl ip t))"
  shows "(\<forall>es now. (\<forall>e \<in> set es. reg_time e < t + bl_banMs bl) \<and> now < t + bl_banMs bl \<longrightarrow>
      fst (isBanned (bl_run (snd (strike bl ip t)) es) ip now)) \<and>
    (\<forall>es now. punishments ip es = 0 \<and> t + bl_banMs bl \<le> now \<longrightarrow>
      \<not> fst (isBanned (bl_run (snd (strike bl ip t)) es) ip now))"
proof -
  let ?bl = "snd (strike bl ip t)"
  have inv: "bl_inv (bl_banMs bl) ?bl" using assms(1) by (simp add: bl_inv_def strike_ok)
  have u: "bl_until ?bl ip = Some (t + bl_banMs bl)"
    using assms(2,3) by (simp add: strike_until isBanned_result)
  show ?thesis
    using registry.ban_in_force [OF inv u] registry.ban_released [OF inv, of ip "t + bl_banMs bl"] u
    by (auto simp: bl_run_def)
qed

theorem ban_enforced_and_released_witness:
  "fst (isBanned (bl_run (snd (strike (new_blacklist (Some 100) (Some 1) None) ''a'' 5))
      [Sweep 50, Punish ''b'' 60, Ask ''a'' 70]) ''a'' 104) \<and>
   \<not> fst (isBanned (bl_run (snd (strike (new_blacklist (Some 100) (Some 1) None) ''a'' 5)) [Sweep 50]) ''a'' 105)"
proof -
  let ?bl = "new_blacklist (Some 100) (Some 1) None"
  have f: "bl_banMs ?bl = 100" by (simp add: new_blacklist_def js_or_def)
  have "\<not> fst (isBanned ?bl ''a'' 5)" "sr_banned (fst (strike ?bl ''a'' 5))"
    by (simp_all add: new_blacklist_def js_or_def isBanned_def strike_def Let_def)
  then show ?thesis using ban_enforced_and_released [OF bl_ok_new [of "Some 100" "Some 1" None], of "''a''" 5]
    by (simp add: f)
qed

text \<open>
  The strikes against an unbanned address, counted through any interleaving with other operations.
\<close>

definition counted :: "blacklist \<Rightarrow> ip \<Rightarrow> nat \<Rightarrow> time \<Rightarrow> bool" where
  "counted bl ip n t0 \<longleftrightarrow> bl_until bl ip = None \<and>
     (if n = 0 then bl_view bl ip = None else \<exists>w \<ge> t0. bl_view bl ip = Some (n, w))"

lemma counted_next:
  assumes "counted bl ip n t0" and "t0 \<le> t" and "t \<le> t0 + bl_strikeWindowMs bl"
  shows "\<exists>w \<ge> t0. next_window (bl_strikeWindowMs bl) (bl_view bl ip) t = (Suc n, w)"
  using assms by (cases "n = 0") (auto simp: counted_def next_window_def)

lemma counted_step:
  assumes "counted bl ip n t0" and "bl_ok bl" and "t0 \<le> reg_time e"
    and "reg_time e \<le> t0 + bl_strikeWindowMs bl"
    and "int (n + punishments ip [e]) < bl_strikeThreshold bl"
  shows "counted (bl_run bl [e]) ip (n + punishments ip [e]) t0"
proof (cases e)
  case (Ask j t)
  then show ?thesis using assms(1) by (auto simp: bl_run_def counted_def isBanned_until)
next
  case (Sweep t)
  then show ?thesis using assms
    by (auto simp: bl_run_def counted_def cleanup_until cleanup_view in_force_def)
next
  case (Punish j t)
  show ?thesis
  proof (cases "j = ip")
    case True
    have free: "\<not> in_force (bl_until bl ip) t" using assms(1) by (simp add: counted_def in_force_def)
    obtain w where w: "t0 \<le> w"
      "next_window (bl_strikeWindowMs bl) (bl_view bl ip) t = (Suc n, w)"
      using counted_next [OF assms(1), of t] assms(3,4) Punish by auto
    show ?thesis using strike_counts [OF free w(2)] assms(5) w(1) Punish True
      by (auto simp: bl_run_def counted_def)
  next
    case False
    obtain c w where nw: "next_window (bl_strikeWindowMs bl) (bl_view bl j) t = (c, w)"
      by (cases "next_window (bl_strikeWindowMs bl) (bl_view bl j) t")
    have "bl_until (snd (strike bl j t)) ip = bl_until bl ip"
      using False by (simp add: strike_until)
    moreover have "bl_view (snd (strike bl j t)) ip = bl_view bl ip"
      using False strike_counts [OF _ nw] by (cases "in_force (bl_until bl j) t") (auto simp: strike_banned)
    ultimately show ?thesis using assms(1) Punish False by (simp add: bl_run_def counted_def)
  qed
qed

lemma bl_run_Cons: "bl_run bl (e # es) = bl_run (bl_run bl [e]) es"
  by (simp add: bl_run_def)

lemma bl_run_fields [simp]:
  "bl_banMs (bl_run bl es) = bl_banMs bl"
  "bl_strikeThreshold (bl_run bl es) = bl_strikeThreshold bl"
  "bl_strikeWindowMs (bl_run bl es) = bl_strikeWindowMs bl"
  by (induction es arbitrary: bl) (simp_all add: bl_run_def split: reg_event.split)

lemma punishments_Cons: "punishments ip (e # es) = punishments ip [e] + punishments ip es"
  by (cases e) simp_all

lemma counted_run:
  assumes "counted bl ip n t0" and "bl_ok bl"
    and "\<forall>e \<in> set es. t0 \<le> reg_time e \<and> reg_time e \<le> t0 + bl_strikeWindowMs bl"
    and "int (n + punishments ip es) < bl_strikeThreshold bl"
  shows "counted (bl_run bl es) ip (n + punishments ip es) t0"
  using assms
proof (induction es arbitrary: bl n)
  case Nil
  then show ?case by (simp add: bl_run_def)
next
  case (Cons e es)
  have p: "punishments ip (e # es) = punishments ip [e] + punishments ip es"
    by (rule punishments_Cons)
  have "counted (bl_run bl [e]) ip (n + punishments ip [e]) t0"
    using Cons.prems p by (intro counted_step) auto
  then have "counted (bl_run (bl_run bl [e]) es) ip (n + punishments ip [e] + punishments ip es) t0"
    using Cons.prems p by (intro Cons.IH) (auto simp: bl_run_ok)
  then show ?case using p bl_run_Cons [of bl e es] by (simp add: add.assoc)
qed

text \<open>Infractions lead to a ban, exactly at the threshold: for an address with a clean record, as
  long as all operations fall within one strike window, every strike below the threshold is counted and
  does not ban (whatever is done to other addresses and whenever the cleanup runs), and the strike that
  reaches the threshold bans the address until \<open>t + banMs\<close>.\<close>

theorem strikes_lead_to_ban:
  assumes "bl_ok bl" and "bl_until bl ip = None" and "bl_view bl ip = None"
    and "\<forall>e \<in> set es. t0 \<le> reg_time e \<and> reg_time e \<le> t0 + bl_strikeWindowMs bl"
    and "t0 \<le> t" and "t \<le> t0 + bl_strikeWindowMs bl"
    and "int (punishments ip es) < bl_strikeThreshold bl"
  shows "fst (strike (bl_run bl es) ip t) =
      \<lparr>sr_banned = (bl_strikeThreshold bl \<le> int (punishments ip es) + 1),
       sr_count = int (punishments ip es) + 1\<rparr> \<and>
    bl_until (snd (strike (bl_run bl es) ip t)) ip =
      (if bl_strikeThreshold bl \<le> int (punishments ip es) + 1 then Some (t + bl_banMs bl) else None)"
proof -
  let ?bl = "bl_run bl es"
  have "counted bl ip 0 t0" using assms(2,3) by (simp add: counted_def)
  then have c: "counted ?bl ip (punishments ip es) t0"
    using counted_run [of bl ip 0 t0 es] assms by simp
  then have free: "\<not> in_force (bl_until ?bl ip) t" by (simp add: counted_def in_force_def)
  obtain w where "next_window (bl_strikeWindowMs ?bl) (bl_view ?bl ip) t = (Suc (punishments ip es), w)"
    using counted_next [OF c assms(5)] assms(6) by auto
  from strike_counts [OF free this]
  show ?thesis
    by (auto intro: strike_result.equality simp: add.commute)
qed

theorem strikes_lead_to_ban_witness:
  "sr_banned (fst (strike (bl_run (new_blacklist None (Some 2) None) [Punish ''a'' 10, Sweep 20, Punish ''b'' 30]) ''a'' 40)) \<and>
   bl_until (snd (strike (bl_run (new_blacklist None (Some 2) None) [Punish ''a'' 10, Sweep 20, Punish ''b'' 30]) ''a'' 40)) ''a'' = Some 300040"
  using strikes_lead_to_ban [OF bl_ok_new [of None "Some 2" None], of "''a''"
      "[Punish ''a'' 10, Sweep 20, Punish ''b'' 30]" 10 40]
  by (simp add: new_blacklist_def js_or_def bl_until_def bl_view_def BLACKLIST_STRIKE_WINDOW_MS_def
      BLACKLIST_BAN_MS_def)

section \<open>Bans that last\<close>

lemma bl_run_append: "bl_run bl (a @ b) = bl_run (bl_run bl a) b"
proof (induction a arbitrary: bl)
  case (Cons e a)
  have "bl_run bl ((e # a) @ b) = bl_run (bl_run bl [e]) (a @ b)"
    using bl_run_Cons [of bl e "a @ b"] by simp
  then show ?case using Cons.IH bl_run_Cons [of bl e a] by simp
qed (simp add: bl_run_def)

lemma punishments_append: "punishments ip (a @ b) = punishments ip a + punishments ip b"
proof (induction a)
  case (Cons e a)
  then show ?case using punishments_Cons [of ip e "a @ b"] punishments_Cons [of ip e a] by simp
qed simp

lemma ban_reached:
  assumes "counted bl ip n t0" and "bl_ok bl" and "bl_strikeWindowMs bl < bl_banMs bl"
    and "\<forall>e \<in> set rs. t0 \<le> reg_time e \<and> reg_time e \<le> t0 + bl_strikeWindowMs bl"
    and "int n < bl_strikeThreshold bl" and "bl_strikeThreshold bl \<le> int (n + punishments ip rs)"
  shows "\<exists>u \<ge> t0 + bl_banMs bl. bl_until (bl_run bl rs) ip = Some u"
  using assms
proof (induction rs arbitrary: bl n)
  case (Cons e rs)
  have p: "punishments ip (e # rs) = punishments ip [e] + punishments ip rs"
    by (rule punishments_Cons)
  show ?case
  proof (cases "int (n + punishments ip [e]) < bl_strikeThreshold bl")
    case True
    have "counted (bl_run bl [e]) ip (n + punishments ip [e]) t0"
      using Cons.prems True by (intro counted_step) auto
    from Cons.IH [OF this] show ?thesis
      using Cons.prems True p bl_run_Cons [of bl e rs] by (auto simp: bl_run_ok)
  next
    case False
    then obtain t where e: "e = Punish ip t"
      using Cons.prems(5) by (cases e) (auto split: if_splits)
    have free: "\<not> in_force (bl_until bl ip) t" using Cons.prems(1) by (simp add: counted_def in_force_def)
    obtain w where nw: "next_window (bl_strikeWindowMs bl) (bl_view bl ip) t = (Suc n, w)"
      using counted_next [OF Cons.prems(1), of t] Cons.prems(4) e by auto
    have u: "bl_until (bl_run bl [e]) ip = Some (t + bl_banMs bl)"
      using strike_counts(3) [OF free nw, of ip] False e by (simp add: bl_run_def)
    have inv: "bl_inv (bl_banMs bl) (bl_run bl [e])" using Cons.prems(2) by (simp add: bl_inv_def bl_run_ok)
    have "\<forall>e \<in> set rs. reg_time e < t + bl_banMs bl" using Cons.prems(3,4) e by fastforce
    then have "bl_until (bl_run (bl_run bl [e]) rs) ip = Some (t + bl_banMs bl)"
      using registry.ban_kept [OF inv u] by (simp add: bl_run_def)
    moreover have "t0 \<le> t" using Cons.prems(4) e by simp
    ultimately show ?thesis using bl_run_Cons [of bl e rs] by simp
  qed
qed simp

text \<open>What both servers rely on: enough strikes in one window, and the address is banned from then on.\<close>

lemma ban_lasts:
  assumes "bl_ok bl" and "bl_until bl ip = None" and "bl_view bl ip = None"
    and "bl_strikeWindowMs bl < bl_banMs bl" and "0 < bl_strikeThreshold bl"
    and "\<forall>e \<in> set rs. t0 \<le> reg_time e \<and> reg_time e \<le> t0 + bl_strikeWindowMs bl"
    and "bl_strikeThreshold bl \<le> int (punishments ip rs)"
    and "\<forall>e \<in> set later. reg_time e < t0 + bl_banMs bl" and "now < t0 + bl_banMs bl"
  shows "isBanned (bl_run (bl_run bl rs) later) ip now = (True, bl_run (bl_run bl rs) later)"
proof -
  have c: "counted bl ip 0 t0" using assms(2,3) by (simp add: counted_def)
  obtain u where u: "t0 + bl_banMs bl \<le> u" "bl_until (bl_run bl rs) ip = Some u"
    using ban_reached [OF c assms(1,4,6)] assms(5,7) by auto
  have inv: "bl_inv (bl_banMs (bl_run bl rs)) (bl_run bl rs)" using assms(1) by (simp add: bl_inv_def bl_run_ok)
  have "\<forall>e \<in> set later. reg_time e < u" using assms(8) u(1) by fastforce
  from registry.ban_kept [OF inv u(2) this] have "bl_until (bl_run (bl_run bl rs) later) ip = Some u"
    by (simp add: bl_run_def)
  then show ?thesis using u(1) assms(9) by (simp add: isBanned_def bl_until_def)
qed

end
