(* ===== verification/AttackLog.thy ===== *)
theory AttackLog
  imports Replay Blacklist
begin

text \<open>
  \<open>src/security/attackLog.js\<close>: the entries of the attack log that both servers write, and its
  best-effort file. A \<open>clock\<close> gives the successive readings of \<open>Date.now()\<close> during one callback.
\<close>

type_synonym clock = "nat \<Rightarrow> time"

datatype attack_type =
    BannedReconnect | BufferOverflow | RateLimitSocket | RateLimitIp | HmacInvalid
  | SignatureInvalid | ReplayAttack | MalformedPacket | Slowloris
  | OversizeFrame | RateLimitFrame | CryptoError | SessionRateLimit | SessionReplayAttack

text \<open>The \<open>meta\<close> argument: what the call adds, and the strike's outcome when there was one.\<close>

datatype detail =
    NoDetail | BufferLen nat | PacketCount nat | Reason replay_reason | ErrorMessage error | Seq nat

record attack =
  at_ts :: time
  at_type :: attack_type
  at_ip :: ip
  at_detail :: detail
  at_strike :: "strike_result option"

definition logAttack :: "time \<Rightarrow> attack_type \<Rightarrow> ip \<Rightarrow> detail \<Rightarrow> strike_result option \<Rightarrow> attack" where
  "logAttack now type ip detail res =
     \<lparr>at_ts = now, at_type = type, at_ip = (if ip = '''' then ''unknown'' else ip),
      at_detail = detail, at_strike = res\<rparr>"

text \<open>
  The file behind the log: the directory is created on first success, and neither a failing \<open>mkdir\<close>
  nor a failing append stops the caller. \<open>mk\<close> and \<open>ap\<close> say whether the two file-system calls succeed.
\<close>

record attack_log =
  al_dirReady :: bool
  al_lines :: "attack list"

definition ensureDir :: "bool \<Rightarrow> attack_log \<Rightarrow> attack_log" where
  "ensureDir mk al = (if al_dirReady al then al else if mk then al\<lparr>al_dirReady := True\<rparr> else al)"

definition append_entry :: "bool \<Rightarrow> bool \<Rightarrow> attack \<Rightarrow> attack_log \<Rightarrow> attack_log" where
  "append_entry mk ap entry al =
     (let al = ensureDir mk al in if ap then al\<lparr>al_lines := al_lines al @ [entry]\<rparr> else al)"

end
