(* ===== verification/TcpServer.thy ===== *)
theory TcpServer
  imports Packet AttackLog
begin

text \<open>
  \<open>src/network/tcpServer.js\<close>, the server of the packet protocol.

  The state shared by all connections (replay guard, per-address limiter, blacklist) is the record
  \<open>server\<close>; the variables captured by one connection's callbacks are the record \<open>tsock\<close>. Each callback is
  a function from both to both, with the effects it has outside (log entries, accepted packets,
  destruction of the socket) as a list. Every \<open>Date.now()\<close> is a reading of the clock argument:
  \<open>clk k\<close> is the \<open>k\<close>-th reading of the callback, and in the loop over packets \<open>clk i k\<close> the \<open>k\<close>-th reading
  of iteration \<open>i\<close>.
\<close>

section \<open>State\<close>

text \<open>What the process has: libsodium and OpenSSL, its keys, the HMAC secret.\<close>

record env =
  ev_crypto :: crypto
  ev_keys :: keystore
  ev_secret :: "bytes option"

record server =
  sv_replay :: replay_guard
  sv_limiter :: rate_limiter
  sv_blacklist :: blacklist

record tsock =
  ts_ip :: ip
  ts_buffer :: bytes
  ts_lastActivity :: time
  ts_connectionStart :: time
  ts_packetCount :: nat
  ts_rateWindowStart :: time
  ts_destroyed :: bool

datatype effect =
    Attack attack
  | Accepted bytes nat bytes   \<comment> \<open>raw packet, type, application data\<close>
  | Destroyed

definition new_server :: server where
  "new_server =
     \<lparr>sv_replay = new_replay_guard REPLAY_WINDOW_MS REPLAY_CACHE_MAX,
      sv_limiter = new_rate_limiter MAX_PACKETS_PER_SECOND_PER_IP 1000,
      sv_blacklist = new_blacklist None None None\<rparr>"

section \<open>Callbacks\<close>

text \<open>\<open>createServer\<close>'s callback: refusal of banned addresses, or a fresh connection.\<close>

definition on_connection :: "ip \<Rightarrow> clock \<Rightarrow> server \<Rightarrow> tsock option \<times> server \<times> effect list" where
  "on_connection ip clk sv =
     (case isBanned (sv_blacklist sv) ip (clk 0) of
        (True, bl) \<Rightarrow>
          (None, sv\<lparr>sv_blacklist := bl\<rparr>,
           [Attack (logAttack (clk 1) BannedReconnect ip NoDetail None), Destroyed])
      | (False, bl) \<Rightarrow>
          (Some \<lparr>ts_ip = ip, ts_buffer = [], ts_lastActivity = clk 1, ts_connectionStart = clk 2,
                 ts_packetCount = 0, ts_rateWindowStart = clk 3, ts_destroyed = False\<rparr>,
           sv\<lparr>sv_blacklist := bl\<rparr>, []))"

definition flagAttack ::
    "attack_type \<Rightarrow> detail \<Rightarrow> clock \<Rightarrow> server \<Rightarrow> tsock \<Rightarrow> server \<times> tsock \<times> effect list" where
  "flagAttack type detail clk sv sk =
     (case strike (sv_blacklist sv) (ts_ip sk) (clk 0) of
        (res, bl) \<Rightarrow>
          (sv\<lparr>sv_blacklist := bl\<rparr>, sk\<lparr>ts_destroyed := True\<rparr>,
           [Attack (logAttack (clk 1) type (ts_ip sk) detail (Some res)), Destroyed]))"

text \<open>One iteration of the loop over the extracted packets, up to its outcome.\<close>

datatype verdict = Pass nat bytes | Flag attack_type detail | Throw error

definition rate_socket :: "time \<Rightarrow> tsock \<Rightarrow> tsock" where
  "rate_socket now sk =
     (let sk = (if 1000 < now - ts_rateWindowStart sk
                then sk\<lparr>ts_packetCount := 0, ts_rateWindowStart := now\<rparr> else sk)
      in sk\<lparr>ts_packetCount := ts_packetCount sk + 1\<rparr>)"

definition authenticate :: "env \<Rightarrow> bytes \<Rightarrow> verdict + packet" where
  "authenticate E p =
     (case verifyPacket (ev_crypto E) (ev_secret E) p of
        Inl e \<Rightarrow> Inl (Throw e)
      | Inr False \<Rightarrow> Inl (Flag HmacInvalid NoDetail)
      | Inr True \<Rightarrow>
          (case parsePacket p of
             Inl e \<Rightarrow> Inl (Throw e)
           | Inr parsed \<Rightarrow>
               (case verifySignature (ev_crypto E) (ev_keys E) parsed of
                  Inl e \<Rightarrow> Inl (Throw e)
                | Inr False \<Rightarrow> Inl (Flag SignatureInvalid NoDetail)
                | Inr True \<Rightarrow> Inr parsed)))"

definition packet_step ::
    "env \<Rightarrow> time \<Rightarrow> bytes \<Rightarrow> server \<Rightarrow> tsock \<Rightarrow> verdict \<times> server \<times> tsock" where
  "packet_step E now p sv sk =
     (let sk = rate_socket now sk in
      if MAX_PACKETS_PER_SECOND < ts_packetCount sk
      then (Flag RateLimitSocket (PacketCount (ts_packetCount sk)), sv, sk)
      else case allow (sv_limiter sv) (ts_ip sk) now of (allowed, rl) \<Rightarrow>
        let sv = sv\<lparr>sv_limiter := rl\<rparr> in
        if \<not> allowed then (Flag RateLimitIp NoDetail, sv, sk)
        else case authenticate E p of
          Inl v \<Rightarrow> (v, sv, sk)
        | Inr parsed \<Rightarrow>
            (case unwrapPayload (pk_payload parsed) of
               Inl e \<Rightarrow> (Throw e, sv, sk)
             | Inr (timestamp, nonce, appData) \<Rightarrow>
                 (case check (sv_replay sv) (pk_nodeId parsed) (Some timestamp) nonce now of
                    (ReplayBad reason, g) \<Rightarrow>
                      (Flag ReplayAttack (Reason reason), sv\<lparr>sv_replay := g\<rparr>, sk)
                  | (ReplayOk, g) \<Rightarrow>
                      (Pass (pk_type parsed) appData, sv\<lparr>sv_replay := g\<rparr>, sk))))"

text \<open>
  The loop, with the accepted packets so far; it ends normally (\<open>None\<close>), or early: a flagged attack
  returns from the callback, an exception reaches its \<open>catch\<close>.
\<close>

fun packet_loop ::
    "env \<Rightarrow> (nat \<Rightarrow> clock) \<Rightarrow> nat \<Rightarrow> bytes list \<Rightarrow> server \<Rightarrow> tsock \<Rightarrow>
     (attack_type \<times> detail \<times> nat) option \<times> server \<times> tsock \<times> effect list" where
  "packet_loop E clk i [] sv sk = (None, sv, sk, [])"
| "packet_loop E clk i (p # ps) sv sk =
     (case packet_step E (clk i 0) p sv sk of
        (Flag type detail, sv, sk) \<Rightarrow> (Some (type, detail, i), sv, sk, [])
      | (Throw e, sv, sk) \<Rightarrow> (Some (MalformedPacket, ErrorMessage e, i), sv, sk, [])
      | (Pass type appData, sv, sk) \<Rightarrow>
          (case packet_loop E clk (Suc i) ps sv sk of
             (r, sv, sk, effs) \<Rightarrow> (r, sv, sk, Accepted p type appData # effs)))"

text \<open>
  The \<open>data\<close> callback. Reading \<open>clk 0 0\<close> is the activity time; iteration \<open>i\<close> of the loop uses
  \<open>clk (i + 1)\<close>, its attack, if any, the later readings of the same iteration.
\<close>

definition on_data ::
    "env \<Rightarrow> (nat \<Rightarrow> clock) \<Rightarrow> bytes \<Rightarrow> server \<Rightarrow> tsock \<Rightarrow> server \<times> tsock \<times> effect list" where
  "on_data E clk data sv sk =
     (let sk = sk\<lparr>ts_lastActivity := clk 0 0, ts_buffer := ts_buffer sk @ data\<rparr> in
      if MAX_BUFFER_SIZE < length (ts_buffer sk)
      then flagAttack BufferOverflow (BufferLen (length (ts_buffer sk))) (\<lambda>k. clk 0 (k + 1)) sv sk
      else case extractPackets (ts_buffer sk) of
        Inl e \<Rightarrow> flagAttack MalformedPacket (ErrorMessage e) (\<lambda>k. clk 0 (k + 1)) sv sk
      | Inr (packets, remaining) \<Rightarrow>
          (case packet_loop E (\<lambda>i. clk (i + 1)) 0 packets sv sk of
             (None, sv, sk, effs) \<Rightarrow> (sv, sk\<lparr>ts_buffer := remaining\<rparr>, effs)
           | (Some (type, detail, i), sv, sk, effs) \<Rightarrow>
               (case flagAttack type detail (\<lambda>k. clk (i + 1) (k + 1)) sv sk of
                  (sv, sk, effs') \<Rightarrow> (sv, sk, effs @ effs'))))"

text \<open>The one-second check: slow partial packets, over-long connections.\<close>

definition on_partial_check :: "clock \<Rightarrow> server \<Rightarrow> tsock \<Rightarrow> server \<times> tsock \<times> effect list" where
  "on_partial_check clk sv sk =
     (let now = clk 0;
          (sv1, sk1, effs) =
            (if ts_buffer sk \<noteq> [] \<and> PARTIAL_PACKET_TIMEOUT < now - ts_lastActivity sk
             then flagAttack Slowloris NoDetail (\<lambda>k. clk (k + 1)) sv sk else (sv, sk, []))
      in if MAX_CONNECTION_TIME < now - ts_connectionStart sk1
         then (sv1, sk1\<lparr>ts_destroyed := True\<rparr>, effs @ [Destroyed])
         else (sv1, sk1, effs))"

text \<open>The idle timeout, and the five-second cleanup of the shared state.\<close>

definition on_timeout :: "tsock \<Rightarrow> tsock \<times> effect list" where
  "on_timeout sk = (sk\<lparr>ts_destroyed := True\<rparr>, [Destroyed])"

definition on_cleanup :: "clock \<Rightarrow> server \<Rightarrow> server" where
  "on_cleanup clk sv =
     sv\<lparr>sv_limiter := rl_cleanup (sv_limiter sv) (clk 0),
        sv_blacklist := bl_cleanup (sv_blacklist sv) (clk 1)\<rparr>"

section \<open>The per-socket counter is a window counter\<close>

definition sock_hit :: "tsock \<Rightarrow> unit \<Rightarrow> time \<Rightarrow> bool \<times> tsock" where
  "sock_hit sk k now =
     (let sk = rate_socket now sk in (ts_packetCount sk \<le> MAX_PACKETS_PER_SECOND, sk))"

interpretation sock_rate: window_counter sock_hit "\<lambda>sk t. sk"
  "\<lambda>sk k. Some (ts_packetCount sk, ts_rateWindowStart sk)" "\<lambda>sk. True" MAX_PACKETS_PER_SECOND 1000
  by unfold_locales (auto simp: sock_hit_def rate_socket_def next_window_def Let_def)

end
