(* ===== verification/TcpRun.thy ===== *)
theory TcpRun
  imports TcpServer
begin

text \<open>
  The packet server as a whole: its callbacks composed into an event-driven system of many sockets,
  and what it guarantees. The event loop may call the callbacks in any order and with any clock; the
  properties state the assumptions on the clock that they need.
\<close>

section \<open>What one packet can do\<close>

lemma rate_socket_fields [simp]:
  "ts_ip (rate_socket now sk) = ts_ip sk"
  "ts_buffer (rate_socket now sk) = ts_buffer sk"
  "ts_destroyed (rate_socket now sk) = ts_destroyed sk"
  "ts_lastActivity (rate_socket now sk) = ts_lastActivity sk"
  by (simp_all add: rate_socket_def Let_def)

lemma authenticate_Inr:
  "authenticate E p = Inr parsed \<longleftrightarrow>
     verifyPacket (ev_crypto E) (ev_secret E) p = Inr True \<and> parsePacket p = Inr parsed \<and>
     verifySignature (ev_crypto E) (ev_keys E) parsed = Inr True"
  by (auto simp: authenticate_def split: sum.splits bool.splits)

lemma authenticate_not_Pass: "authenticate E p \<noteq> Inl (Pass ty d)"
  by (auto simp: authenticate_def split: sum.splits bool.splits)

text \<open>A packet that passes was authenticated, fresh and new to the replay guard.\<close>

definition passes :: "env \<Rightarrow> time \<Rightarrow> bytes \<Rightarrow> nat \<Rightarrow> bytes \<Rightarrow> replay_guard \<Rightarrow> replay_guard \<Rightarrow> bool" where
  "passes E now w ty d g g' \<longleftrightarrow>
     (\<exists>p ts nonce. authenticate E w = Inr p \<and> pk_type p = ty \<and>
        unwrapPayload (pk_payload p) = Inr (ts, nonce, d) \<and>
        check g (pk_nodeId p) (Some ts) nonce now = (ReplayOk, g'))"

lemma packet_step_Pass:
  "packet_step E now w sv sk = (Pass ty d, sv', sk') \<Longrightarrow>
     passes E now w ty d (sv_replay sv) (sv_replay sv')"
  by (auto simp: packet_step_def passes_def authenticate_not_Pass Let_def
      split: if_splits prod.splits sum.splits replay_result.splits)

lemma packet_step_replay:
  "packet_step E now w sv sk = (v, sv', sk') \<Longrightarrow>
     (\<forall>ty d. v \<noteq> Pass ty d) \<Longrightarrow>
     sv_replay sv' = sv_replay sv \<or>
     (\<exists>n t x r. check (sv_replay sv) n t x now = (ReplayBad r, sv_replay sv'))"
  by (auto simp: packet_step_def Let_def split: if_splits prod.splits sum.splits replay_result.splits)

lemma packet_step_fields:
  "packet_step E now w sv sk = (v, sv', sk') \<Longrightarrow>
     sv_blacklist sv' = sv_blacklist sv \<and> ts_ip sk' = ts_ip sk \<and> ts_buffer sk' = ts_buffer sk \<and>
     ts_destroyed sk' = ts_destroyed sk \<and> ts_lastActivity sk' = ts_lastActivity sk"
  by (auto simp: packet_step_def Let_def split: if_splits prod.splits sum.splits replay_result.splits)

section \<open>What one data event can do\<close>

lemma packet_loop_fields:
  "packet_loop E clk i ps sv sk = (r, sv', sk', effs) \<Longrightarrow>
     sv_blacklist sv' = sv_blacklist sv \<and> ts_ip sk' = ts_ip sk \<and> ts_buffer sk' = ts_buffer sk \<and>
     ts_destroyed sk' = ts_destroyed sk"
proof (induction E clk i ps sv sk arbitrary: r sv' sk' effs rule: packet_loop.induct)
  case (2 E clk i p ps sv sk)
  obtain v sv1 sk1 where s: "packet_step E (clk i 0) p sv sk = (v, sv1, sk1)"
    by (cases "packet_step E (clk i 0) p sv sk")
  note f = packet_step_fields [OF s]
  show ?case
  proof (cases v)
    case (Pass ty d)
    obtain r2 sv2 sk2 effs2 where l: "packet_loop E clk (Suc i) ps sv1 sk1 = (r2, sv2, sk2, effs2)"
      by (cases "packet_loop E clk (Suc i) ps sv1 sk1")
    then show ?thesis using "2.IH" [OF s [symmetric] Pass refl l] "2.prems" f s Pass by auto
  qed (use "2.prems" s f in auto)
qed simp

text \<open>The accepted packets are the first ones extracted, all of them if the loop ends normally.\<close>

fun accepted_packets :: "effect list \<Rightarrow> bytes list" where
  "accepted_packets [] = []"
| "accepted_packets (Accepted w ty d # es) = w # accepted_packets es"
| "accepted_packets (Attack a # es) = accepted_packets es"
| "accepted_packets (Destroyed # es) = accepted_packets es"

lemma accepted_packets_append [simp]:
  "accepted_packets (a @ b) = accepted_packets a @ accepted_packets b"
  by (induction a rule: accepted_packets.induct) simp_all

lemma packet_loop_effects:
  "packet_loop E clk i ps sv sk = (r, sv', sk', effs) \<Longrightarrow>
     (\<forall>e \<in> set effs. \<exists>w ty d. e = Accepted w ty d) \<and>
     (case r of None \<Rightarrow> accepted_packets effs = ps
      | Some (ty, d, j) \<Rightarrow> accepted_packets effs = take (j - i) ps \<and> i \<le> j \<and> j < i + length ps)"
proof (induction E clk i ps sv sk arbitrary: r sv' sk' effs rule: packet_loop.induct)
  case (2 E clk i p ps sv sk)
  obtain v sv1 sk1 where s: "packet_step E (clk i 0) p sv sk = (v, sv1, sk1)"
    by (cases "packet_step E (clk i 0) p sv sk")
  show ?case
  proof (cases v)
    case (Pass ty d)
    obtain r2 sv2 sk2 effs2 where l: "packet_loop E clk (Suc i) ps sv1 sk1 = (r2, sv2, sk2, effs2)"
      by (cases "packet_loop E clk (Suc i) ps sv1 sk1")
    have r: "r = r2" "effs = Accepted p ty d # effs2" using "2.prems" s Pass l by auto
    show ?thesis using "2.IH" [OF s [symmetric] Pass refl l]
      by (auto simp: r Suc_diff_le take_Cons' split: option.splits)
  qed (use "2.prems" s in auto)
qed simp

lemma packet_loop_accepted:
  "packet_loop E clk i ps sv sk = (r, sv', sk', effs) \<Longrightarrow> Accepted w ty d \<in> set effs \<Longrightarrow>
     \<exists>j g g'. passes E (clk j 0) w ty d g g' \<and> rg_windowMs g = rg_windowMs (sv_replay sv)"
proof (induction E clk i ps sv sk arbitrary: r sv' sk' effs rule: packet_loop.induct)
  case (2 E clk i p ps sv sk)
  obtain v sv1 sk1 where s: "packet_step E (clk i 0) p sv sk = (v, sv1, sk1)"
    by (cases "packet_step E (clk i 0) p sv sk")
  show ?case
  proof (cases v)
    case (Pass ty' d')
    obtain r2 sv2 sk2 effs2 where l: "packet_loop E clk (Suc i) ps sv1 sk1 = (r2, sv2, sk2, effs2)"
      by (cases "packet_loop E clk (Suc i) ps sv1 sk1")
    have effs: "effs = Accepted p ty' d' # effs2" using "2.prems"(1) s Pass l by auto
    note pass = packet_step_Pass [OF s [unfolded Pass]]
    then have w: "rg_windowMs (sv_replay sv1) = rg_windowMs (sv_replay sv)"
      by (auto simp: passes_def dest: check_fields)
    show ?thesis
    proof (cases "Accepted w ty d \<in> set effs2")
      case True
      then show ?thesis using "2.IH" [OF s [symmetric] Pass refl l] w by simp
    next
      case False
      then show ?thesis using "2.prems"(2) effs pass by auto
    qed
  qed (use "2.prems" s in auto)
qed simp

lemma flagAttack_eq:
  "flagAttack ty d clk sv sk = (sv', sk', effs) \<longleftrightarrow>
     sv' = sv\<lparr>sv_blacklist := snd (strike (sv_blacklist sv) (ts_ip sk) (clk 0))\<rparr> \<and>
     sk' = sk\<lparr>ts_destroyed := True\<rparr> \<and>
     effs = [Attack (logAttack (clk 1) ty (ts_ip sk) d
       (Some (fst (strike (sv_blacklist sv) (ts_ip sk) (clk 0))))), Destroyed]"
  by (auto simp: flagAttack_def split: prod.split)

text \<open>The two ways a data event can end.\<close>

definition ends_clean :: "server \<Rightarrow> tsock \<Rightarrow> bytes \<Rightarrow> server \<Rightarrow> tsock \<Rightarrow> effect list \<Rightarrow> bool" where
  "ends_clean sv sk data sv' sk' effs \<longleftrightarrow>
     sv_blacklist sv' = sv_blacklist sv \<and> ts_destroyed sk' = ts_destroyed sk \<and>
     (\<forall>e \<in> set effs. \<exists>w ty d. e = Accepted w ty d) \<and>
     extractPackets (ts_buffer sk @ data) = Inr (accepted_packets effs, ts_buffer sk')"

definition ends_flagged :: "time \<Rightarrow> server \<Rightarrow> tsock \<Rightarrow> server \<Rightarrow> tsock \<Rightarrow> effect list \<Rightarrow> bool" where
  "ends_flagged t sv sk sv' sk' effs \<longleftrightarrow>
     ts_destroyed sk' \<and> sv_blacklist sv' = snd (strike (sv_blacklist sv) (ts_ip sk) t) \<and>
     (\<exists>pre a. effs = pre @ [Attack a, Destroyed] \<and> (\<forall>e \<in> set pre. \<exists>w ty d. e = Accepted w ty d) \<and>
        at_ip a = (if ts_ip sk = '''' then ''unknown'' else ts_ip sk) \<and>
        at_strike a = Some (fst (strike (sv_blacklist sv) (ts_ip sk) t)))"

lemma flagAttack_flagged:
  assumes "flagAttack ty d clk sv sk = (sv', sk', effs)"
    and "sv_blacklist sv = sv_blacklist sv0" and "ts_ip sk = ts_ip sk0"
    and "\<forall>e \<in> set pre. \<exists>w ty d. e = Accepted w ty d"
  shows "ends_flagged (clk 0) sv0 sk0 sv' sk' (pre @ effs)"
  using assms unfolding ends_flagged_def flagAttack_eq
  by (auto simp: logAttack_def)

lemma on_data_ends:
  assumes "on_data E clk data sv sk = (sv', sk', effs)"
  shows "ends_clean sv sk data sv' sk' effs \<or> (\<exists>i k. ends_flagged (clk i k) sv sk sv' sk' effs)"
proof -
  define sk0 where "sk0 = sk\<lparr>ts_lastActivity := clk 0 0, ts_buffer := ts_buffer sk @ data\<rparr>"
  have f: "ts_ip sk0 = ts_ip sk" "ts_buffer sk0 = ts_buffer sk @ data"
    "ts_destroyed sk0 = ts_destroyed sk"
    by (simp_all add: sk0_def)
  show ?thesis
  proof (cases "MAX_BUFFER_SIZE < length (ts_buffer sk0) \<or> (\<exists>e. extractPackets (ts_buffer sk0) = Inl e)")
    case True
    then obtain ty d where
      fl: "flagAttack ty d (\<lambda>k. clk 0 (k + 1)) sv sk0 = (sv', sk', effs)"
      using assms by (auto simp: on_data_def sk0_def [symmetric] Let_def split: if_splits)
    have "ends_flagged (clk 0 1) sv sk sv' sk' effs"
      using flagAttack_flagged [OF fl, of sv sk "[]"] f by simp
    then show ?thesis by blast
  next
    case False
    then obtain ps rest where x: "extractPackets (ts_buffer sk0) = Inr (ps, rest)"
      by (cases "extractPackets (ts_buffer sk0)") auto
    obtain r sv1 sk1 effs1 where
      l: "packet_loop E (\<lambda>i. clk (i + 1)) 0 ps sv sk0 = (r, sv1, sk1, effs1)"
      by (cases "packet_loop E (\<lambda>i. clk (i + 1)) 0 ps sv sk0")
    note lf = packet_loop_fields [OF l] and le = packet_loop_effects [OF l]
    show ?thesis
    proof (cases r)
      case None
      then show ?thesis using assms False x l lf le f
        by (auto simp: on_data_def sk0_def [symmetric] Let_def ends_clean_def)
    next
      case (Some q)
      obtain ty d j where q: "q = (ty, d, j)" by (cases q)
      obtain effs2 where
        "flagAttack ty d (\<lambda>k. clk (j + 1) (k + 1)) sv1 sk1 = (sv', sk', effs2)" "effs = effs1 @ effs2"
        using assms False x l Some q
        by (auto simp: on_data_def sk0_def [symmetric] Let_def split: prod.splits)
      then show ?thesis using lf le f flagAttack_flagged by (metis (no_types, lifting))
    qed
  qed
qed

section \<open>The event-driven system\<close>

text \<open>
  The sockets by connection number. A destroyed socket delivers no more data and no timeout; its
  one-second check runs until the \<open>close\<close> event.
\<close>

record tcp_state =
  tst_server :: server
  tst_socks :: "(nat, tsock) jsmap"

datatype tcp_event =
    EvConnect nat ip clock
  | EvData nat bytes "nat \<Rightarrow> clock"
  | EvPartial nat clock
  | EvTimeout nat
  | EvClose nat
  | EvCleanup clock

definition init_tcp :: tcp_state where
  "init_tcp = \<lparr>tst_server = new_server, tst_socks = []\<rparr>"

definition tcp_open :: "tcp_state \<Rightarrow> nat \<Rightarrow> tsock option" where
  "tcp_open st sid =
     (case jm_get (tst_socks st) sid of None \<Rightarrow> None
      | Some sk \<Rightarrow> if ts_destroyed sk then None else Some sk)"

definition tcp_put :: "tcp_state \<Rightarrow> nat \<Rightarrow> server \<times> tsock \<times> effect list \<Rightarrow> tcp_state \<times> effect list" where
  "tcp_put st sid r =
     (case r of (sv, sk, effs) \<Rightarrow>
        (st\<lparr>tst_server := sv, tst_socks := jm_set (tst_socks st) sid sk\<rparr>, effs))"

fun tcp_step :: "env \<Rightarrow> tcp_event \<Rightarrow> tcp_state \<Rightarrow> tcp_state \<times> effect list" where
  "tcp_step E (EvConnect sid ip clk) st =
     (case on_connection ip clk (tst_server st) of
        (None, sv, effs) \<Rightarrow> (st\<lparr>tst_server := sv\<rparr>, effs)
      | (Some sk, sv, effs) \<Rightarrow> tcp_put st sid (sv, sk, effs))"
| "tcp_step E (EvData sid data clk) st =
     (case tcp_open st sid of None \<Rightarrow> (st, [])
      | Some sk \<Rightarrow> tcp_put st sid (on_data E clk data (tst_server st) sk))"
| "tcp_step E (EvPartial sid clk) st =
     (case jm_get (tst_socks st) sid of None \<Rightarrow> (st, [])
      | Some sk \<Rightarrow> tcp_put st sid (on_partial_check clk (tst_server st) sk))"
| "tcp_step E (EvTimeout sid) st =
     (case tcp_open st sid of None \<Rightarrow> (st, [])
      | Some sk \<Rightarrow> tcp_put st sid (tst_server st, on_timeout sk))"
| "tcp_step E (EvClose sid) st = (st\<lparr>tst_socks := jm_delete (tst_socks st) sid\<rparr>, [])"
| "tcp_step E (EvCleanup clk) st = (st\<lparr>tst_server := on_cleanup clk (tst_server st)\<rparr>, [])"

fun tcp_run :: "env \<Rightarrow> tcp_event list \<Rightarrow> tcp_state \<Rightarrow> tcp_state \<times> effect list" where
  "tcp_run E [] st = (st, [])"
| "tcp_run E (e # es) st =
     (case tcp_step E e st of (st, effs) \<Rightarrow>
        (case tcp_run E es st of (st, effs') \<Rightarrow> (st, effs @ effs')))"

lemma tcp_put_simps [simp]:
  "tst_server (fst (tcp_put st sid (sv, sk, effs))) = sv"
  "snd (tcp_put st sid (sv, sk, effs)) = effs"
  by (simp_all add: tcp_put_def)

lemma tcp_run_append:
  "tcp_run E (es1 @ es2) st =
     (case tcp_run E es1 st of (st1, effs1) \<Rightarrow>
        (case tcp_run E es2 st1 of (st2, effs2) \<Rightarrow> (st2, effs1 @ effs2)))"
  by (induction es1 arbitrary: st) (auto split: prod.splits)

text \<open>Only data events touch the replay guard, and only they accept packets.\<close>

lemma tcp_step_data:
  assumes "tcp_step E ev st = (st', effs)"
  shows "(\<exists>sid data clk sk sk'. ev = EvData sid data clk \<and>
        on_data E clk data (tst_server st) sk = (tst_server st', sk', effs)) \<or>
    (accepted_packets effs = [] \<and> (\<forall>w ty d. Accepted w ty d \<notin> set effs) \<and>
        sv_replay (tst_server st') = sv_replay (tst_server st))"
proof (cases ev)
  case (EvConnect sid ip clk)
  then show ?thesis using assms
    by (auto simp: on_connection_def tcp_put_def split: prod.splits bool.splits)
next
  case (EvData sid data clk)
  show ?thesis
  proof (cases "tcp_open st sid")
    case (Some sk)
    then show ?thesis using assms EvData
      by (cases "on_data E clk data (tst_server st) sk") (fastforce simp: tcp_put_def)
  qed (use assms EvData in simp)
next
  case (EvPartial sid clk)
  then show ?thesis using assms
    by (auto simp: on_partial_check_def tcp_put_def flagAttack_def Let_def
        split: option.splits prod.splits if_splits)
next
  case (EvTimeout sid)
  then show ?thesis using assms by (auto simp: on_timeout_def tcp_put_def split: option.splits)
qed (use assms in \<open>auto simp: on_cleanup_def\<close>)

text \<open>A data event's accepted packets come from its packet loop, as does the change of the guard.\<close>

lemma on_data_loop:
  assumes "on_data E clk data sv sk = (sv', sk', effs)"
  obtains "sv_replay sv' = sv_replay sv" "accepted_packets effs = []"
      "\<forall>w ty d. Accepted w ty d \<notin> set effs"
  | ps rest r sk0 sv1 sk1 effs1 where
      "extractPackets (ts_buffer sk @ data) = Inr (ps, rest)"
      "packet_loop E (\<lambda>i. clk (i + 1)) 0 ps sv sk0 = (r, sv1, sk1, effs1)"
      "sv_replay sv' = sv_replay sv1" "accepted_packets effs = accepted_packets effs1"
      "\<forall>w ty d. Accepted w ty d \<in> set effs \<longleftrightarrow> Accepted w ty d \<in> set effs1"
proof -
  define sk0 where "sk0 = sk\<lparr>ts_lastActivity := clk 0 0, ts_buffer := ts_buffer sk @ data\<rparr>"
  show thesis
  proof (cases "MAX_BUFFER_SIZE < length (ts_buffer sk0) \<or> (\<exists>e. extractPackets (ts_buffer sk0) = Inl e)")
    case True
    then show thesis using assms
      by (intro that(1))
        (auto simp: on_data_def sk0_def [symmetric] Let_def flagAttack_def split: prod.splits if_splits)
  next
    case False
    then obtain ps rest where x: "extractPackets (ts_buffer sk0) = Inr (ps, rest)"
      by (cases "extractPackets (ts_buffer sk0)") auto
    obtain r sv1 sk1 effs1 where
      l: "packet_loop E (\<lambda>i. clk (i + 1)) 0 ps sv sk0 = (r, sv1, sk1, effs1)"
      by (cases "packet_loop E (\<lambda>i. clk (i + 1)) 0 ps sv sk0")
    have "extractPackets (ts_buffer sk @ data) = Inr (ps, rest)" using x by (simp add: sk0_def)
    then show thesis using assms False x l
      by (intro that(2) [OF _ l])
        (auto simp: on_data_def sk0_def [symmetric] Let_def flagAttack_def
          split: prod.splits option.splits)
  qed
qed

lemma packet_loop_window:
  "packet_loop E clk i ps sv sk = (r, sv', sk', effs) \<Longrightarrow>
     rg_windowMs (sv_replay sv') = rg_windowMs (sv_replay sv)"
proof (induction E clk i ps sv sk arbitrary: r sv' sk' effs rule: packet_loop.induct)
  case (2 E clk i p ps sv sk)
  obtain v sv1 sk1 where s: "packet_step E (clk i 0) p sv sk = (v, sv1, sk1)"
    by (cases "packet_step E (clk i 0) p sv sk")
  have w: "rg_windowMs (sv_replay sv1) = rg_windowMs (sv_replay sv)"
    using packet_step_Pass [of E "clk i 0" p sv sk _ _ sv1 sk1] packet_step_replay [OF s] s
    by (cases v) (auto simp: passes_def dest!: check_fields)
  show ?case
  proof (cases v)
    case (Pass ty d)
    obtain r2 sv2 sk2 effs2 where l: "packet_loop E clk (Suc i) ps sv1 sk1 = (r2, sv2, sk2, effs2)"
      by (cases "packet_loop E clk (Suc i) ps sv1 sk1")
    then show ?thesis using "2.IH" [OF s [symmetric] Pass refl l] "2.prems" w s Pass by auto
  qed (use "2.prems" s w in auto)
qed simp

lemma tcp_step_window:
  assumes "tcp_step E ev st = (st', effs)"
  shows "rg_windowMs (sv_replay (tst_server st')) = rg_windowMs (sv_replay (tst_server st))"
  using tcp_step_data [OF assms]
proof (elim disjE exE conjE)
  fix sid data clk sk sk' assume "on_data E clk data (tst_server st) sk = (tst_server st', sk', effs)"
  then show ?thesis
    by (cases rule: on_data_loop) (auto dest: packet_loop_window)
qed simp

lemma tcp_step_accepted:
  assumes "tcp_step E ev st = (st', effs)" and "Accepted w ty d \<in> set effs"
  shows "\<exists>sid data clk j g g'. ev = EvData sid data clk \<and> passes E (clk (Suc j) 0) w ty d g g' \<and>
    rg_windowMs g = rg_windowMs (sv_replay (tst_server st))"
  using tcp_step_data [OF assms(1)]
proof (elim disjE exE conjE)
  fix sid data clk sk sk' assume e: "ev = EvData sid data clk"
    and "on_data E clk data (tst_server st) sk = (tst_server st', sk', effs)"
  from this(2) show ?thesis
  proof (cases rule: on_data_loop)
    case 1
    then show ?thesis using assms(2) by simp
  next
    case (2 ps rest r sk0 sv1 sk1 effs1)
    then have "Accepted w ty d \<in> set effs1" using assms(2) by simp
    from packet_loop_accepted [OF 2(2) this] show ?thesis using e by auto
  qed
qed (use assms(2) in simp)

section \<open>The replay guard under the whole system\<close>

definition guard_ok :: "replay_guard \<Rightarrow> bool" where
  "guard_ok g \<longleftrightarrow> replay_inv g \<and> rg_windowMs g = REPLAY_WINDOW_MS \<and> rg_maxEntries g = REPLAY_CACHE_MAX"

lemma guard_ok_new: "guard_ok (sv_replay (tst_server init_tcp))"
  by (simp add: init_tcp_def new_server_def guard_ok_def replay_inv_new)
    (simp add: new_replay_guard_def)

lemma guard_ok_check: "guard_ok g \<Longrightarrow> check g nid ts n now = (r, g') \<Longrightarrow> guard_ok g'"
  using replay_inv_check check_fields by (fastforce simp: guard_ok_def)

lemma guard_ok_step:
  "packet_step E now w sv sk = (v, sv', sk') \<Longrightarrow> guard_ok (sv_replay sv) \<Longrightarrow> guard_ok (sv_replay sv')"
  by (cases v) (auto dest!: packet_step_Pass packet_step_replay simp: passes_def intro: guard_ok_check)

text \<open>
  The identities of the packets accepted so far, newest first, are distinct and each is still
  protected from replay: the one with \<open>i\<close> newer ones by an entry with at most \<open>i\<close> behind it.
\<close>

definition packet_id :: "bytes \<Rightarrow> (bytes \<times> time \<times> bytes) option" where
  "packet_id w =
     (case parsePacket w of Inl e \<Rightarrow> None
      | Inr p \<Rightarrow> (case unwrapPayload (pk_payload p) of Inl e \<Rightarrow> None
          | Inr (ts, nonce, d) \<Rightarrow> Some (pk_nodeId p, ts, nonce)))"

definition guarded :: "replay_guard \<Rightarrow> time \<Rightarrow> (bytes \<times> time \<times> bytes) option list \<Rightarrow> bool" where
  "guarded g now ids \<longleftrightarrow> distinct ids \<and>
     (\<forall>i < length ids. \<exists>nid ts n. ids ! i = Some (nid, ts, n) \<and> protects g (replay_key nid n) ts i now)"

lemma guarded_later: "guarded g t ids \<Longrightarrow> t \<le> now \<Longrightarrow> guarded g now ids"
  by (meson guarded_def protects_later)

lemma guarded_reject:
  assumes "guarded g t ids" and "check g nid ts n now = (ReplayBad r, g')" and "t \<le> now" and "guard_ok g"
  shows "guarded g' now ids"
proof -
  have "jm_ok (rg_seen g)" using assms(4) by (simp add: guard_ok_def replay_inv_def)
  then have "protects g' k u i now" if "protects g k u i t" for k u i
    using protects_check [OF that assms(3) _ assms(2)] by simp
  then show ?thesis using assms(1) unfolding guarded_def by metis
qed

lemma guarded_accept:
  assumes "guarded g t ids" and "check g nid (Some ts) n now = (ReplayOk, g')" and "t \<le> now"
    and "guard_ok g" and "length ids < REPLAY_CACHE_MAX"
  shows "guarded g' now (Some (nid, ts, n) # ids)"
proof -
  have ok: "jm_ok (rg_seen g)" using assms(4) by (simp add: guard_ok_def replay_inv_def)
  have step: "protects g' k u (Suc i) now" if "protects g k u i t" "i < length ids" for k u i
    using protects_check [OF that(1) assms(3) ok assms(2)] that(2) assms(4,5) by (simp add: guard_ok_def)
  have "Some (nid, ts, n) \<noteq> ids ! i" if i: "i < length ids" for i
  proof
    assume eq: "Some (nid, ts, n) = ids ! i"
    obtain a b c where "ids ! i = Some (a, b, c)" "protects g (replay_key a c) b i t"
      using assms(1) i unfolding guarded_def by blast
    then have "protects g (replay_key nid n) ts i t" using eq by simp
    then show False using protects_rejects [OF _ assms(3) ok] assms(2) by fastforce
  qed
  then have "Some (nid, ts, n) \<notin> set ids" by (metis in_set_conv_nth)
  moreover have "\<exists>a b c. (Some (nid, ts, n) # ids) ! i = Some (a, b, c) \<and> protects g' (replay_key a c) b i now"
    if "i < length (Some (nid, ts, n) # ids)" for i
  proof (cases i)
    case 0
    then show ?thesis using protects_accepted [OF assms(2) ok] by simp
  next
    case (Suc k)
    then have k: "k < length ids" using that by simp
    obtain a b c where "ids ! k = Some (a, b, c)" "protects g (replay_key a c) b k t"
      using assms(1) k unfolding guarded_def by blast
    then show ?thesis using step [OF _ k] Suc by auto
  qed
  ultimately show ?thesis using assms(1) unfolding guarded_def by simp
qed

lemma passes_id:
  "passes E now w ty d g g' \<Longrightarrow>
     \<exists>nid ts n. packet_id w = Some (nid, ts, n) \<and> check g nid (Some ts) n now = (ReplayOk, g')"
  by (auto simp: passes_def packet_id_def authenticate_Inr)

lemma packet_loop_guarded:
  assumes "packet_loop E clk i ps sv sk = (r, sv', sk', effs)"
    and "guarded (sv_replay sv) t ids" and "guard_ok (sv_replay sv)"
    and "\<forall>j \<ge> i. t \<le> clk j 0 \<and> clk j 0 \<le> t'" and "mono (\<lambda>j. clk j 0)" and "t \<le> t'"
    and "length (accepted_packets effs) + length ids \<le> REPLAY_CACHE_MAX"
  shows "guard_ok (sv_replay sv') \<and>
    guarded (sv_replay sv') t' (rev (map packet_id (accepted_packets effs)) @ ids)"
  using assms
proof (induction E clk i ps sv sk arbitrary: r sv' sk' effs t ids rule: packet_loop.induct)
  case (1 E clk i sv sk)
  then show ?case using guarded_later by auto
next
  case (2 E clk i p ps sv sk)
  obtain v sv1 sk1 where s: "packet_step E (clk i 0) p sv sk = (v, sv1, sk1)"
    by (cases "packet_step E (clk i 0) p sv sk")
  have now: "t \<le> clk i 0" "clk i 0 \<le> t'" using "2.prems"(4) by auto
  have ok1: "guard_ok (sv_replay sv1)" using guard_ok_step [OF s "2.prems"(3)] .
  show ?case
  proof (cases "\<exists>ty d. v = Pass ty d")
    case True
    then obtain ty d where Pass: "v = Pass ty d" by blast
    obtain r2 sv2 sk2 effs2 where l: "packet_loop E clk (Suc i) ps sv1 sk1 = (r2, sv2, sk2, effs2)"
      by (cases "packet_loop E clk (Suc i) ps sv1 sk1")
    have eq: "sv' = sv2" "effs = Accepted p ty d # effs2" using "2.prems"(1) s Pass l by auto
    obtain nid ts n where x: "packet_id p = Some (nid, ts, n)"
      "check (sv_replay sv) nid (Some ts) n (clk i 0) = (ReplayOk, sv_replay sv1)"
      using passes_id [OF packet_step_Pass [OF s [unfolded Pass]]] by blast
    have g1: "guarded (sv_replay sv1) (clk i 0) (packet_id p # ids)"
      using guarded_accept [OF "2.prems"(2) x(2) now(1) "2.prems"(3)] "2.prems"(7) x(1) eq by simp
    have c: "\<forall>j \<ge> Suc i. clk i 0 \<le> clk j 0 \<and> clk j 0 \<le> t'"
      using "2.prems"(4) monoD [OF "2.prems"(5)] by auto
    show ?thesis
      using "2.IH" [OF s [symmetric] Pass refl l g1 ok1 c "2.prems"(5) now(2)] "2.prems"(7) eq by simp
  next
    case False
    then have eq: "sv' = sv1" "effs = []" using "2.prems"(1) s by (cases v; auto)+
    have "guarded (sv_replay sv1) (clk i 0) ids"
      using packet_step_replay [OF s] False "2.prems"(2,3) now(1) guarded_reject guarded_later by metis
    then show ?thesis using ok1 guarded_later [OF _ now(2)] eq by simp
  qed
qed

text \<open>
  A clock that does not run back: \<open>clock_runs t es\<close> says that the readings which the data events of
  \<open>es\<close> take in their loops are ordered and at or after \<open>t\<close>.
\<close>

fun clock_runs :: "time \<Rightarrow> tcp_event list \<Rightarrow> bool" where
  "clock_runs t [] = True"
| "clock_runs t (EvData sid data clk # es) =
     (mono (\<lambda>i. clk i 0) \<and> t \<le> clk 0 0 \<and> (\<exists>t' \<ge> t. (\<forall>i. clk i 0 \<le> t') \<and> clock_runs t' es))"
| "clock_runs t (e # es) = clock_runs t es"

lemma tcp_run_guarded:
  assumes "tcp_run E es st = (st', effs)"
    and "guarded (sv_replay (tst_server st)) t ids" and "guard_ok (sv_replay (tst_server st))"
    and "clock_runs t es" and "length (accepted_packets effs) + length ids \<le> REPLAY_CACHE_MAX"
  shows "\<exists>t'. guarded (sv_replay (tst_server st')) t' (rev (map packet_id (accepted_packets effs)) @ ids)"
  using assms
proof (induction es arbitrary: st effs t ids)
  case Nil
  then show ?case by auto
next
  case (Cons e es)
  obtain st1 effs1 where s: "tcp_step E e st = (st1, effs1)" by (cases "tcp_step E e st")
  obtain effs2 where r: "tcp_run E es st1 = (st', effs2)" and effs: "effs = effs1 @ effs2"
    using Cons.prems(1) by (auto simp: s split: prod.splits)
  have "\<exists>t1. guard_ok (sv_replay (tst_server st1)) \<and> clock_runs t1 es \<and>
      guarded (sv_replay (tst_server st1)) t1 (rev (map packet_id (accepted_packets effs1)) @ ids)"
    using tcp_step_data [OF s]
  proof (elim disjE exE conjE)
    fix sid data clk sk sk' assume e: "e = EvData sid data clk"
      and d: "on_data E clk data (tst_server st) sk = (tst_server st1, sk', effs1)"
    obtain t' where c: "mono (\<lambda>i. clk i 0)" "t \<le> clk 0 0" "t \<le> t'" "\<forall>i. clk i 0 \<le> t'" "clock_runs t' es"
      using Cons.prems(4) e by auto
    have m: "mono (\<lambda>j. clk (j + 1) 0)" using c(1) by (auto simp: mono_def)
    have b: "\<forall>j \<ge> 0. t \<le> clk (j + 1) 0 \<and> clk (j + 1) 0 \<le> t'"
      using c(2,4) monoD [OF c(1), of 0] by (auto intro: order_trans [OF c(2)])
    from d have "guard_ok (sv_replay (tst_server st1)) \<and>
        guarded (sv_replay (tst_server st1)) t' (rev (map packet_id (accepted_packets effs1)) @ ids)"
    proof (cases rule: on_data_loop)
      case 1
      then show ?thesis using Cons.prems(2,3) guarded_later [OF _ c(3)] by simp
    next
      case (2 ps rest r sk0 sv1 sk1 effs1')
      then show ?thesis
        using packet_loop_guarded [OF 2(2) Cons.prems(2,3) b m c(3)] Cons.prems(5) effs by simp
    qed
    then show ?thesis using c(5) by blast
  next
    assume a: "accepted_packets effs1 = []" "sv_replay (tst_server st1) = sv_replay (tst_server st)"
      and nd: "\<forall>w ty d. Accepted w ty d \<notin> set effs1"
    show ?thesis
    proof (cases e)
      case (EvData sid data clk)
      then obtain t' where "t \<le> t'" "clock_runs t' es" using Cons.prems(4) by auto
      then show ?thesis using a Cons.prems(2,3) guarded_later by auto
    qed (use a Cons.prems(2,3,4) in \<open>auto intro!: exI [of _ t]\<close>)
  qed
  then obtain t1 where t1: "guard_ok (sv_replay (tst_server st1))" "clock_runs t1 es"
    "guarded (sv_replay (tst_server st1)) t1 (rev (map packet_id (accepted_packets effs1)) @ ids)" by blast
  show ?case using Cons.IH [OF r t1(3,1,2)] Cons.prems(5) effs by simp
qed

section \<open>The blacklist under the whole system\<close>

text \<open>The infractions of an address that a run records: log entries that carry a strike.\<close>

definition infraction :: "ip \<Rightarrow> effect \<Rightarrow> bool" where
  "infraction ip e = (case e of Attack a \<Rightarrow> at_ip a = ip \<and> at_strike a \<noteq> None | _ \<Rightarrow> False)"

definition infractions :: "ip \<Rightarrow> effect list \<Rightarrow> nat" where
  "infractions ip effs = length (filter (infraction ip) effs)"

lemma infractions_simps [simp]:
  "infractions ip [] = 0"
  "infractions ip (xs @ ys) = infractions ip xs + infractions ip ys"
  "infractions ip (Accepted w ty d # es) = infractions ip es"
  "infractions ip (Destroyed # es) = infractions ip es"
  "infractions ip (Attack a # es) =
     (if at_ip a = ip \<and> at_strike a \<noteq> None then 1 else 0) + infractions ip es"
  by (simp_all add: infractions_def infraction_def)

lemma infractions_accepted:
  "\<forall>e \<in> set es. \<exists>w ty d. e = Accepted w ty d \<Longrightarrow> infractions ip es = 0"
  by (induction es) auto

text \<open>All clock readings of an event are in \<open>[lo, hi]\<close>.\<close>

fun event_within :: "time \<Rightarrow> time \<Rightarrow> tcp_event \<Rightarrow> bool" where
  "event_within lo hi (EvConnect sid ip clk) = (\<forall>k. lo \<le> clk k \<and> clk k \<le> hi)"
| "event_within lo hi (EvData sid data clk) = (\<forall>i k. lo \<le> clk i k \<and> clk i k \<le> hi)"
| "event_within lo hi (EvPartial sid clk) = (\<forall>k. lo \<le> clk k \<and> clk k \<le> hi)"
| "event_within lo hi (EvTimeout sid) = True"
| "event_within lo hi (EvClose sid) = True"
| "event_within lo hi (EvCleanup clk) = (\<forall>k. lo \<le> clk k \<and> clk k \<le> hi)"

definition plain_ip :: "ip \<Rightarrow> bool" where
  "plain_ip ip \<longleftrightarrow> ip \<noteq> '''' \<and> ip \<noteq> ''unknown''"

text \<open>What an event does to the blacklist, as operations of the registry.\<close>

definition registry_run ::
    "time \<Rightarrow> time \<Rightarrow> blacklist \<Rightarrow> blacklist \<Rightarrow> effect list \<Rightarrow> reg_event list \<Rightarrow> bool" where
  "registry_run lo hi bl bl' effs rs \<longleftrightarrow> bl' = bl_run bl rs \<and>
     (\<forall>e \<in> set rs. lo \<le> reg_time e \<and> reg_time e \<le> hi) \<and>
     (\<forall>ip. plain_ip ip \<longrightarrow> punishments ip rs = infractions ip effs)"

lemma registry_flagged:
  assumes "ends_flagged t sv sk sv' sk' effs" and "lo \<le> t" and "t \<le> hi"
  shows "registry_run lo hi (sv_blacklist sv) (sv_blacklist sv') effs [Punish (ts_ip sk) t]"
  using assms
  by (auto simp: ends_flagged_def registry_run_def bl_run_def infractions_accepted plain_ip_def)

lemma registry_run_append:
  "registry_run lo hi bl bl1 e1 r1 \<Longrightarrow> registry_run lo hi bl1 bl2 e2 r2 \<Longrightarrow>
     registry_run lo hi bl bl2 (e1 @ e2) (r1 @ r2)"
  by (auto simp: registry_run_def bl_run_append punishments_append)

lemma registry_run_nil: "registry_run lo hi bl bl [] []"
  by (simp add: registry_run_def bl_run_def)

lemma registry_partial:
  assumes "on_partial_check clk sv sk = (sv', sk', effs)" and "\<forall>k. lo \<le> clk k \<and> clk k \<le> hi"
  shows "\<exists>rs. registry_run lo hi (sv_blacklist sv) (sv_blacklist sv') effs rs"
proof -
  obtain sv1 sk1 e1 where
    f: "(if ts_buffer sk \<noteq> [] \<and> PARTIAL_PACKET_TIMEOUT < clk 0 - ts_lastActivity sk
         then flagAttack Slowloris NoDetail (\<lambda>k. clk (k + 1)) sv sk else (sv, sk, [])) = (sv1, sk1, e1)"
    by (metis prod_cases3)
  have "\<exists>rs. registry_run lo hi (sv_blacklist sv) (sv_blacklist sv1) e1 rs"
  proof (cases "ts_buffer sk \<noteq> [] \<and> PARTIAL_PACKET_TIMEOUT < clk 0 - ts_lastActivity sk")
    case True
    then have "ends_flagged (clk 1) sv sk sv1 sk1 e1"
      using f flagAttack_flagged [of _ _ "\<lambda>k. clk (k + 1)" sv sk sv1 sk1 e1 sv sk "[]"] by simp
    then show ?thesis using registry_flagged assms(2) by blast
  next
    case False
    then have "sv1 = sv" "e1 = []" using f by auto
    then show ?thesis using registry_run_nil by blast
  qed
  then obtain rs where "registry_run lo hi (sv_blacklist sv) (sv_blacklist sv1) e1 rs" ..
  moreover have "sv' = sv1 \<and> (effs = e1 \<or> effs = e1 @ [Destroyed])"
    using assms(1) f by (auto simp: on_partial_check_def Let_def split: if_splits)
  ultimately show ?thesis by (auto simp: registry_run_def)
qed

lemma tcp_step_registry:
  assumes "tcp_step E ev st = (st', effs)" and "event_within lo hi ev"
  shows "\<exists>rs. registry_run lo hi (sv_blacklist (tst_server st)) (sv_blacklist (tst_server st')) effs rs"
proof (cases ev)
  case (EvConnect sid ip clk)
  then show ?thesis using assms
    by (intro exI [of _ "[Ask ip (clk 0)]"])
      (auto simp: on_connection_def registry_run_def bl_run_def tcp_put_def logAttack_def
        split: prod.splits bool.splits)
next
  case (EvData sid data clk)
  show ?thesis
  proof (cases "tcp_open st sid")
    case (Some sk)
    then obtain sk' where d: "on_data E clk data (tst_server st) sk = (tst_server st', sk', effs)"
      using assms(1) EvData
      by (cases "on_data E clk data (tst_server st) sk") (auto simp: tcp_put_def)
    from on_data_ends [OF d] show ?thesis
    proof (elim disjE exE)
      assume "ends_clean (tst_server st) sk data (tst_server st') sk' effs"
      then show ?thesis
        by (intro exI [of _ "[]"])
          (simp add: ends_clean_def registry_run_def bl_run_def infractions_accepted)
    next
      fix i k assume "ends_flagged (clk i k) (tst_server st) sk (tst_server st') sk' effs"
      moreover have "lo \<le> clk i k" "clk i k \<le> hi" using assms(2) EvData by auto
      ultimately show ?thesis using registry_flagged by blast
    qed
  qed (use assms EvData registry_run_nil in \<open>auto intro!: exI [of _ "[]"]\<close>)
next
  case (EvPartial sid clk)
  show ?thesis
  proof (cases "jm_get (tst_socks st) sid")
    case (Some sk)
    then obtain sk' where "on_partial_check clk (tst_server st) sk = (tst_server st', sk', effs)"
      using assms(1) EvPartial
      by (cases "on_partial_check clk (tst_server st) sk") (auto simp: tcp_put_def)
    moreover have "\<forall>k. lo \<le> clk k \<and> clk k \<le> hi" using assms(2) EvPartial by simp
    ultimately show ?thesis by (rule registry_partial)
  qed (use assms EvPartial registry_run_nil in \<open>auto intro!: exI [of _ "[]"]\<close>)
next
  case (EvTimeout sid)
  then show ?thesis using assms registry_run_nil
    by (intro exI [of _ "[]"])
      (auto simp: on_timeout_def tcp_put_def registry_run_def bl_run_def split: option.splits)
next
  case (EvClose sid)
  then show ?thesis using assms registry_run_nil by (auto intro!: exI [of _ "[]"])
next
  case (EvCleanup clk)
  then show ?thesis using assms
    by (intro exI [of _ "[Sweep (clk 1)]"])
      (auto simp: on_cleanup_def registry_run_def bl_run_def)
qed

lemma tcp_run_registry:
  assumes "tcp_run E es st = (st', effs)" and "\<forall>ev \<in> set es. event_within lo hi ev"
  shows "\<exists>rs. registry_run lo hi (sv_blacklist (tst_server st)) (sv_blacklist (tst_server st')) effs rs"
  using assms
proof (induction es arbitrary: st effs)
  case Nil
  then show ?case using registry_run_nil by (auto intro!: exI [of _ "[]"])
next
  case (Cons e es)
  obtain st1 effs1 where s: "tcp_step E e st = (st1, effs1)" by (cases "tcp_step E e st")
  obtain effs2 where r: "tcp_run E es st1 = (st', effs2)" and effs: "effs = effs1 @ effs2"
    using Cons.prems(1) by (auto simp: s split: prod.splits)
  show ?case
    using tcp_step_registry [OF s, of lo hi] Cons.IH [OF r] Cons.prems(2) registry_run_append effs
    by (metis list.set_intros(1,2))
qed

section \<open>An honest packet\<close>

lemma extract_built:
  assumes "crypto_sizes C" and "length s = 32"
    and "buildPacket C (keystore_of C s) (Some key) type payload = Inr w"
  shows "extractPackets w = Inr ([w], [])"
proof -
  have "packet_next w = Emit w []" using built_packet_shape [OF assms] by (simp add: packet_shape_def)
  then show ?thesis
    using packet_cut_Emit [of w w "[]" "[]"] packet_cut_Wait [of "[]" "[w]"]
    by (simp add: packet_next_def HEADER_LEN_def extract_packet_cut [symmetric])
qed

lemma packet_step_honest:
  assumes "crypto_sizes C" and "sign_correct C" and "length s = 32"
    and "ev_crypto E = C" and "ev_secret E = Some key" and "sodium_ready (ev_keys E)"
    and "wrapPayload ts nonce data = Inr payload" and "length nonce = NONCE_LEN" and "ts < 2 ^ 53"
    and "buildPacket C (keystore_of C s) (Some key) type payload = Inr w"
    and "fst (sock_hit sk () now)" and "fst (allow (sv_limiter sv) (ts_ip sk) now)"
    and "\<bar>now - ts\<bar> \<le> rg_windowMs (sv_replay sv)"
    and "\<not> jm_has (rg_seen (purge now (sv_replay sv))) (replay_key (ed_public C s) nonce)"
  obtains sv' sk' where "packet_step E now w sv sk = (Pass (nat (type mod 256)) data, sv', sk')"
proof -
  obtain p where p: "verifyPacket C (Some key) w = Inr True" "parsePacket w = Inr p"
    "pk_type p = nat (type mod 256)" "pk_nodeId p = ed_public C s" "pk_payload p = payload"
    "verifySignature C (ev_keys E) p = Inr True"
    using built_packet_accepted [OF assms(1-3,10,6)] .
  have u: "unwrapPayload payload = Inr (ts, nonce, data)" using unwrap_wrap [OF assms(7-9)] .
  obtain g where c: "check (sv_replay sv) (ed_public C s) (Some ts) nonce now = (ReplayOk, g)"
    using assms(13,14) by (auto simp: check_def Let_def)
  have "authenticate E w = Inr p" using p assms(4,5) by (simp add: authenticate_Inr)
  then show thesis using that p u c assms(11,12)
    by (cases "allow (sv_limiter sv) (ts_ip sk) now")
      (auto simp: packet_step_def sock_hit_def Let_def)
qed

lemma on_data_honest:
  assumes "crypto_sizes C" and "sign_correct C" and "length s = 32"
    and "ev_crypto E = C" and "ev_secret E = Some key" and "sodium_ready (ev_keys E)"
    and "wrapPayload ts nonce data = Inr payload" and "length nonce = NONCE_LEN" and "ts < 2 ^ 53"
    and "buildPacket C (keystore_of C s) (Some key) type payload = Inr w"
    and "ts_buffer sk = []"
    and "fst (sock_hit sk () (clk 1 0))" and "fst (allow (sv_limiter sv) (ts_ip sk) (clk 1 0))"
    and "\<bar>clk 1 0 - ts\<bar> \<le> rg_windowMs (sv_replay sv)"
    and "\<not> jm_has (rg_seen (purge (clk 1 0) (sv_replay sv))) (replay_key (ed_public C s) nonce)"
  obtains sv' sk' where
    "on_data E clk w sv sk = (sv', sk', [Accepted w (nat (type mod 256)) data])"
    "sv_blacklist sv' = sv_blacklist sv" "ts_buffer sk' = []" "ts_destroyed sk' = ts_destroyed sk"
proof -
  define sk0 where "sk0 = sk\<lparr>ts_lastActivity := clk 0 0, ts_buffer := ts_buffer sk @ w\<rparr>"
  have sk0: "ts_buffer sk0 = w" "ts_ip sk0 = ts_ip sk" "ts_destroyed sk0 = ts_destroyed sk"
    "fst (sock_hit sk0 () t) = fst (sock_hit sk () t)" for t
    by (simp_all add: sk0_def assms(11) sock_hit_def rate_socket_def Let_def)
  obtain sv1 sk1 where
    s: "packet_step E (clk 1 0) w sv sk0 = (Pass (nat (type mod 256)) data, sv1, sk1)"
    by (rule packet_step_honest [OF assms(1-10), of sk0 "clk 1 0" sv]) (use assms(12-15) sk0 in simp_all)
  obtain sig mac where
    w: "w = MAGIC @ byte_of type @ ed_public C s @ be_bytes 4 (length payload) @ payload @ sig @ mac"
    and l: "length sig = 64" "length mac = 32" "length (ed_public C s) = 32"
      "length payload \<le> MAX_PAYLOAD_SIZE"
    using assms(1,3,10) by (rule built_packet) blast
  have small: "\<not> MAX_BUFFER_SIZE < length w"
    using w l by (simp add: config)
  have e: "on_data E clk w sv sk = (sv1, sk1\<lparr>ts_buffer := []\<rparr>, [Accepted w (nat (type mod 256)) data])"
    using s small extract_built [OF assms(1,3,10)] sk0
    by (simp add: on_data_def sk0_def [symmetric] Let_def)
  show thesis
    using that [OF e] packet_step_fields [OF s] sk0 by simp
qed

section \<open>Properties\<close>

text \<open>C3. Only authentic and fresh packets are accepted. In every run of the server, whatever peers send
  and however the event loop schedules the callbacks, an accepted packet carries a correct HMAC under
  the configured secret and a correct signature of the node it names, its type and data are what was
  announced, and its timestamp was within 30 seconds of the clock when it was examined.\<close>

theorem accepted_authentic:
  assumes "tcp_run E es init_tcp = (st, effs)" and "Accepted w ty d \<in> set effs"
  shows "\<exists>p ts nonce sid data clk j.
    verifyPacket (ev_crypto E) (ev_secret E) w = Inr True \<and> parsePacket w = Inr p \<and>
    verifySignature (ev_crypto E) (ev_keys E) p = Inr True \<and> pk_type p = ty \<and>
    unwrapPayload (pk_payload p) = Inr (ts, nonce, d) \<and>
    EvData sid data clk \<in> set es \<and> \<bar>clk (Suc j) 0 - ts\<bar> \<le> REPLAY_WINDOW_MS"
proof -
  have gen: "\<exists>sid data clk j g g'. EvData sid data clk \<in> set es \<and>
      passes E (clk (Suc j) 0) w ty d g g' \<and> rg_windowMs g = REPLAY_WINDOW_MS"
    if "tcp_run E es st0 = (st, effs)" "Accepted w ty d \<in> set effs"
      "rg_windowMs (sv_replay (tst_server st0)) = REPLAY_WINDOW_MS" for st0
    using that
  proof (induction es arbitrary: st0 effs)
    case (Cons e es)
    obtain st1 effs1 where s: "tcp_step E e st0 = (st1, effs1)" by (cases "tcp_step E e st0")
    obtain effs2 where r: "tcp_run E es st1 = (st, effs2)" and effs: "effs = effs1 @ effs2"
      using Cons.prems(1) by (auto simp: s split: prod.splits)
    have w1: "rg_windowMs (sv_replay (tst_server st1)) = REPLAY_WINDOW_MS"
      using tcp_step_window [OF s] Cons.prems(3) by simp
    show ?case
    proof (cases "Accepted w ty d \<in> set effs1")
      case False
      then have "Accepted w ty d \<in> set effs2" using Cons.prems(2) effs by simp
      from Cons.IH [OF r this w1] show ?thesis by (meson list.set_intros(2))
    next
      case True
      then show ?thesis using tcp_step_accepted [OF s True] Cons.prems(3) by fastforce
    qed
  qed simp
  then obtain sid data clk j g g' where "EvData sid data clk \<in> set es"
    "passes E (clk (Suc j) 0) w ty d g g'" "rg_windowMs g = REPLAY_WINDOW_MS"
    using gen [OF assms] by (simp add: init_tcp_def new_server_def new_replay_guard_def) blast
  moreover from this(2) obtain p ts nonce where "authenticate E w = Inr p" "pk_type p = ty"
    "unwrapPayload (pk_payload p) = Inr (ts, nonce, d)"
    "check g (pk_nodeId p) (Some ts) nonce (clk (Suc j) 0) = (ReplayOk, g')"
    by (auto simp: passes_def)
  moreover from this(4) have "\<bar>clk (Suc j) 0 - ts\<bar> \<le> rg_windowMs g"
    by (auto simp: check_def split: if_splits)
  ultimately show ?thesis unfolding authenticate_Inr by metis
qed

text \<open>A concrete deployment for the witnesses: one node with a shared secret.\<close>

definition demo_env :: env where
  "demo_env = \<lparr>ev_crypto = demo_crypto, ev_keys = keystore_of demo_crypto (replicate 32 6),
     ev_secret = Some [1]\<rparr>"

lemma demo_env_simps [simp]:
  "ev_crypto demo_env = demo_crypto" "ev_secret demo_env = Some [1]"
  "sodium_ready (ev_keys demo_env)"
  by (simp_all add: demo_env_def)

lemma demo_packet:
  obtains w st where
    "tcp_run demo_env [EvConnect 0 ''a'' (\<lambda>k. 1000), EvData 0 w (\<lambda>i k. 1000)] init_tcp =
       (st, [Accepted w 2 [9]])"
    "extractPackets w = Inr ([w], [])" "jm_get (tst_socks st) 1 = None"
proof -
  define payload where "payload = (be_bytes 8 900 @ replicate 16 3 @ [9] :: bytes)"
  have wp: "wrapPayload 900 (replicate 16 3) [9] = Inr payload"
    by (simp add: wrapPayload_def writeBigUInt64BE_def payload_def)
  obtain w where w: "buildPacket demo_crypto (keystore_of demo_crypto (replicate 32 5)) (Some [1]) 2 payload = Inr w"
    using buildPacket_eq [of demo_crypto "keystore_of demo_crypto (replicate 32 5)" "Some [1]" 2 payload]
    by (auto simp: keystore_of_def Let_def payload_def MAX_PAYLOAD_SIZE_def)
  define sk :: tsock where "sk = \<lparr>ts_ip = ''a'', ts_buffer = [], ts_lastActivity = 1000,
    ts_connectionStart = 1000, ts_packetCount = 0, ts_rateWindowStart = 1000, ts_destroyed = False\<rparr>"
  have nd: "\<not> ts_destroyed sk" by (simp add: sk_def)
  have c: "on_connection ''a'' (\<lambda>k. 1000) new_server = (Some sk, new_server, [])"
    by (simp add: on_connection_def new_server_def new_blacklist_def isBanned_def sk_def)
  obtain sv' sk' where "on_data demo_env (\<lambda>i k. 1000) w new_server sk =
      (sv', sk', [Accepted w (nat (2 mod 256)) [9]])"
    by (rule on_data_honest [OF demo_sizes demo_sign _ _ _ _ wp _ _ w,
          of demo_env sk "\<lambda>i k. 1000" new_server])
      (simp_all add: NONCE_LEN_def sk_def sock_hit_def rate_socket_def Let_def config new_server_def
        allow_def new_rate_limiter_def new_replay_guard_def purge_def jm_has_def)
  then have "tcp_run demo_env [EvConnect 0 ''a'' (\<lambda>k. 1000), EvData 0 w (\<lambda>i k. 1000)] init_tcp =
      (init_tcp\<lparr>tst_server := sv', tst_socks := [(0, sk')]\<rparr>, [Accepted w 2 [9]])"
    using c nd by (simp add: init_tcp_def tcp_put_def tcp_open_def jm_get_def)
  then show thesis using that extract_built [OF demo_sizes _ w] by (simp add: jm_get_def)
qed

theorem accepted_authentic_witness:
  "\<exists>w. (\<exists>st. tcp_run demo_env [EvConnect 0 ''a'' (\<lambda>k. 1000), EvData 0 w (\<lambda>i k. 1000)] init_tcp =
      (st, [Accepted w 2 [9]])) \<and>
    verifyPacket demo_crypto (Some [1]) w = Inr True"
proof -
  obtain w st where r: "tcp_run demo_env [EvConnect 0 ''a'' (\<lambda>k. 1000), EvData 0 w (\<lambda>i k. 1000)] init_tcp =
      (st, [Accepted w 2 [9]])"
    by (rule demo_packet)
  then show ?thesis using accepted_authentic [OF r, of w 2 "[9]"] by auto
qed

text \<open>C4. No packet is accepted twice, over all connections of all addresses: in every run whose clock does
  not go back and which accepts at most \<open>REPLAY_CACHE_MAX\<close> packets, the accepted packets have distinct
  identities (node, timestamp, nonce), so a recorded packet is never accepted again on any socket.\<close>

theorem no_packet_twice:
  assumes "tcp_run E es init_tcp = (st, effs)" and "clock_runs t es"
    and "length (accepted_packets effs) \<le> REPLAY_CACHE_MAX"
  shows "distinct (map packet_id (accepted_packets effs)) \<and>
    (\<forall>w \<in> set (accepted_packets effs). packet_id w \<noteq> None)"
proof -
  have "guarded (sv_replay (tst_server init_tcp)) t []" by (simp add: guarded_def)
  from tcp_run_guarded [OF assms(1) this guard_ok_new assms(2)] assms(3)
  obtain t' where g: "guarded (sv_replay (tst_server st)) t' (rev (map packet_id (accepted_packets effs)))"
    by auto
  have "x \<noteq> None" if "x \<in> set (rev (map packet_id (accepted_packets effs)))" for x
    using g that unfolding guarded_def by (metis in_set_conv_nth option.distinct(1))
  then show ?thesis using g by (simp add: guarded_def)
qed

text \<open>Accepted packets of one data event are a prefix of what the buffer holds.\<close>

lemma on_data_prefix:
  assumes "on_data E clk data sv sk = (sv', sk', effs)"
    and "extractPackets (ts_buffer sk @ data) = Inr (ps, rest)"
  shows "\<exists>k. accepted_packets effs = take k ps"
  using assms(1)
proof (cases rule: on_data_loop)
  case 1
  then show ?thesis by (auto intro: exI [of _ 0])
next
  case (2 ps' rest' r sk0 sv1 sk1 effs1)
  then show ?thesis using packet_loop_effects [OF 2(2)] assms(2)
    by (auto split: option.splits intro: exI [of _ "length ps"])
qed

lemma connect_data_prefix:
  assumes "tcp_run E [EvConnect sid ip clk, EvData sid w clk'] st = (st', effs)"
    and "extractPackets w = Inr (ps, rest)" and "jm_get (tst_socks st) sid = None"
  shows "\<exists>k. accepted_packets effs = take k ps"
proof -
  obtain so sv1 e1 where c: "on_connection ip clk (tst_server st) = (so, sv1, e1)"
    by (metis prod_cases3)
  show ?thesis
  proof (cases so)
    case None
    then show ?thesis using assms(1,3) c
      by (auto simp: on_connection_def tcp_open_def split: prod.splits bool.splits intro: exI [of _ 0])
  next
    case (Some sk)
    then have sk: "ts_buffer sk = []" "\<not> ts_destroyed sk" "e1 = []"
      using c by (auto simp: on_connection_def split: prod.splits bool.splits)
    obtain sv2 sk2 e2 where d: "on_data E clk' w sv1 sk = (sv2, sk2, e2)" by (metis prod_cases3)
    have "effs = e2" using assms(1) c Some sk d by (auto simp: tcp_put_def tcp_open_def)
    then show ?thesis using on_data_prefix [OF d] assms(2) sk by simp
  qed
qed

theorem no_packet_twice_witness:
  "\<exists>w. accepted_packets (snd (tcp_run demo_env [EvConnect 0 ''a'' (\<lambda>k. 1000),
      EvData 0 w (\<lambda>i k. 1000), EvConnect 1 ''a'' (\<lambda>k. 1000), EvData 1 w (\<lambda>i k. 1000)] init_tcp)) = [w]"
proof -
  obtain w st1 where r1: "tcp_run demo_env [EvConnect 0 ''a'' (\<lambda>k. 1000), EvData 0 w (\<lambda>i k. 1000)] init_tcp =
      (st1, [Accepted w 2 [9]])"
    and x: "extractPackets w = Inr ([w], [])" "jm_get (tst_socks st1) 1 = None"
    by (rule demo_packet)
  let ?es2 = "[EvConnect 1 ''a'' (\<lambda>k. 1000), EvData 1 w (\<lambda>i k. 1000)]"
  let ?es = "[EvConnect 0 ''a'' (\<lambda>k. 1000), EvData 0 w (\<lambda>i k. 1000)] @ ?es2"
  obtain st effs2 where r2: "tcp_run demo_env ?es2 st1 = (st, effs2)" by (cases "tcp_run demo_env ?es2 st1")
  have r: "tcp_run demo_env ?es init_tcp = (st, Accepted w 2 [9] # effs2)"
    by (simp only: tcp_run_append r1 r2 prod.case) simp
  have sub: "accepted_packets effs2 = [] \<or> accepted_packets effs2 = [w]"
    using connect_data_prefix [OF r2 x] by (auto simp: take_Cons' split: if_splits)
  have "clock_runs 0 ?es" by (auto simp: mono_def intro: exI [of _ 1000])
  from no_packet_twice [OF r this] sub show ?thesis using r
    by (auto simp: REPLAY_CACHE_MAX_def intro!: exI [of _ w])
qed


lemma garbage_rejected: "extractPackets (replicate 41 0) = Inl InvalidMagic"
proof -
  have "hd (take 4 (replicate 41 (0 :: byte))) \<noteq> hd MAGIC" by (simp add: MAGIC_def)
  then have "take 4 (replicate 41 (0 :: byte)) \<noteq> MAGIC" by metis
  then have "packet_next (replicate 41 0) = Fail InvalidMagic"
    by (simp add: packet_next_def HEADER_LEN_def)
  then show ?thesis by (simp add: packet_cut_Fail flip: extract_packet_cut)
qed



text \<open>Five garbage connections, for the witness.\<close>

definition garbage_run :: "tcp_event list" where
  "garbage_run = concat (map (\<lambda>i. [EvConnect i ''a'' (\<lambda>k. 0), EvData i (replicate 41 0) (\<lambda>i k. 0)])
     [0, 1, 2, 3, 4])"


text \<open>C7. The server is usable: a packet that an honest node wraps and builds is accepted, with its type
  and data, by any server that shares the secret, as long as its socket and its address are within their
  quotas, its timestamp is within the window, and its nonce is not in the cache; and the sender gets no
  strike.\<close>

theorem honest_packet_accepted:
  assumes "crypto_sizes C" and "sign_correct C" and "length s = 32"
    and "ev_crypto E = C" and "ev_secret E = Some key" and "sodium_ready (ev_keys E)"
    and "wrapPayload ts nonce data = Inr payload" and "length nonce = NONCE_LEN" and "ts < 2 ^ 53"
    and "buildPacket C (keystore_of C s) (Some key) type payload = Inr w"
    and "tcp_open st sid = Some sk" and "ts_buffer sk = []"
    and "fst (sock_hit sk () (clk 1 0))"
    and "fst (allow (sv_limiter (tst_server st)) (ts_ip sk) (clk 1 0))"
    and "\<bar>clk 1 0 - ts\<bar> \<le> rg_windowMs (sv_replay (tst_server st))"
    and "\<not> jm_has (rg_seen (purge (clk 1 0) (sv_replay (tst_server st)))) (replay_key (ed_public C s) nonce)"
  shows "snd (tcp_step E (EvData sid w clk) st) = [Accepted w (nat (type mod 256)) data] \<and>
    sv_blacklist (tst_server (fst (tcp_step E (EvData sid w clk) st))) = sv_blacklist (tst_server st)"
proof -
  obtain sv' sk' where
    "on_data E clk w (tst_server st) sk = (sv', sk', [Accepted w (nat (type mod 256)) data])"
    "sv_blacklist sv' = sv_blacklist (tst_server st)"
    by (rule on_data_honest [OF assms(1-10), of sk clk "tst_server st"]) (use assms(12-16) in simp_all)
  then show ?thesis using assms(11) by simp
qed

theorem honest_packet_accepted_witness:
  "\<exists>w. snd (tcp_step demo_env (EvData 7 w (\<lambda>i k. 1000))
     \<lparr>tst_server = new_server, tst_socks = [(7, \<lparr>ts_ip = ''a'', ts_buffer = [], ts_lastActivity = 1000,
        ts_connectionStart = 1000, ts_packetCount = 49, ts_rateWindowStart = 1000, ts_destroyed = False\<rparr>)]\<rparr>) =
     [Accepted w 2 [9]]"
proof -
  define payload where "payload = (be_bytes 8 900 @ replicate 16 3 @ [9] :: bytes)"
  let ?sk = "\<lparr>ts_ip = ''a'', ts_buffer = [], ts_lastActivity = 1000,
        ts_connectionStart = 1000, ts_packetCount = 49, ts_rateWindowStart = 1000, ts_destroyed = False\<rparr>"
  let ?st = "\<lparr>tst_server = new_server, tst_socks = [(7, ?sk)]\<rparr>"
  have wp: "wrapPayload 900 (replicate 16 3) [9] = Inr payload"
    by (simp add: wrapPayload_def writeBigUInt64BE_def payload_def)
  obtain w where w: "buildPacket demo_crypto (keystore_of demo_crypto (replicate 32 5)) (Some [1]) 258 payload = Inr w"
    using buildPacket_eq [of demo_crypto "keystore_of demo_crypto (replicate 32 5)" "Some [1]" 258 payload]
    by (auto simp: keystore_of_def Let_def payload_def MAX_PAYLOAD_SIZE_def)
  have o: "tcp_open ?st 7 = Some ?sk" by (simp add: tcp_open_def jm_get_def)
  have "snd (tcp_step demo_env (EvData 7 w (\<lambda>i k. 1000)) ?st) = [Accepted w (nat (258 mod 256)) [9]]"
    using honest_packet_accepted [OF demo_sizes demo_sign _ _ _ _ wp _ _ w o, of demo_env "\<lambda>i k. 1000"]
    by (simp add: NONCE_LEN_def sock_hit_def rate_socket_def Let_def config new_server_def
        allow_def new_rate_limiter_def new_replay_guard_def purge_def jm_has_def)
  then show ?thesis by auto
qed

end
