(* ===== verification/Handshake.thy ===== *)
theory Handshake
  imports Keys
begin

text \<open>
  \<open>src/crypto/handshake.js\<close>: the three-message key exchange and the session it yields.

  The ephemeral private key of a handshake object (drawn by \<open>crypto_kx_keypair\<close>) and the nonce of a
  sealed message (drawn by \<open>randomBytes\<close>) are arguments. A method of a handshake object returns its
  result or error together with the object afterwards, since the code assigns fields before later
  calls that may throw. All calls of \<open>seal\<close> and \<open>open\<close> in the program leave \<open>aad\<close> at \<open>null\<close>, which the
  model does too.
\<close>

section \<open>Constants and key derivation\<close>

definition ascii :: "string \<Rightarrow> bytes" where
  "ascii s = map (\<lambda>c. of_nat (of_char c)) s"

definition HKDF_SALT :: bytes where
  "HKDF_SALT = ascii ''AttestP2P-noise-v1''"

definition REKEY_SALT :: bytes where
  "REKEY_SALT = ascii ''AttestP2P-rekey-v1''"

definition EPUB_LEN :: nat where
  [layout]: "EPUB_LEN = 32"

definition ID_LEN :: nat where
  [layout]: "ID_LEN = 32"

definition SIG_LEN :: nat where
  [layout]: "SIG_LEN = 64"

definition MSG1_LEN :: nat where
  [layout]: "MSG1_LEN = EPUB_LEN + ID_LEN + SIG_LEN"

definition MSG2_LEN :: nat where
  [layout]: "MSG2_LEN = EPUB_LEN + ID_LEN + SIG_LEN"

definition MSG3_LEN :: nat where
  [layout]: "MSG3_LEN = SIG_LEN"

definition NPUBBYTES :: nat where
  [layout]: "NPUBBYTES = 24"

definition ensureReady :: "keystore \<Rightarrow> unit res" where
  "ensureReady ks = (if sodium_ready ks then Inr () else Inl SodiumNotReady)"

definition hkdf :: "crypto \<Rightarrow> bytes \<Rightarrow> string \<Rightarrow> bytes" where
  "hkdf C ikm info = hkdf_sync C ikm HKDF_SALT (ascii info)"

definition deriveRekey :: "crypto \<Rightarrow> bytes \<Rightarrow> bytes" where
  "deriveRekey C key = hkdf_sync C key REKEY_SALT (ascii ''AttestP2P rekey'')"

text \<open>The pair \<open>(kI, kR)\<close>.\<close>

definition deriveSessionKeys :: "crypto \<Rightarrow> bytes \<Rightarrow> bytes \<times> bytes" where
  "deriveSessionKeys C dh = (hkdf C dh ''AttestP2P I->R'', hkdf C dh ''AttestP2P R->I'')"

section \<open>SecureSession\<close>

text \<open>The counters \<open>txGen\<close> and \<open>rxGen\<close> start undefined, which \<open>|| 0\<close> reads as zero.\<close>

record session =
  ss_txKey :: bytes
  ss_rxKey :: bytes
  ss_peerId :: bytes
  ss_txGen :: nat
  ss_rxGen :: nat

definition new_session :: "bytes \<Rightarrow> bytes \<Rightarrow> bytes \<Rightarrow> session" where
  "new_session txKey rxKey peerId =
     \<lparr>ss_txKey = txKey, ss_rxKey = rxKey, ss_peerId = peerId, ss_txGen = 0, ss_rxGen = 0\<rparr>"

definition seal :: "crypto \<Rightarrow> bytes \<Rightarrow> bytes \<Rightarrow> session \<Rightarrow> bytes" where
  "seal C nonce plaintext s = nonce @ aead_encrypt C plaintext nonce (ss_txKey s)"

definition open_sealed :: "crypto \<Rightarrow> bytes \<Rightarrow> session \<Rightarrow> bytes res" where
  "open_sealed C sealed s =
     (if length sealed < NPUBBYTES then Inl SealedTooShort
      else aead_decrypt C (drop NPUBBYTES sealed) (subarray sealed 0 NPUBBYTES) (ss_rxKey s))"

definition rekeyTx :: "crypto \<Rightarrow> session \<Rightarrow> session" where
  "rekeyTx C s = s\<lparr>ss_txKey := deriveRekey C (ss_txKey s), ss_txGen := ss_txGen s + 1\<rparr>"

definition rekeyRx :: "crypto \<Rightarrow> session \<Rightarrow> session" where
  "rekeyRx C s = s\<lparr>ss_rxKey := deriveRekey C (ss_rxKey s), ss_rxGen := ss_rxGen s + 1\<rparr>"

section \<open>HandshakeInitiator\<close>

record initiator =
  hi_ePriv :: bytes
  hi_ePub :: bytes
  hi_id :: bytes
  hi_done :: bool
  hi_session :: "session option"

definition new_initiator :: "crypto \<Rightarrow> keystore \<Rightarrow> bytes \<Rightarrow> initiator res" where
  "new_initiator C ks ePriv =
     bind_res (ensureReady ks) (\<lambda>_.
       bind_res (getPublicKey ks) (\<lambda>id.
         Inr \<lparr>hi_ePriv = ePriv, hi_ePub = x_public C ePriv, hi_id = id, hi_done = False,
              hi_session = None\<rparr>))"

definition createMessage1 :: "crypto \<Rightarrow> keystore \<Rightarrow> initiator \<Rightarrow> bytes res" where
  "createMessage1 C ks h =
     bind_res (sign C ks (hi_ePub h)) (\<lambda>sig. Inr (hi_ePub h @ hi_id h @ sig))"

definition consumeMessage2 ::
    "crypto \<Rightarrow> keystore \<Rightarrow> bytes \<Rightarrow> initiator \<Rightarrow> (bytes \<times> session) res \<times> initiator" where
  "consumeMessage2 C ks msg2 h =
     (if length msg2 \<noteq> MSG2_LEN then (Inl (HsBadSize 2), h)
      else
        let rEpub = subarray msg2 0 EPUB_LEN;
            rId = subarray msg2 EPUB_LEN (EPUB_LEN + ID_LEN);
            rSig = subarray msg2 (EPUB_LEN + ID_LEN) MSG2_LEN;
            transcript = rEpub @ hi_ePub h
        in case ed_verify C rSig transcript rId of
             Inl e \<Rightarrow> (Inl e, h)
           | Inr False \<Rightarrow> (Inl (HsBadSignature 2), h)
           | Inr True \<Rightarrow>
               (case x_scalarmult C (hi_ePriv h) rEpub of
                  Inl e \<Rightarrow> (Inl e, h)
                | Inr dh \<Rightarrow>
                    let (kI, kR) = deriveSessionKeys C dh;
                        session = new_session kI kR rId;
                        h = h\<lparr>hi_session := Some session\<rparr>
                    in case sign C ks (hi_ePub h @ rEpub) of
                         Inl e \<Rightarrow> (Inl e, h)
                       | Inr sig3 \<Rightarrow> (Inr (sig3, session), h\<lparr>hi_done := True\<rparr>)))"

section \<open>HandshakeResponder\<close>

record responder =
  hr_ePriv :: bytes
  hr_ePub :: bytes
  hr_id :: bytes
  hr_done :: bool
  hr_iEpub :: "bytes option"
  hr_iId :: "bytes option"
  hr_session :: "session option"

definition new_responder :: "crypto \<Rightarrow> keystore \<Rightarrow> bytes \<Rightarrow> responder res" where
  "new_responder C ks ePriv =
     bind_res (ensureReady ks) (\<lambda>_.
       bind_res (getPublicKey ks) (\<lambda>id.
         Inr \<lparr>hr_ePriv = ePriv, hr_ePub = x_public C ePriv, hr_id = id, hr_done = False,
              hr_iEpub = None, hr_iId = None, hr_session = None\<rparr>))"

definition consumeMessage1 ::
    "crypto \<Rightarrow> keystore \<Rightarrow> bytes \<Rightarrow> responder \<Rightarrow> bytes res \<times> responder" where
  "consumeMessage1 C ks msg1 h =
     (if length msg1 \<noteq> MSG1_LEN then (Inl (HsBadSize 1), h)
      else
        let iEpub = subarray msg1 0 EPUB_LEN;
            iId = subarray msg1 EPUB_LEN (EPUB_LEN + ID_LEN);
            iSig = subarray msg1 (EPUB_LEN + ID_LEN) MSG1_LEN
        in case ed_verify C iSig iEpub iId of
             Inl e \<Rightarrow> (Inl e, h)
           | Inr False \<Rightarrow> (Inl (HsBadSignature 1), h)
           | Inr True \<Rightarrow>
               let h = h\<lparr>hr_iEpub := Some iEpub, hr_iId := Some iId\<rparr> in
               (case x_scalarmult C (hr_ePriv h) iEpub of
                  Inl e \<Rightarrow> (Inl e, h)
                | Inr dh \<Rightarrow>
                    let (kI, kR) = deriveSessionKeys C dh;
                        h = h\<lparr>hr_session := Some (new_session kR kI iId)\<rparr>
                    in case sign C ks (hr_ePub h @ iEpub) of
                         Inl e \<Rightarrow> (Inl e, h)
                       | Inr sig2 \<Rightarrow> (Inr (hr_ePub h @ hr_id h @ sig2), h)))"

text \<open>
  Before a MSG1 the fields \<open>iEpub\<close>, \<open>iId\<close> and \<open>session\<close> are undefined; concatenating \<open>undefined\<close> is a
  type error. The session is returned as it is stored (always present once \<open>iEpub\<close> is and MSG1 went
  through).
\<close>

definition consumeMessage3 ::
    "crypto \<Rightarrow> bytes \<Rightarrow> responder \<Rightarrow> session option res \<times> responder" where
  "consumeMessage3 C msg3 h =
     (if length msg3 \<noteq> MSG3_LEN then (Inl (HsBadSize 3), h)
      else case (hr_iEpub h, hr_iId h) of
        (Some iEpub, Some iId) \<Rightarrow>
          (case ed_verify C msg3 (iEpub @ hr_ePub h) iId of
             Inl e \<Rightarrow> (Inl e, h)
           | Inr False \<Rightarrow> (Inl (HsBadSignature 3), h)
           | Inr True \<Rightarrow> (Inr (hr_session h), h\<lparr>hr_done := True\<rparr>))
      | _ \<Rightarrow> (Inl TypeError, h))"

section \<open>The contract of a session\<close>

text \<open>
  What a connection relies on: while the sender's transmitting side and the receiver's receiving side
  are in phase, every sealed message opens to its plaintext; a rekey of both keeps them in phase, and
  a rekey of the other direction does not disturb them.
\<close>

locale secure_channel =
  fixes wrap :: "bytes \<Rightarrow> bytes \<Rightarrow> 's \<Rightarrow> bytes"
    and unwrap :: "bytes \<Rightarrow> 's \<Rightarrow> bytes res"
    and next_tx :: "'s \<Rightarrow> 's"
    and next_rx :: "'s \<Rightarrow> 's"
    and phase :: "'s \<Rightarrow> 's \<Rightarrow> bool"
  assumes unwrap_wrap: "phase s t \<Longrightarrow> length nonce = NPUBBYTES \<Longrightarrow> unwrap (wrap nonce p s) t = Inr p"
    and phase_next: "phase s t \<Longrightarrow> phase (next_tx s) (next_rx t)"
    and phase_other: "phase (next_rx s) t \<longleftrightarrow> phase s t" "phase s (next_tx t) \<longleftrightarrow> phase s t"
begin

text \<open>
  A sender's output is a list of plaintexts, some of which rekey the direction; \<open>wrap_all\<close> seals it,
  \<open>unwrap_all\<close> opens it, each side advancing its key after a rekeying plaintext.
\<close>

fun wrap_all :: "(bytes \<Rightarrow> bool) \<Rightarrow> 's \<Rightarrow> (bytes \<times> bytes) list \<Rightarrow> bytes list" where
  "wrap_all rk s [] = []"
| "wrap_all rk s ((nonce, p) # ps) =
     wrap nonce p s # wrap_all rk (if rk p then next_tx s else s) ps"

fun unwrap_all :: "(bytes \<Rightarrow> bool) \<Rightarrow> 's \<Rightarrow> bytes list \<Rightarrow> bytes list res" where
  "unwrap_all rk t [] = Inr []"
| "unwrap_all rk t (w # ws) =
     bind_res (unwrap w t) (\<lambda>p.
       bind_res (unwrap_all rk (if rk p then next_rx t else t) ws) (\<lambda>ps. Inr (p # ps)))"

lemma stream_opens:
  "phase s t \<Longrightarrow> \<forall>(n, p) \<in> set ps. length n = NPUBBYTES \<Longrightarrow>
     unwrap_all rk t (wrap_all rk s ps) = Inr (map snd ps)"
proof (induction ps arbitrary: s t)
  case (Cons np ps)
  obtain n p where "np = (n, p)" by (cases np)
  then show ?case using Cons unwrap_wrap [of s t n p] phase_next [of s t] by simp
qed simp

end

definition in_phase :: "crypto \<Rightarrow> session \<Rightarrow> session \<Rightarrow> bool" where
  "in_phase C s t \<longleftrightarrow> crypto_sizes C \<and> aead_correct C \<and>
     ss_txKey s = ss_rxKey t \<and> length (ss_txKey s) = 32"

lemma length_hkdf [layout]: "crypto_sizes C \<Longrightarrow> length (hkdf C k i) = 32"
  by (simp add: hkdf_def crypto_sizesD)

lemma length_deriveRekey [layout]: "crypto_sizes C \<Longrightarrow> length (deriveRekey C k) = 32"
  by (simp add: deriveRekey_def crypto_sizesD)

interpretation session: secure_channel "seal C" "open_sealed C" "rekeyTx C" "rekeyRx C" "in_phase C" for C
proof unfold_locales
  fix s t :: session and nonce p :: bytes
  show "in_phase C s t \<Longrightarrow> length nonce = NPUBBYTES \<Longrightarrow> open_sealed C (seal C nonce p s) t = Inr p"
    by (auto simp: in_phase_def open_sealed_def seal_def aead_correct_def NPUBBYTES_def)
  show "in_phase C s t \<Longrightarrow> in_phase C (rekeyTx C s) (rekeyRx C t)"
    by (simp add: in_phase_def rekeyTx_def rekeyRx_def length_deriveRekey)
qed (simp_all add: in_phase_def rekeyTx_def rekeyRx_def)

section \<open>Messages\<close>

lemma three_slices:
  assumes "length a = 32" and "length b = 32" and "length c = 64"
  shows "subarray (a @ b @ c) 0 EPUB_LEN = a" and "subarray (a @ b @ c) EPUB_LEN (EPUB_LEN + ID_LEN) = b"
    and "subarray (a @ b @ c) (EPUB_LEN + ID_LEN) MSG1_LEN = c"
    and "subarray (a @ b @ c) (EPUB_LEN + ID_LEN) MSG2_LEN = c"
    and "length (a @ b @ c) = MSG1_LEN" and "length (a @ b @ c) = MSG2_LEN"
  using assms by (simp_all add: subarray_def layout)

lemma consumeMessage1_ok:
  assumes "length e = 32" and "length i = 32" and "length sig = 64"
    and "ed_verify C sig e i = Inr True" and "x_scalarmult C (hr_ePriv h) e = Inr dh"
    and "sign C ks (hr_ePub h @ e) = Inr sig2"
  shows "consumeMessage1 C ks (e @ i @ sig) h =
    (Inr (hr_ePub h @ hr_id h @ sig2),
     h\<lparr>hr_iEpub := Some e, hr_iId := Some i,
       hr_session := Some (new_session (snd (deriveSessionKeys C dh)) (fst (deriveSessionKeys C dh)) i)\<rparr>)"
  using three_slices [OF assms(1-3)] assms(4-6)
  by (simp add: consumeMessage1_def Let_def deriveSessionKeys_def)

lemma consumeMessage2_ok:
  assumes "length e = 32" and "length i = 32" and "length sig = 64"
    and "ed_verify C sig (e @ hi_ePub h) i = Inr True" and "x_scalarmult C (hi_ePriv h) e = Inr dh"
    and "sign C ks (hi_ePub h @ e) = Inr sig3"
  shows "\<exists>h'. consumeMessage2 C ks (e @ i @ sig) h =
    (Inr (sig3, new_session (fst (deriveSessionKeys C dh)) (snd (deriveSessionKeys C dh)) i), h')"
  using three_slices [OF assms(1-3)] assms(4-6)
  by (simp add: consumeMessage2_def Let_def deriveSessionKeys_def)

lemma consumeMessage3_ok:
  assumes "length sig = 64" and "hr_iEpub h = Some e" and "hr_iId h = Some i"
    and "ed_verify C sig (e @ hr_ePub h) i = Inr True"
  shows "consumeMessage3 C sig h = (Inr (hr_session h), h\<lparr>hr_done := True\<rparr>)"
  using assms by (simp add: consumeMessage3_def layout)

text \<open>The objects of the nodes with identity seed \<open>a\<close> (initiator) and \<open>b\<close> (responder).\<close>

definition initiator_of :: "crypto \<Rightarrow> bytes \<Rightarrow> bytes \<Rightarrow> initiator" where
  "initiator_of C a x =
     \<lparr>hi_ePriv = x, hi_ePub = x_public C x, hi_id = ed_public C a, hi_done = False, hi_session = None\<rparr>"

definition responder_of :: "crypto \<Rightarrow> bytes \<Rightarrow> bytes \<Rightarrow> responder" where
  "responder_of C b y =
     \<lparr>hr_ePriv = y, hr_ePub = x_public C y, hr_id = ed_public C b, hr_done = False,
      hr_iEpub = None, hr_iId = None, hr_session = None\<rparr>"

lemma new_initiator_of: "new_initiator C (keystore_of C a) x = Inr (initiator_of C a x)"
  by (simp add: new_initiator_def ensureReady_def initiator_of_def)

lemma new_responder_of: "new_responder C (keystore_of C b) y = Inr (responder_of C b y)"
  by (simp add: new_responder_def ensureReady_def responder_of_def)

text \<open>
  A network run of the exchange: the initiator's MSG1 and MSG3 reach the responder through \<open>alter1\<close> and
  \<open>alter3\<close> (what an attacker on the path makes of them), MSG2 comes back unchanged. The result is the
  session of each side.
\<close>

definition exchange ::
    "crypto \<Rightarrow> keystore \<Rightarrow> bytes \<Rightarrow> keystore \<Rightarrow> bytes \<Rightarrow> (bytes \<Rightarrow> bytes) \<Rightarrow> (bytes \<Rightarrow> bytes \<Rightarrow> bytes \<Rightarrow> bytes) \<Rightarrow>
     (session \<times> session) res" where
  "exchange C ksI x ksR y alter1 alter3 =
     bind_res (new_initiator C ksI x) (\<lambda>hi.
     bind_res (new_responder C ksR y) (\<lambda>hr.
     bind_res (createMessage1 C ksI hi) (\<lambda>msg1.
     case consumeMessage1 C ksR (alter1 msg1) hr of
       (Inl e, hr) \<Rightarrow> Inl e
     | (Inr msg2, hr) \<Rightarrow>
         (case consumeMessage2 C ksI msg2 hi of
            (Inl e, hi) \<Rightarrow> Inl e
          | (Inr (msg3, sI), hi) \<Rightarrow>
              (case consumeMessage3 C (alter3 msg1 msg2 msg3) hr of
                 (Inl e, hr) \<Rightarrow> Inl e
               | (Inr None, hr) \<Rightarrow> Inl TypeError
               | (Inr (Some sR), hr) \<Rightarrow> Inr (sI, sR))))))"

text \<open>The objects and messages of an exchange in which the responder sees the initiator as \<open>m\<close>.\<close>

definition msg1_of :: "crypto \<Rightarrow> bytes \<Rightarrow> bytes \<Rightarrow> bytes" where
  "msg1_of C a x = x_public C x @ ed_public C a @ ed_sign C (ed_private C a) (x_public C x)"

definition msg2_of :: "crypto \<Rightarrow> bytes \<Rightarrow> bytes \<Rightarrow> bytes \<Rightarrow> bytes" where
  "msg2_of C b x y = x_public C y @ ed_public C b @ ed_sign C (ed_private C b) (x_public C y @ x_public C x)"

definition msg3_of :: "crypto \<Rightarrow> bytes \<Rightarrow> bytes \<Rightarrow> bytes \<Rightarrow> bytes" where
  "msg3_of C a x y = ed_sign C (ed_private C a) (x_public C x @ x_public C y)"

lemma length_msgs:
  assumes "crypto_sizes C" and "length a = 32" and "length b = 32" and "length x = 32" and "length y = 32"
  shows "length (msg1_of C a x) = 128" and "length (msg2_of C b x y) = 128" and "length (msg3_of C a x y) = 64"
  using assms crypto_sizesD [OF assms(1)] by (simp_all add: msg1_of_def msg2_of_def msg3_of_def)

lemma messages_as:
  assumes "crypto_sizes C" and "sign_correct C" and "dh_agrees C"
    and "length a = 32" and "length b = 32" and "length x = 32" and "length y = 32" and "length m = 32"
  obtains dh kI kR hi' hr' where
    "x_scalarmult C x (x_public C y) = Inr dh" "deriveSessionKeys C dh = (kI, kR)"
    "consumeMessage1 C (keystore_of C b) (msg1_of C m x) (responder_of C b y) = (Inr (msg2_of C b x y), hr')"
    "consumeMessage2 C (keystore_of C a) (msg2_of C b x y) (initiator_of C a x) =
       (Inr (msg3_of C a x y, new_session kI kR (ed_public C b)), hi')"
    "consumeMessage3 C (msg3_of C m x y) hr' =
       (Inr (Some (new_session kR kI (ed_public C m))), hr'\<lparr>hr_done := True\<rparr>)"
proof -
  obtain dh where dh: "x_scalarmult C x (x_public C y) = Inr dh" "x_scalarmult C y (x_public C x) = Inr dh"
    using assms(3,6,7) unfolding dh_agrees_def by metis
  obtain kI kR where k: "deriveSessionKeys C dh = (kI, kR)" by (cases "deriveSessionKeys C dh")
  note sz = crypto_sizesD [OF assms(1)]
  let ?hr' = "(responder_of C b y)\<lparr>hr_iEpub := Some (x_public C x), hr_iId := Some (ed_public C m),
      hr_session := Some (new_session kR kI (ed_public C m))\<rparr>"
  have c1: "consumeMessage1 C (keystore_of C b) (msg1_of C m x) (responder_of C b y) =
      (Inr (msg2_of C b x y), ?hr')"
    using consumeMessage1_ok [of "x_public C x" "ed_public C m" "ed_sign C (ed_private C m) (x_public C x)"
        C "responder_of C b y" dh "keystore_of C b"] sz assms dh k sign_correctD [OF assms(2,8)]
    by (simp add: msg1_of_def msg2_of_def responder_of_def)
  obtain hi' where c2: "consumeMessage2 C (keystore_of C a) (msg2_of C b x y) (initiator_of C a x) =
      (Inr (msg3_of C a x y, new_session kI kR (ed_public C b)), hi')"
    using consumeMessage2_ok [of "x_public C y" "ed_public C b"
        "ed_sign C (ed_private C b) (x_public C y @ x_public C x)" C "initiator_of C a x" dh "keystore_of C a"]
      sz assms dh k sign_correctD [OF assms(2,5)]
    by (auto simp: msg2_of_def msg3_of_def initiator_of_def)
  have "consumeMessage3 C (msg3_of C m x y) ?hr' =
      (Inr (Some (new_session kR kI (ed_public C m))), ?hr'\<lparr>hr_done := True\<rparr>)"
    using consumeMessage3_ok [of "msg3_of C m x y" ?hr' "x_public C x" "ed_public C m" C]
      sz assms sign_correctD [OF assms(2,8)]
    by (simp add: msg3_of_def responder_of_def)
  then show thesis using that dh(1) k c1 c2 by blast
qed

lemma exchange_as:
  assumes "crypto_sizes C" and "sign_correct C" and "dh_agrees C"
    and "length a = 32" and "length b = 32" and "length x = 32" and "length y = 32" and "length m = 32"
    and "alter1 (msg1_of C a x) = msg1_of C m x"
    and "alter3 (msg1_of C a x) (msg2_of C b x y) (msg3_of C a x y) = msg3_of C m x y"
  shows "\<exists>dh kI kR. x_scalarmult C x (x_public C y) = Inr dh \<and> deriveSessionKeys C dh = (kI, kR) \<and>
    exchange C (keystore_of C a) x (keystore_of C b) y alter1 alter3 =
      Inr (new_session kI kR (ed_public C b), new_session kR kI (ed_public C m))"
proof -
  obtain dh kI kR hi' hr' where m: "x_scalarmult C x (x_public C y) = Inr dh" "deriveSessionKeys C dh = (kI, kR)"
    "consumeMessage1 C (keystore_of C b) (msg1_of C m x) (responder_of C b y) = (Inr (msg2_of C b x y), hr')"
    "consumeMessage2 C (keystore_of C a) (msg2_of C b x y) (initiator_of C a x) =
       (Inr (msg3_of C a x y, new_session kI kR (ed_public C b)), hi')"
    "consumeMessage3 C (msg3_of C m x y) hr' =
       (Inr (Some (new_session kR kI (ed_public C m))), hr'\<lparr>hr_done := True\<rparr>)"
    by (rule messages_as [OF assms(1-8)])
  have "createMessage1 C (keystore_of C a) (initiator_of C a x) = Inr (msg1_of C a x)"
    by (simp add: createMessage1_def initiator_of_def msg1_of_def)
  then show ?thesis using m assms(9,10)
    by (simp add: exchange_def new_initiator_of new_responder_of)
qed

section \<open>Properties\<close>

definition mirrored :: "session \<Rightarrow> session \<Rightarrow> bool" where
  "mirrored s t \<longleftrightarrow> ss_txKey s = ss_rxKey t \<and> ss_rxKey s = ss_txKey t \<and>
     length (ss_txKey s) = 32 \<and> length (ss_rxKey s) = 32"

lemma mirrored_new:
  "crypto_sizes C \<Longrightarrow> deriveSessionKeys C dh = (kI, kR) \<Longrightarrow>
     mirrored (new_session kI kR i) (new_session kR kI j)"
  by (auto simp: mirrored_def new_session_def deriveSessionKeys_def length_hkdf)

text \<open>C12. Two honest nodes agree: over a network that delivers the messages, the exchange succeeds, each
  side's session names the other's identity key, the sending key of each is the receiving key of the
  other, and what one seals the other opens, in both directions.\<close>

theorem handshake_agrees:
  assumes "crypto_sizes C" and "sign_correct C" and "dh_agrees C" and "aead_correct C"
    and "length a = 32" and "length b = 32" and "length x = 32" and "length y = 32"
  shows "\<exists>sI sR. exchange C (keystore_of C a) x (keystore_of C b) y (\<lambda>m1. m1) (\<lambda>m1 m2 m3. m3) = Inr (sI, sR) \<and>
    ss_peerId sI = ed_public C b \<and> ss_peerId sR = ed_public C a \<and> mirrored sI sR \<and>
    (\<forall>n p. length n = NPUBBYTES \<longrightarrow>
      open_sealed C (seal C n p sI) sR = Inr p \<and> open_sealed C (seal C n p sR) sI = Inr p)"
proof -
  obtain dh kI kR where k: "deriveSessionKeys C dh = (kI, kR)"
    and e: "exchange C (keystore_of C a) x (keystore_of C b) y (\<lambda>m1. m1) (\<lambda>m1 m2 m3. m3) =
      Inr (new_session kI kR (ed_public C b), new_session kR kI (ed_public C a))"
    using exchange_as [OF assms(1-3,5-8,5), of "\<lambda>m1. m1" "\<lambda>m1 m2 m3. m3"] by auto
  note m = mirrored_new [OF assms(1) k, of "ed_public C b" "ed_public C a"]
  have "in_phase C (new_session kI kR (ed_public C b)) (new_session kR kI (ed_public C a))"
    "in_phase C (new_session kR kI (ed_public C a)) (new_session kI kR (ed_public C b))"
    using m assms(1,4) by (simp_all add: in_phase_def mirrored_def new_session_def)
  then show ?thesis using e m session.unwrap_wrap by (auto simp: new_session_def)
qed

theorem handshake_agrees_witness:
  "\<exists>sI sR. exchange demo_crypto (keystore_of demo_crypto (replicate 32 1)) (replicate 32 2)
      (keystore_of demo_crypto (replicate 32 3)) (replicate 32 4) (\<lambda>m1. m1) (\<lambda>m1 m2 m3. m3) = Inr (sI, sR) \<and>
    open_sealed demo_crypto (seal demo_crypto (replicate 24 0) [5] sI) sR = Inr [5]"
  using handshake_agrees [OF demo_sizes demo_sign demo_dh demo_aead, of "replicate 32 1" "replicate 32 3"
      "replicate 32 2" "replicate 32 4"]
  by (auto simp: NPUBBYTES_def)

text \<open>What each side has checked when it accepts. An initiator that accepts MSG2 saw 128 bytes with a
  signature by the identity it now names over the two ephemeral keys, the received one first; a responder
  that accepts saw MSG1 and MSG3 with signatures by the identity it now names over the initiator's
  ephemeral key and over both ephemeral keys. The session keys are those derived from the Diffie-Hellman
  secret of its own ephemeral key and the received one, in opposite order for the two roles. Nothing
  else is bound: see the next two properties.\<close>

theorem handshake_checks:
  "(\<forall>m h m3 s h'. consumeMessage2 C ks m h = (Inr (m3, s), h') \<longrightarrow>
      length m = 128 \<and> ss_peerId s = subarray m 32 64 \<and>
      ed_verify C (drop 64 m) (take 32 m @ hi_ePub h) (ss_peerId s) = Inr True \<and>
      (\<exists>dh. x_scalarmult C (hi_ePriv h) (take 32 m) = Inr dh \<and>
        (ss_txKey s, ss_rxKey s) = deriveSessionKeys C dh) \<and>
      sign C ks (hi_ePub h @ take 32 m) = Inr m3) \<and>
   (\<forall>m1 h m2 h1 m3 s h2. consumeMessage1 C ks m1 h = (Inr m2, h1) \<and>
        consumeMessage3 C m3 h1 = (Inr s, h2) \<longrightarrow>
      length m1 = 128 \<and> length m3 = 64 \<and>
      (\<exists>s'. s = Some s' \<and> ss_peerId s' = subarray m1 32 64 \<and>
        ed_verify C (drop 64 m1) (take 32 m1) (ss_peerId s') = Inr True \<and>
        ed_verify C m3 (take 32 m1 @ hr_ePub h) (ss_peerId s') = Inr True \<and>
        (\<exists>dh. x_scalarmult C (hr_ePriv h) (take 32 m1) = Inr dh \<and>
          (ss_rxKey s', ss_txKey s') = deriveSessionKeys C dh)))"
proof (intro conjI allI impI)
  fix m h m3 s h' assume "consumeMessage2 C ks m h = (Inr (m3, s), h')"
  then show "length m = 128" "ss_peerId s = subarray m 32 64"
    "ed_verify C (drop 64 m) (take 32 m @ hi_ePub h) (ss_peerId s) = Inr True"
    "\<exists>dh. x_scalarmult C (hi_ePriv h) (take 32 m) = Inr dh \<and>
        (ss_txKey s, ss_rxKey s) = deriveSessionKeys C dh"
    "sign C ks (hi_ePub h @ take 32 m) = Inr m3"
    by (auto simp: consumeMessage2_def Let_def layout subarray_all new_session_def
        split: if_splits sum.splits bool.splits prod.splits)
next
  fix m1 h m2 h1 m3 s h2
  assume "consumeMessage1 C ks m1 h = (Inr m2, h1) \<and> consumeMessage3 C m3 h1 = (Inr s, h2)"
  then show "length m1 = 128" "length m3 = 64"
    "\<exists>s'. s = Some s' \<and> ss_peerId s' = subarray m1 32 64 \<and>
        ed_verify C (drop 64 m1) (take 32 m1) (ss_peerId s') = Inr True \<and>
        ed_verify C m3 (take 32 m1 @ hr_ePub h) (ss_peerId s') = Inr True \<and>
        (\<exists>dh. x_scalarmult C (hr_ePriv h) (take 32 m1) = Inr dh \<and>
          (ss_rxKey s', ss_txKey s') = deriveSessionKeys C dh)"
    by (auto simp: consumeMessage1_def consumeMessage3_def Let_def layout subarray_all new_session_def
        split: if_splits sum.splits bool.splits prod.splits)
qed

theorem handshake_checks_witness:
  "\<exists>m3 s h'. consumeMessage2 demo_crypto (keystore_of demo_crypto (replicate 32 1))
      (replicate 32 4 @ replicate 32 3 @ pad 64 (replicate 32 3 @ replicate 32 4 @ replicate 32 2))
      \<lparr>hi_ePriv = replicate 32 2, hi_ePub = replicate 32 2, hi_id = replicate 32 1, hi_done = False,
       hi_session = None\<rparr> = (Inr (m3, s), h') \<and> ss_peerId s = replicate 32 3"
proof -
  let ?sig = "pad 64 (replicate 32 3 @ replicate 32 4 @ replicate 32 2) :: bytes"
  let ?h = "\<lparr>hi_ePriv = replicate 32 2, hi_ePub = replicate 32 2, hi_id = replicate 32 1, hi_done = False,
       hi_session = None\<rparr>"
  let ?m = "replicate 32 4 @ replicate 32 3 @ ?sig"
  have "\<exists>h'. consumeMessage2 demo_crypto (keystore_of demo_crypto (replicate 32 1)) ?m ?h =
    (Inr (ed_sign demo_crypto (ed_private demo_crypto (replicate 32 1)) (replicate 32 2 @ replicate 32 4),
      new_session (fst (deriveSessionKeys demo_crypto (map2 (+) (pad 32 (replicate 32 2)) (pad 32 (replicate 32 4)))))
        (snd (deriveSessionKeys demo_crypto (map2 (+) (pad 32 (replicate 32 2)) (pad 32 (replicate 32 4)))))
        (replicate 32 3)), h')"
    by (rule consumeMessage2_ok) (simp_all add: demo_crypto_def)
  then obtain m3 s h' where c: "consumeMessage2 demo_crypto (keystore_of demo_crypto (replicate 32 1)) ?m ?h =
      (Inr (m3, s), h')" by blast
  have "ss_peerId s = subarray ?m 32 64"
    using handshake_checks [of demo_crypto "keystore_of demo_crypto (replicate 32 1)"] c by blast
  then show ?thesis using c by (simp add: subarray_def)
qed

text \<open>Identity misbinding (an unknown-key-share attack): an attacker on the path with an identity of its
  own replaces the initiator's identity and signature in MSG1, and the signature in MSG3, by its own.
  Both honest sides accept with matching keys; the initiator names the responder, but the responder
  names the attacker, so it attributes everything the initiator then says to the attacker. The
  signatures cover the ephemeral keys only, not the identities, against the README, which claims
  protection from unknown-key-share attacks.\<close>

theorem identity_misbinding:
  assumes "crypto_sizes C" and "sign_correct C" and "dh_agrees C"
    and "length a = 32" and "length b = 32" and "length x = 32" and "length y = 32" and "length m = 32"
  shows "\<exists>sI sR. exchange C (keystore_of C a) x (keystore_of C b) y
      (\<lambda>m1. take 32 m1 @ ed_public C m @ ed_sign C (ed_private C m) (take 32 m1))
      (\<lambda>m1 m2 m3. ed_sign C (ed_private C m) (take 32 m1 @ take 32 m2)) = Inr (sI, sR) \<and>
    mirrored sI sR \<and> ss_peerId sI = ed_public C b \<and> ss_peerId sR = ed_public C m"
proof -
  have l: "length (x_public C x) = 32" "length (x_public C y) = 32"
    using crypto_sizesD(6) [OF assms(1)] assms(6,7) by simp_all
  obtain dh kI kR where k: "deriveSessionKeys C dh = (kI, kR)"
    and e: "exchange C (keystore_of C a) x (keystore_of C b) y
      (\<lambda>m1. take 32 m1 @ ed_public C m @ ed_sign C (ed_private C m) (take 32 m1))
      (\<lambda>m1 m2 m3. ed_sign C (ed_private C m) (take 32 m1 @ take 32 m2)) =
      Inr (new_session kI kR (ed_public C b), new_session kR kI (ed_public C m))"
    using exchange_as [OF assms,
        of "\<lambda>m1. take 32 m1 @ ed_public C m @ ed_sign C (ed_private C m) (take 32 m1)"
        "\<lambda>m1 m2 m3. ed_sign C (ed_private C m) (take 32 m1 @ take 32 m2)"] l
    by (auto simp: msg1_of_def msg2_of_def msg3_of_def)
  show ?thesis using e mirrored_new [OF assms(1) k] by (auto simp: new_session_def)
qed

theorem identity_misbinding_witness:
  "\<exists>sI sR. exchange demo_crypto (keystore_of demo_crypto (replicate 32 1)) (replicate 32 2)
      (keystore_of demo_crypto (replicate 32 3)) (replicate 32 4)
      (\<lambda>m1. take 32 m1 @ ed_public demo_crypto (replicate 32 9) @
        ed_sign demo_crypto (ed_private demo_crypto (replicate 32 9)) (take 32 m1))
      (\<lambda>m1 m2 m3. ed_sign demo_crypto (ed_private demo_crypto (replicate 32 9)) (take 32 m1 @ take 32 m2)) =
      Inr (sI, sR) \<and>
    ss_peerId sI = replicate 32 3 \<and> ss_peerId sR = replicate 32 9"
  using identity_misbinding [OF demo_sizes demo_sign demo_dh, of "replicate 32 1" "replicate 32 3"
      "replicate 32 2" "replicate 32 4" "replicate 32 9"]
  by (auto simp: demo_crypto_def pad_def)

text \<open>Role confusion: MSG2 and MSG3 sign byte strings of the same form, so a signature made in one role
  is valid in the other. An attacker that an honest initiator \<open>X\<close> contacts answers with the ephemeral
  key of another initiator \<open>I\<close> who contacted the attacker's address, and passes \<open>X\<close>'s MSG3 signature to
  \<open>I\<close> as a MSG2. Then \<open>I\<close> accepts \<open>X\<close> as its responder although \<open>X\<close> never responded to anyone, believes it
  talks to the attacker, and holds the same two keys in the same (not the mirrored) order.\<close>

theorem role_confusion:
  assumes "crypto_sizes C" and "sign_correct C" and "dh_agrees C"
    and "length i = 32" and "length x = 32" and "length c = 32" and "length z = 32" and "length m = 32"
    and "new_initiator C (keystore_of C i) x = Inr hI" and "new_initiator C (keystore_of C c) z = Inr hX"
  shows "\<exists>sigX sX hX' msg3 sI hI'.
    consumeMessage2 C (keystore_of C c)
      (hi_ePub hI @ ed_public C m @ ed_sign C (ed_private C m) (hi_ePub hI @ hi_ePub hX)) hX =
      (Inr (sigX, sX), hX') \<and>
    consumeMessage2 C (keystore_of C i) (hi_ePub hX @ hi_id hX @ sigX) hI = (Inr (msg3, sI), hI') \<and>
    ss_peerId sI = ed_public C c \<and> ss_peerId sX = ed_public C m \<and>
    ss_txKey sI = ss_txKey sX \<and> ss_rxKey sI = ss_rxKey sX"
proof -
  note sz = crypto_sizesD [OF assms(1)]
  have h: "hi_ePriv hI = x" "hi_ePub hI = x_public C x" "hi_ePriv hX = z" "hi_ePub hX = x_public C z"
    "hi_id hX = ed_public C c"
    using assms(9,10) by (auto simp: new_initiator_of initiator_of_def)
  obtain dh where dh: "x_scalarmult C x (x_public C z) = Inr dh" "x_scalarmult C z (x_public C x) = Inr dh"
    using assms(3,5,7) unfolding dh_agrees_def by metis
  let ?sig = "ed_sign C (ed_private C c) (x_public C z @ x_public C x)"
  obtain hX' where X: "consumeMessage2 C (keystore_of C c)
      (hi_ePub hI @ ed_public C m @ ed_sign C (ed_private C m) (hi_ePub hI @ hi_ePub hX)) hX =
      (Inr (?sig, new_session (fst (deriveSessionKeys C dh)) (snd (deriveSessionKeys C dh)) (ed_public C m)), hX')"
    using consumeMessage2_ok [of "x_public C x" "ed_public C m" _ C hX dh "keystore_of C c"]
      sz h dh assms(4-8) sign_correctD [OF assms(2,8)] by fastforce
  obtain hI' where I: "consumeMessage2 C (keystore_of C i) (hi_ePub hX @ hi_id hX @ ?sig) hI =
      (Inr (ed_sign C (ed_private C i) (x_public C x @ x_public C z),
        new_session (fst (deriveSessionKeys C dh)) (snd (deriveSessionKeys C dh)) (ed_public C c)), hI')"
    using consumeMessage2_ok [of "x_public C z" "ed_public C c" ?sig C hI dh "keystore_of C i"]
      sz h dh assms(4-8) sign_correctD [OF assms(2,6)] by fastforce
  show ?thesis using X I by (intro exI conjI) (assumption | simp add: new_session_def)+
qed

theorem role_confusion_witness:
  "\<exists>sigX sX hX' msg3 sI hI' hX hI.
    consumeMessage2 demo_crypto (keystore_of demo_crypto (replicate 32 3))
      (hi_ePub hI @ ed_public demo_crypto (replicate 32 9) @
        ed_sign demo_crypto (ed_private demo_crypto (replicate 32 9)) (hi_ePub hI @ hi_ePub hX)) hX =
      (Inr (sigX, sX), hX') \<and>
    consumeMessage2 demo_crypto (keystore_of demo_crypto (replicate 32 1)) (hi_ePub hX @ hi_id hX @ sigX) hI =
      (Inr (msg3, sI), hI') \<and>
    ss_peerId sI = ed_public demo_crypto (replicate 32 3)"
proof -
  obtain hI hX where "new_initiator demo_crypto (keystore_of demo_crypto (replicate 32 1)) (replicate 32 2) = Inr hI"
    "new_initiator demo_crypto (keystore_of demo_crypto (replicate 32 3)) (replicate 32 4) = Inr hX"
    by (simp add: new_initiator_of)
  from role_confusion [OF demo_sizes demo_sign demo_dh _ _ _ _ _ this, of "replicate 32 9"]
  show ?thesis by simp blast
qed

end
