(* ===== verification/SecureConn.thy ===== *)
theory SecureConn
  imports Handshake Framing AttackLog
begin

text \<open>
  \<open>src/session/secureConnection.js\<close>, the encrypted session over a socket, and the security context that
  \<open>src/network/secureServer.js\<close> shares between its sessions.

  A connection is the record \<open>conn\<close>; a method is a function on it, with the error it throws if it may
  throw. What the object does to the outside (bytes written, events emitted, the socket ended or
  destroyed, log entries) is appended to the field \<open>cn_out\<close>, so the order of effects is the order of the
  list. Random nonces (\<open>ns k\<close> is the \<open>k\<close>-th of the call) and clock readings are arguments. Handlers of the
  emitted events are not called inside the model: what they do to the connection is a later operation.
  The object \<open>hs.session\<close> of a responder is the one the connection takes over and is not read again.
\<close>

section \<open>The security context (secureServer.js)\<close>

record defence =
  df_blacklist :: blacklist
  df_limiter :: rate_limiter

datatype conn_effect =
    Wire bytes | Logged attack | Secure bytes | Message bytes | Rekeyed | PeerClose
  | ErrorEv error | CloseEv | SockEnd | SockDestroy

text \<open>\<open>allowFrame\<close>: the limiter is not consulted for a banned address.\<close>

definition allowFrame :: "ip \<Rightarrow> clock \<Rightarrow> defence \<Rightarrow> bool \<times> defence" where
  "allowFrame ip clk d =
     (case isBanned (df_blacklist d) ip (clk 0) of
        (True, bl) \<Rightarrow> (False, d\<lparr>df_blacklist := bl\<rparr>)
      | (False, bl) \<Rightarrow>
          (case allow (df_limiter d) ip (clk 1) of
             (ok, rl) \<Rightarrow> (ok, d\<lparr>df_blacklist := bl, df_limiter := rl\<rparr>)))"

definition security_report :: "attack_type \<Rightarrow> ip \<Rightarrow> detail \<Rightarrow> clock \<Rightarrow> defence \<Rightarrow> attack \<times> defence" where
  "security_report type ip meta clk d =
     (case strike (df_blacklist d) ip (clk 0) of
        (res, bl) \<Rightarrow> (logAttack (clk 1) type ip meta (Some res), d\<lparr>df_blacklist := bl\<rparr>))"

definition defence_cleanup :: "clock \<Rightarrow> defence \<Rightarrow> defence" where
  "defence_cleanup clk d =
     d\<lparr>df_limiter := rl_cleanup (df_limiter d) (clk 0), df_blacklist := bl_cleanup (df_blacklist d) (clk 1)\<rparr>"

section \<open>The connection\<close>

definition CTRL_DATA :: byte where "CTRL_DATA = 0"
definition CTRL_REKEY :: byte where "CTRL_REKEY = 1"
definition CTRL_REKEY_ACK :: byte where "CTRL_REKEY_ACK = 2"
definition CTRL_CLOSE :: byte where "CTRL_CLOSE = 3"

lemmas ctrl_defs = CTRL_DATA_def CTRL_REKEY_def CTRL_REKEY_ACK_def CTRL_CLOSE_def

datatype hs = HsI initiator | HsR responder

record conn =
  cn_initiator :: bool
  cn_sec :: "defence option"
  cn_remoteIp :: ip
  cn_decoder :: frame_decoder
  cn_hs :: hs
  cn_session :: "session option"
  cn_step :: nat
  cn_closed :: bool
  cn_maxMsg :: int
  cn_txSeq :: nat
  cn_rxSeq :: "nat option"
  cn_msgWindowStart :: time
  cn_msgCount :: nat
  cn_everyMsgs :: int
  cn_everyBytes :: int
  cn_everyMs :: int
  cn_rekeying :: bool
  cn_rkMsgs :: nat
  cn_rkBytes :: nat
  cn_rkSince :: time
  cn_timeout :: bool
  cn_rekeyTimer :: bool
  cn_out :: "conn_effect list"

definition emit :: "conn_effect \<Rightarrow> conn \<Rightarrow> conn" where
  "emit e c = c\<lparr>cn_out := cn_out c @ [e]\<rparr>"

definition write_frame :: "bytes \<Rightarrow> conn \<Rightarrow> unit res \<times> conn" where
  "write_frame frame c =
     (if cn_closed c then (Inr (), c)
      else case encodeFrame frame of Inl e \<Rightarrow> (Inl e, c) | Inr w \<Rightarrow> (Inr (), emit (Wire w) c))"

definition report :: "attack_type \<Rightarrow> detail \<Rightarrow> clock \<Rightarrow> conn \<Rightarrow> conn" where
  "report type meta clk c =
     (case cn_sec c of None \<Rightarrow> c
      | Some d \<Rightarrow>
          (case security_report type (cn_remoteIp c) meta clk d of
             (a, d) \<Rightarrow> emit (Logged a) (c\<lparr>cn_sec := Some d\<rparr>)))"

definition fail :: "error \<Rightarrow> conn \<Rightarrow> conn" where
  "fail err c =
     (if cn_closed c then c
      else emit SockDestroy (emit (ErrorEv err)
        (c\<lparr>cn_closed := True, cn_timeout := False, cn_rekeyTimer := False\<rparr>)))"

text \<open>The constructor: its assignments to fields, \<open>clk\<close> giving the two clock readings; then MSG1.\<close>

definition init_conn ::
    "bool \<Rightarrow> defence option \<Rightarrow> int option \<Rightarrow> int option \<times> int option \<times> int option \<Rightarrow> clock \<Rightarrow> ip \<Rightarrow> hs \<Rightarrow> conn" where
  "init_conn ini sec maxMsg policy clk ip h =
     \<lparr>cn_initiator = ini, cn_sec = sec, cn_remoteIp = ip,
      cn_decoder = new_frame_decoder SESSION_MAX_FRAME, cn_hs = h, cn_session = None,
      cn_step = 0, cn_closed = False, cn_maxMsg = js_or maxMsg SESSION_MAX_MSG_PER_SECOND,
      cn_txSeq = 0, cn_rxSeq = None, cn_msgWindowStart = clk 0, cn_msgCount = 0,
      cn_everyMsgs = js_or (fst policy) SESSION_REKEY_EVERY_MSGS,
      cn_everyBytes = js_or (fst (snd policy)) SESSION_REKEY_EVERY_BYTES,
      cn_everyMs = js_or (snd (snd policy)) SESSION_REKEY_EVERY_MS,
      cn_rekeying = False, cn_rkMsgs = 0, cn_rkBytes = 0, cn_rkSince = clk 1,
      cn_timeout = True, cn_rekeyTimer = False, cn_out = []\<rparr>"

definition new_conn ::
    "crypto \<Rightarrow> keystore \<Rightarrow> bool \<Rightarrow> defence option \<Rightarrow> int option \<Rightarrow> int option \<times> int option \<times> int option \<Rightarrow>
     bytes \<Rightarrow> clock \<Rightarrow> ip \<Rightarrow> conn res" where
  "new_conn C ks ini sec maxMsg policy ePriv clk ip =
     (if ini then
        bind_res (new_initiator C ks ePriv) (\<lambda>h.
          bind_res (createMessage1 C ks h) (\<lambda>msg1.
            case write_frame msg1 (init_conn ini sec maxMsg policy clk ip (HsI h)) of
              (Inl e, c) \<Rightarrow> Inl e
            | (Inr _, c) \<Rightarrow> Inr c))
      else
        bind_res (new_responder C ks ePriv) (\<lambda>h.
          Inr (init_conn ini sec maxMsg policy clk ip (HsR h))))"

lemma init_conn_fields [simp]:
  "cn_out (init_conn ini sec mx pol clk ip h) = []" "cn_session (init_conn ini sec mx pol clk ip h) = None"
  "cn_hs (init_conn ini sec mx pol clk ip h) = h" "cn_step (init_conn ini sec mx pol clk ip h) = 0"
  "\<not> cn_closed (init_conn ini sec mx pol clk ip h)" "cn_sec (init_conn ini sec mx pol clk ip h) = sec"
  "cn_txSeq (init_conn ini sec mx pol clk ip h) = 0" "cn_rxSeq (init_conn ini sec mx pol clk ip h) = None"
  "cn_decoder (init_conn ini sec mx pol clk ip h) = new_frame_decoder SESSION_MAX_FRAME"
  "cn_timeout (init_conn ini sec mx pol clk ip h)" "cn_remoteIp (init_conn ini sec mx pol clk ip h) = ip"
  by (simp_all add: init_conn_def)

text \<open>\<open>rekey\<close>, \<open>_maybeAutoRekey\<close> and \<open>send\<close>.\<close>

definition conn_rekey :: "crypto \<Rightarrow> bytes \<Rightarrow> conn \<Rightarrow> unit res \<times> conn" where
  "conn_rekey C nonce c =
     (case cn_session c of None \<Rightarrow> (Inr (), c)
      | Some s \<Rightarrow>
          if cn_rekeying c then (Inr (), c)
          else case write_frame (seal C nonce [CTRL_REKEY] s) (c\<lparr>cn_rekeying := True\<rparr>) of
              (Inl e, c) \<Rightarrow> (Inl e, c)
            | (Inr _, c) \<Rightarrow> (Inr (), c\<lparr>cn_session := Some (rekeyTx C s)\<rparr>))"

definition maybeAutoRekey :: "crypto \<Rightarrow> bytes \<Rightarrow> time \<Rightarrow> conn \<Rightarrow> unit res \<times> conn" where
  "maybeAutoRekey C nonce now c =
     (if \<not> cn_initiator c \<or> cn_session c = None \<or> cn_rekeying c then (Inr (), c)
      else if cn_everyMsgs c \<le> int (cn_rkMsgs c) \<or> cn_everyBytes c \<le> int (cn_rkBytes c) \<or>
              cn_everyMs c \<le> now - cn_rkSince c
      then conn_rekey C nonce c else (Inr (), c))"

definition conn_send :: "crypto \<Rightarrow> (nat \<Rightarrow> bytes) \<Rightarrow> time \<Rightarrow> bytes \<Rightarrow> conn \<Rightarrow> unit res \<times> conn" where
  "conn_send C ns now body c =
     (case cn_session c of None \<Rightarrow> (Inl SessionNotReady, c)
      | Some s \<Rightarrow>
          let c = c\<lparr>cn_txSeq := cn_txSeq c + 1\<rparr> in
          case writeBigUInt64BE (int (cn_txSeq c)) of
            Inl e \<Rightarrow> (Inl e, c)
          | Inr seq \<Rightarrow>
              (case write_frame (seal C (ns 0) (CTRL_DATA # seq @ body) s) c of
                 (Inl e, c) \<Rightarrow> (Inl e, c)
               | (Inr _, c) \<Rightarrow>
                   maybeAutoRekey C (ns 1) now
                     (c\<lparr>cn_rkMsgs := cn_rkMsgs c + 1, cn_rkBytes := cn_rkBytes c + length body\<rparr>)))"

text \<open>\<open>close\<close>: a failing write is swallowed; \<open>_closed\<close> is not set.\<close>

definition conn_close :: "crypto \<Rightarrow> bytes \<Rightarrow> conn \<Rightarrow> conn" where
  "conn_close C nonce c =
     (if cn_closed c then c
      else emit SockEnd
        (case cn_session c of None \<Rightarrow> c
         | Some s \<Rightarrow> snd (write_frame (seal C nonce [CTRL_CLOSE] s) c)))"

definition msgAllow :: "conn \<Rightarrow> time \<Rightarrow> bool \<times> conn" where
  "msgAllow c now =
     (let c = (if 1000 < now - cn_msgWindowStart c
               then c\<lparr>cn_msgWindowStart := now, cn_msgCount := 0\<rparr> else c);
          c = c\<lparr>cn_msgCount := cn_msgCount c + 1\<rparr>
      in (int (cn_msgCount c) \<le> cn_maxMsg c, c))"

text \<open>
  \<open>_handleFrame\<close>, by phase. In the transport phase the type is the first byte of the plaintext, an
  empty plaintext counting as DATA. A rate-limited or replayed DATA returns normally after \<open>_fail\<close>;
  other violations throw.
\<close>

definition handle_data :: "clock \<Rightarrow> bytes \<Rightarrow> conn \<Rightarrow> unit res \<times> conn" where
  "handle_data clk pt c =
     (if length pt < 9 then (Inl DataTruncated, c)
      else case readBigUInt64BE pt 1 of
        Inl e \<Rightarrow> (Inl e, c)
      | Inr seq \<Rightarrow>
          (case msgAllow c (clk 0) of
             (False, c) \<Rightarrow>
               (Inr (), fail SessionRateLimited (report SessionRateLimit NoDetail (\<lambda>k. clk (k + 1)) c))
           | (True, c) \<Rightarrow>
               if (case cn_rxSeq c of None \<Rightarrow> False | Some prev \<Rightarrow> seq \<le> prev)
               then (Inr (), fail (SessionReplay seq)
                       (report SessionReplayAttack (Seq (Number_of_u64 seq)) (\<lambda>k. clk (k + 1)) c))
               else (Inr (), emit (Message (drop 9 pt)) (c\<lparr>cn_rxSeq := Some seq\<rparr>))))"

definition handle_transport ::
    "crypto \<Rightarrow> (nat \<Rightarrow> bytes) \<Rightarrow> clock \<Rightarrow> bytes \<Rightarrow> session \<Rightarrow> conn \<Rightarrow> unit res \<times> conn" where
  "handle_transport C ns clk frame s c =
     (case open_sealed C frame s of
        Inl e \<Rightarrow> (Inl e, c)
      | Inr pt \<Rightarrow>
          let type = (if pt \<noteq> [] then hd pt else CTRL_DATA) in
          if type = CTRL_DATA then handle_data clk pt c
          else if type = CTRL_REKEY then
            let s = rekeyRx C s in
            case write_frame (seal C (ns 0) [CTRL_REKEY_ACK] s) (c\<lparr>cn_session := Some s\<rparr>) of
              (Inl e, c) \<Rightarrow> (Inl e, c)
            | (Inr _, c) \<Rightarrow> (Inr (), emit Rekeyed (c\<lparr>cn_session := Some (rekeyTx C s)\<rparr>))
          else if type = CTRL_REKEY_ACK then
            (Inr (), emit Rekeyed
              (c\<lparr>cn_session := Some (rekeyRx C s), cn_rekeying := False, cn_rkMsgs := 0,
                 cn_rkBytes := 0, cn_rkSince := clk 0\<rparr>))
          else if type = CTRL_CLOSE then
            (Inr (), emit SockEnd ((emit PeerClose c)\<lparr>cn_closed := True\<rparr>))
          else (Inl (UnknownControl (unat type)), c))"

definition handle_handshake :: "crypto \<Rightarrow> keystore \<Rightarrow> bytes \<Rightarrow> conn \<Rightarrow> unit res \<times> conn" where
  "handle_handshake C ks frame c =
     (case cn_hs c of
        HsI h \<Rightarrow>
          (case consumeMessage2 C ks frame h of
             (Inl e, h) \<Rightarrow> (Inl e, c\<lparr>cn_hs := HsI h\<rparr>)
           | (Inr (message3, s), h) \<Rightarrow>
               (case write_frame message3 (c\<lparr>cn_hs := HsI h, cn_session := Some s\<rparr>) of
                  (Inl e, c) \<Rightarrow> (Inl e, c)
                | (Inr _, c) \<Rightarrow>
                    (Inr (), emit (Secure (ss_peerId s)) (c\<lparr>cn_timeout := False, cn_rekeyTimer := True\<rparr>))))
      | HsR h \<Rightarrow>
          if cn_step c = 0 then
            (case consumeMessage1 C ks frame h of
               (Inl e, h) \<Rightarrow> (Inl e, c\<lparr>cn_hs := HsR h\<rparr>)
             | (Inr msg2, h) \<Rightarrow>
                 (case write_frame msg2 (c\<lparr>cn_hs := HsR h\<rparr>) of
                    (Inl e, c) \<Rightarrow> (Inl e, c)
                  | (Inr _, c) \<Rightarrow> (Inr (), c\<lparr>cn_step := 1\<rparr>)))
          else
            (case consumeMessage3 C frame h of
               (Inl e, h) \<Rightarrow> (Inl e, c\<lparr>cn_hs := HsR h\<rparr>)
             | (Inr None, h) \<Rightarrow> (Inl TypeError, c\<lparr>cn_hs := HsR h\<rparr>)
             | (Inr (Some s), h) \<Rightarrow>
                 (Inr (), emit (Secure (ss_peerId s))
                    (c\<lparr>cn_hs := HsR h, cn_session := Some s, cn_timeout := False\<rparr>))))"

definition handle_frame ::
    "crypto \<Rightarrow> keystore \<Rightarrow> (nat \<Rightarrow> bytes) \<Rightarrow> clock \<Rightarrow> bytes \<Rightarrow> conn \<Rightarrow> unit res \<times> conn" where
  "handle_frame C ks ns clk frame c =
     (case cn_session c of
        Some s \<Rightarrow> handle_transport C ns clk frame s c
      | None \<Rightarrow> handle_handshake C ks frame c)"

text \<open>
  \<open>_onData\<close>. In iteration \<open>i\<close>, readings 0 to 3 of the clock go to \<open>allowFrame\<close> and its report, the rest to
  the handler, a report of its exception coming after its own readings.
\<close>

definition conn_allow :: "clock \<Rightarrow> conn \<Rightarrow> bool \<times> conn" where
  "conn_allow clk c =
     (case cn_sec c of None \<Rightarrow> (True, c)
      | Some d \<Rightarrow> (case allowFrame (cn_remoteIp c) clk d of (ok, d) \<Rightarrow> (ok, c\<lparr>cn_sec := Some d\<rparr>)))"

definition frame_step ::
    "crypto \<Rightarrow> keystore \<Rightarrow> (nat \<Rightarrow> bytes) \<Rightarrow> clock \<Rightarrow> bytes \<Rightarrow> conn \<Rightarrow> conn" where
  "frame_step C ks ns clk f c =
     (case conn_allow clk c of
        (False, c) \<Rightarrow> fail RateLimited (report RateLimitFrame NoDetail (\<lambda>k. clk (k + 2)) c)
      | (True, c) \<Rightarrow>
          (case handle_frame C ks ns (\<lambda>k. clk (k + 4)) f c of
             (Inl e, c) \<Rightarrow> fail e (report CryptoError (ErrorMessage e) (\<lambda>k. clk (k + 8)) c)
           | (Inr _, c) \<Rightarrow> c))"

fun frame_loop ::
    "crypto \<Rightarrow> keystore \<Rightarrow> (nat \<Rightarrow> nat \<Rightarrow> bytes) \<Rightarrow> (nat \<Rightarrow> clock) \<Rightarrow> nat \<Rightarrow> bytes list \<Rightarrow> conn \<Rightarrow> conn" where
  "frame_loop C ks ns clk i [] c = c"
| "frame_loop C ks ns clk i (f # fs) c =
     (let c = frame_step C ks (ns i) (clk i) f c in
      if cn_closed c then c else frame_loop C ks ns clk (Suc i) fs c)"

definition conn_onData ::
    "crypto \<Rightarrow> keystore \<Rightarrow> (nat \<Rightarrow> nat \<Rightarrow> bytes) \<Rightarrow> (nat \<Rightarrow> clock) \<Rightarrow> bytes \<Rightarrow> conn \<Rightarrow> conn" where
  "conn_onData C ks ns clk chunk c =
     (case push (cn_decoder c) chunk of
        (Inl e, d) \<Rightarrow>
          fail e (report OversizeFrame (ErrorMessage e) (clk 0) (c\<lparr>cn_decoder := d\<rparr>))
      | (Inr frames, d) \<Rightarrow> frame_loop C ks ns clk 0 frames (c\<lparr>cn_decoder := d\<rparr>))"

text \<open>The other callbacks: the socket's \<open>close\<close> and \<open>error\<close>, the handshake timer, the rekey timer.\<close>

definition conn_onClose :: "conn \<Rightarrow> conn" where
  "conn_onClose c = emit CloseEv (c\<lparr>cn_closed := True, cn_timeout := False, cn_rekeyTimer := False\<rparr>)"

definition conn_onError :: "conn \<Rightarrow> conn" where
  "conn_onError c = fail SocketError c"

definition conn_onTimeout :: "conn \<Rightarrow> conn" where
  "conn_onTimeout c = (if cn_timeout c then fail HandshakeTimeout (c\<lparr>cn_timeout := False\<rparr>) else c)"

definition conn_onRekeyTimer :: "crypto \<Rightarrow> bytes \<Rightarrow> time \<Rightarrow> conn \<Rightarrow> unit res \<times> conn" where
  "conn_onRekeyTimer C nonce now c =
     (if cn_rekeyTimer c then maybeAutoRekey C nonce now c else (Inr (), c))"

section \<open>What the operations touch\<close>

text \<open>The bytes written, the messages delivered and the errors reported, in order.\<close>

fun wires :: "conn_effect list \<Rightarrow> bytes" where
  "wires [] = []"
| "wires (Wire w # es) = w @ wires es"
| "wires (e # es) = wires es"

fun delivered :: "conn_effect list \<Rightarrow> bytes list" where
  "delivered [] = []"
| "delivered (Message b # es) = b # delivered es"
| "delivered (e # es) = delivered es"

fun errors :: "conn_effect list \<Rightarrow> error list" where
  "errors [] = []"
| "errors (ErrorEv e # es) = e # errors es"
| "errors (e # es) = errors es"

lemma wires_append [simp]: "wires (a @ b) = wires a @ wires b"
  by (induction a rule: wires.induct) simp_all

lemma delivered_append [simp]: "delivered (a @ b) = delivered a @ delivered b"
  by (induction a rule: delivered.induct) simp_all

lemma errors_append [simp]: "errors (a @ b) = errors a @ errors b"
  by (induction a rule: errors.induct) simp_all

lemma emit_fields [simp]:
  "cn_out (emit e c) = cn_out c @ [e]" "cn_closed (emit e c) = cn_closed c"
  "cn_session (emit e c) = cn_session c" "cn_txSeq (emit e c) = cn_txSeq c"
  "cn_rxSeq (emit e c) = cn_rxSeq c" "cn_decoder (emit e c) = cn_decoder c"
  "cn_sec (emit e c) = cn_sec c" "cn_remoteIp (emit e c) = cn_remoteIp c"
  "cn_maxMsg (emit e c) = cn_maxMsg c" "cn_msgCount (emit e c) = cn_msgCount c"
  "cn_msgWindowStart (emit e c) = cn_msgWindowStart c" "cn_initiator (emit e c) = cn_initiator c"
  "cn_rekeying (emit e c) = cn_rekeying c" "cn_hs (emit e c) = cn_hs c" "cn_step (emit e c) = cn_step c"
  "cn_rkMsgs (emit e c) = cn_rkMsgs c" "cn_rkBytes (emit e c) = cn_rkBytes c"
  "cn_rkSince (emit e c) = cn_rkSince c" "cn_everyMsgs (emit e c) = cn_everyMsgs c"
  "cn_everyBytes (emit e c) = cn_everyBytes c" "cn_everyMs (emit e c) = cn_everyMs c"
  "cn_timeout (emit e c) = cn_timeout c" "cn_rekeyTimer (emit e c) = cn_rekeyTimer c"
  by (simp_all add: emit_def)

lemma report_fields [simp]:
  "cn_closed (report ty d clk c) = cn_closed c"
  "cn_session (report ty d clk c) = cn_session c" "cn_txSeq (report ty d clk c) = cn_txSeq c"
  "cn_rxSeq (report ty d clk c) = cn_rxSeq c" "cn_decoder (report ty d clk c) = cn_decoder c"
  "wires (cn_out (report ty d clk c)) = wires (cn_out c)"
  "delivered (cn_out (report ty d clk c)) = delivered (cn_out c)"
  "errors (cn_out (report ty d clk c)) = errors (cn_out c)"
  by (simp_all add: report_def split: option.split prod.split)

lemma fail_fields [simp]:
  "cn_closed (fail e c)"
  "cn_session (fail e c) = cn_session c" "cn_txSeq (fail e c) = cn_txSeq c"
  "cn_rxSeq (fail e c) = cn_rxSeq c" "cn_decoder (fail e c) = cn_decoder c"
  "wires (cn_out (fail e c)) = wires (cn_out c)"
  "delivered (cn_out (fail e c)) = delivered (cn_out c)"
  "errors (cn_out (fail e c)) = errors (cn_out c) @ (if cn_closed c then [] else [e])"
  by (simp_all add: fail_def)

lemma msgAllow_fields [simp]:
  "cn_closed (snd (msgAllow c t)) = cn_closed c" "cn_session (snd (msgAllow c t)) = cn_session c"
  "cn_txSeq (snd (msgAllow c t)) = cn_txSeq c" "cn_rxSeq (snd (msgAllow c t)) = cn_rxSeq c"
  "cn_decoder (snd (msgAllow c t)) = cn_decoder c" "cn_out (snd (msgAllow c t)) = cn_out c"
  "cn_maxMsg (snd (msgAllow c t)) = cn_maxMsg c" "cn_sec (snd (msgAllow c t)) = cn_sec c"
  by (simp_all add: msgAllow_def Let_def)

lemma conn_allow_fields [simp]:
  "cn_closed (snd (conn_allow clk c)) = cn_closed c" "cn_session (snd (conn_allow clk c)) = cn_session c"
  "cn_txSeq (snd (conn_allow clk c)) = cn_txSeq c" "cn_rxSeq (snd (conn_allow clk c)) = cn_rxSeq c"
  "cn_decoder (snd (conn_allow clk c)) = cn_decoder c" "cn_out (snd (conn_allow clk c)) = cn_out c"
  "cn_msgCount (snd (conn_allow clk c)) = cn_msgCount c" "cn_maxMsg (snd (conn_allow clk c)) = cn_maxMsg c"
  "cn_msgWindowStart (snd (conn_allow clk c)) = cn_msgWindowStart c"
  "cn_hs (snd (conn_allow clk c)) = cn_hs c" "cn_step (snd (conn_allow clk c)) = cn_step c"
  by (simp_all add: conn_allow_def split: option.split prod.split)

lemma write_frame_ok:
  "\<not> cn_closed c \<Longrightarrow> length f < 2 ^ 32 \<Longrightarrow> write_frame f c = (Inr (), emit (Wire (frame_bytes f)) c)"
  by (simp add: write_frame_def encodeFrame_eq)

lemma write_frame_fields:
  assumes "write_frame f c = (r, c')"
  shows "cn_closed c' = cn_closed c" "cn_session c' = cn_session c" "cn_txSeq c' = cn_txSeq c"
    "cn_rxSeq c' = cn_rxSeq c" "cn_decoder c' = cn_decoder c"
    "delivered (cn_out c') = delivered (cn_out c)" "errors (cn_out c') = errors (cn_out c)"
  using assms by (auto simp: write_frame_def split: if_splits sum.splits)

lemma write_frame_same:
  "write_frame f c = (r, c') \<Longrightarrow>
     (cn_closed c' \<longleftrightarrow> cn_closed c) \<and> cn_session c' = cn_session c \<and> cn_txSeq c' = cn_txSeq c \<and>
     cn_rxSeq c' = cn_rxSeq c \<and> cn_decoder c' = cn_decoder c \<and>
     delivered (cn_out c') = delivered (cn_out c) \<and> errors (cn_out c') = errors (cn_out c) \<and>
     cn_msgCount c' = cn_msgCount c \<and> cn_msgWindowStart c' = cn_msgWindowStart c \<and> cn_maxMsg c' = cn_maxMsg c"
  by (auto simp: write_frame_def split: if_splits sum.splits)

text \<open>One whole frame arrives at an empty decoder.\<close>

lemma push_one:
  assumes "length p \<le> SESSION_MAX_FRAME"
  shows "push (new_frame_decoder SESSION_MAX_FRAME) (frame_bytes p) =
    (Inr [p], new_frame_decoder SESSION_MAX_FRAME)"
proof -
  have fit: "length p \<le> SESSION_MAX_FRAME \<and> length p < 2 ^ 32"
    using assms by (simp add: SESSION_MAX_FRAME_def)
  have wait: "frame_cut SESSION_MAX_FRAME [] [] = Inr ([], [])"
    by (simp add: frame_cut_Wait frame_next_def)
  have "frame_cut SESSION_MAX_FRAME [] (frame_bytes p) = Inr ([p], [])"
    using frames.cut_stream [of "[p]" SESSION_MAX_FRAME "[]"] fit wait by simp
  moreover obtain r b where pb: "push (new_frame_decoder SESSION_MAX_FRAME) (frame_bytes p) = (r, b)"
    by (cases "push (new_frame_decoder SESSION_MAX_FRAME) (frame_bytes p)")
  moreover have "fd_max b = SESSION_MAX_FRAME"
    using push_max [of "new_frame_decoder SESSION_MAX_FRAME" "frame_bytes p", unfolded pb]
    by (simp add: new_frame_decoder_def)
  ultimately show ?thesis
    using frame_cut_push [of "new_frame_decoder SESSION_MAX_FRAME" "frame_bytes p"]
    by (cases b) (auto simp: new_frame_decoder_def split: sum.splits)
qed

lemma onData_one:
  assumes "cn_decoder c = new_frame_decoder SESSION_MAX_FRAME" and "length p \<le> SESSION_MAX_FRAME"
  shows "conn_onData C ks ns clk (frame_bytes p) c = frame_step C ks (ns 0) (clk 0) p c"
  using push_one [OF assms(2)] assms(1)
  by (cases c) (simp add: conn_onData_def Let_def)

section \<open>The message limit is a window counter\<close>

definition msg_hit :: "conn \<Rightarrow> unit \<Rightarrow> time \<Rightarrow> bool \<times> conn" where
  "msg_hit c u t = msgAllow c t"

interpretation msg_rate: window_counter msg_hit "\<lambda>c t. c"
  "\<lambda>c u. Some (cn_msgCount c, cn_msgWindowStart c)" "\<lambda>c. cn_maxMsg c = int l" l 1000 for l
  by unfold_locales (auto simp: msg_hit_def msgAllow_def next_window_def Let_def)

text \<open>Two ends with a session, for witnesses.\<close>

definition demo_conn :: "bool \<Rightarrow> conn" where
  "demo_conn x =
     \<lparr>cn_initiator = x, cn_sec = None, cn_remoteIp = ''a'', cn_decoder = new_frame_decoder SESSION_MAX_FRAME,
      cn_hs = HsI (initiator_of demo_crypto [] []),
      cn_session = Some (if x then new_session (replicate 32 1) (replicate 32 2) []
                         else new_session (replicate 32 2) (replicate 32 1) []),
      cn_step = 1, cn_closed = False, cn_maxMsg = 100, cn_txSeq = 0, cn_rxSeq = None,
      cn_msgWindowStart = 0, cn_msgCount = 0, cn_everyMsgs = 1000, cn_everyBytes = 1000, cn_everyMs = 1000,
      cn_rekeying = False, cn_rkMsgs = 0, cn_rkBytes = 0, cn_rkSince = 0, cn_timeout = False,
      cn_rekeyTimer = False, cn_out = []\<rparr>"

text \<open>The first message of the end \<open>True\<close>, as it travels and as the end \<open>False\<close> takes it.\<close>

definition demo_frame :: bytes where
  "demo_frame = replicate 24 0 @ aead_encrypt demo_crypto (CTRL_DATA # be_bytes 8 1 @ [5]) (replicate 24 0) (replicate 32 1)"

lemma demo_frame_opens:
  "open_sealed demo_crypto demo_frame (new_session (replicate 32 2) (replicate 32 1) []) =
     Inr (CTRL_DATA # be_bytes 8 1 @ [5])"
  by (simp add: open_sealed_def demo_frame_def demo_crypto_def new_session_def NPUBBYTES_def)

lemma length_demo_frame: "length demo_frame \<le> SESSION_MAX_FRAME"
  by (simp add: demo_frame_def demo_crypto_def SESSION_MAX_FRAME_def)

lemma demo_frame_step:
  "frame_step demo_crypto ks ns (\<lambda>k. 0) demo_frame (demo_conn False) =
     emit (Message [5]) ((demo_conn False)\<lparr>cn_msgCount := 1, cn_rxSeq := Some 1\<rparr>)"
  using demo_frame_opens
  by (simp add: frame_step_def conn_allow_def handle_frame_def handle_transport_def handle_data_def
      msgAllow_def demo_conn_def CTRL_DATA_def readBigUInt64BE_def subarray_def be_val_be_bytes Let_def)

end
