(* ===== verification/SecureLink.thy ===== *)
theory SecureLink
  imports SecureConn
begin

text \<open>
  Two connections over TCP: what a session promises to the applications at its ends. The network
  delivers each direction's bytes in order and in arbitrary chunks; the two sides send, renew keys and
  receive in any interleaving, with any clocks. The invariant says that what is on the way in a
  direction is a list of sealed items which the receiver's key opens one after the other, ending at the
  sender's current key, numbered without gap.
\<close>

section \<open>What is on the way\<close>

datatype item = Data nat bytes | Rek | Ack

fun plain :: "item \<Rightarrow> bytes" where
  "plain (Data n b) = CTRL_DATA # be_bytes 8 n @ b"
| "plain Rek = [CTRL_REKEY]"
| "plain Ack = [CTRL_REKEY_ACK]"

fun key_after :: "crypto \<Rightarrow> item \<Rightarrow> bytes \<Rightarrow> bytes" where
  "key_after C (Data n b) k = k"
| "key_after C Rek k = deriveRekey C k"
| "key_after C Ack k = deriveRekey C k"

definition sealed :: "crypto \<Rightarrow> bytes \<Rightarrow> bytes \<times> item \<Rightarrow> bytes" where
  "sealed C k ni = fst ni @ aead_encrypt C (plain (snd ni)) (fst ni) k"

fun seal_items :: "crypto \<Rightarrow> bytes \<Rightarrow> (bytes \<times> item) list \<Rightarrow> bytes list" where
  "seal_items C k [] = []"
| "seal_items C k (ni # q) = sealed C k ni # seal_items C (key_after C (snd ni) k) q"

fun last_key :: "crypto \<Rightarrow> bytes \<Rightarrow> (bytes \<times> item) list \<Rightarrow> bytes" where
  "last_key C k [] = k"
| "last_key C k (ni # q) = last_key C (key_after C (snd ni) k) q"

fun seqs :: "(bytes \<times> item) list \<Rightarrow> nat list" where
  "seqs [] = []"
| "seqs ((n, Data s b) # q) = s # seqs q"
| "seqs ((n, i) # q) = seqs q"

fun bodies :: "(bytes \<times> item) list \<Rightarrow> bytes list" where
  "bodies [] = []"
| "bodies ((n, Data s b) # q) = b # bodies q"
| "bodies ((n, i) # q) = bodies q"

definition item_ok :: "bytes \<times> item \<Rightarrow> bool" where
  "item_ok ni \<longleftrightarrow> length (fst ni) = NPUBBYTES \<and>
     (case snd ni of Data s b \<Rightarrow> s < 2 ^ 64 \<and> length b + 49 \<le> SESSION_MAX_FRAME | _ \<Rightarrow> True)"

lemma seal_items_append [simp]:
  "seal_items C k (q @ r) = seal_items C k q @ seal_items C (last_key C k q) r"
  by (induction q arbitrary: k) simp_all

lemma last_key_append [simp]: "last_key C k (q @ r) = last_key C (last_key C k q) r"
  by (induction q arbitrary: k) simp_all

lemma seqs_append [simp]: "seqs (q @ r) = seqs q @ seqs r"
  by (induction q rule: seqs.induct) simp_all

lemma bodies_append [simp]: "bodies (q @ r) = bodies q @ bodies r"
  by (induction q rule: bodies.induct) simp_all

lemma length_key_after: "crypto_sizes C \<Longrightarrow> length k = 32 \<Longrightarrow> length (key_after C i k) = 32"
  by (cases i) (simp_all add: length_deriveRekey)

lemma length_sealed:
  assumes "aead_size C" and "item_ok ni"
  shows "length (sealed C k ni) \<le> SESSION_MAX_FRAME"
  using assms by (cases ni; cases "snd ni")
    (auto simp: sealed_def aead_size_def item_ok_def NPUBBYTES_def SESSION_MAX_FRAME_def)

lemma seal_items_fit:
  assumes "aead_size C" and "\<forall>ni \<in> set q. item_ok ni"
  shows "\<forall>f \<in> set (seal_items C k q). length f \<le> SESSION_MAX_FRAME"
  using assms(2) length_sealed [OF assms(1)] by (induction q arbitrary: k) simp_all

section \<open>A direction of the link\<close>

definition tx_key :: "conn \<Rightarrow> bytes" where
  "tx_key c = (case cn_session c of None \<Rightarrow> [] | Some s \<Rightarrow> ss_txKey s)"

definition rx_key :: "conn \<Rightarrow> bytes" where
  "rx_key c = (case cn_session c of None \<Rightarrow> [] | Some s \<Rightarrow> ss_rxKey s)"

definition rx_last :: "conn \<Rightarrow> nat" where
  "rx_last c = (case cn_rxSeq c of None \<Rightarrow> 0 | Some n \<Rightarrow> n)"

text \<open>\<open>q\<close> is on the way from \<open>X\<close> to \<open>Y\<close>.\<close>

definition chan :: "crypto \<Rightarrow> conn \<Rightarrow> conn \<Rightarrow> (bytes \<times> item) list \<Rightarrow> bool" where
  "chan C X Y q \<longleftrightarrow> cn_session X \<noteq> None \<and> cn_session Y \<noteq> None \<and>
     length (rx_key Y) = 32 \<and> last_key C (rx_key Y) q = tx_key X \<and> (\<forall>ni \<in> set q. item_ok ni) \<and>
     rx_last Y \<le> cn_txSeq X \<and> seqs q = [Suc (rx_last Y)..<Suc (cn_txSeq X)]"

text \<open>It only depends on the sending half of \<open>X\<close> and the receiving half of \<open>Y\<close>.\<close>

lemma chan_cong:
  assumes "cn_session X' \<noteq> None \<longleftrightarrow> cn_session X \<noteq> None" and "cn_session Y' \<noteq> None \<longleftrightarrow> cn_session Y \<noteq> None"
    and "tx_key X' = tx_key X" and "cn_txSeq X' = cn_txSeq X"
    and "rx_key Y' = rx_key Y" and "rx_last Y' = rx_last Y"
  shows "chan C X' Y' q \<longleftrightarrow> chan C X Y q"
  using assms by (simp add: chan_def)

lemma chan_head_data:
  assumes "chan C X Y ((n, Data s b) # q)"
  shows "s = Suc (rx_last Y)" and "s \<le> cn_txSeq X" and "seqs q = [Suc s..<Suc (cn_txSeq X)]"
    and "s < 2 ^ 64"
proof -
  have e: "s # seqs q = [Suc (rx_last Y)..<Suc (cn_txSeq X)]" and "item_ok (n, Data s b)"
    using assms by (simp_all add: chan_def)
  then have "Suc (rx_last Y) < Suc (cn_txSeq X)"
    by (metis list.discI not_le upt_conv_Nil)
  then have "[Suc (rx_last Y)..<Suc (cn_txSeq X)] =
      Suc (rx_last Y) # [Suc (Suc (rx_last Y))..<Suc (cn_txSeq X)]" by (rule upt_conv_Cons)
  with e show "s = Suc (rx_last Y)" "seqs q = [Suc s..<Suc (cn_txSeq X)]" by auto
  then show "s \<le> cn_txSeq X" using \<open>Suc (rx_last Y) < Suc (cn_txSeq X)\<close> by simp
  show "s < 2 ^ 64" using \<open>item_ok (n, Data s b)\<close> by (simp add: item_ok_def)
qed

text \<open>The receiver opens the first item.\<close>

lemma open_head:
  assumes "aead_correct C" and "chan C X Y (ni # q)" and "cn_session Y = Some s"
  shows "open_sealed C (sealed C (rx_key Y) ni) s = Inr (plain (snd ni))"
  using assms
  by (auto simp: chan_def open_sealed_def sealed_def rx_key_def item_ok_def aead_correct_def
      NPUBBYTES_def)

lemma read_seq: "n < 2 ^ 64 \<Longrightarrow> readBigUInt64BE (CTRL_DATA # be_bytes 8 n @ b) 1 = Inr n"
  by (simp add: readBigUInt64BE_def subarray_def be_val_be_bytes)

section \<open>One frame\<close>

text \<open>The two outcomes of processing a frame of the link: refused for its rate, or taken.\<close>

definition refused :: "conn \<Rightarrow> conn \<Rightarrow> bool" where
  "refused Y Y' \<longleftrightarrow> cn_closed Y' \<and> cn_session Y' = cn_session Y \<and> cn_txSeq Y' = cn_txSeq Y \<and>
     cn_decoder Y' = cn_decoder Y \<and>
     wires (cn_out Y') = wires (cn_out Y) \<and> delivered (cn_out Y') = delivered (cn_out Y) \<and>
     (\<exists>e \<in> {RateLimited, SessionRateLimited}. errors (cn_out Y') = errors (cn_out Y) @ [e])"

definition taken :: "crypto \<Rightarrow> conn \<Rightarrow> (bytes \<times> item) list \<Rightarrow> (bytes \<times> item) list \<Rightarrow> conn \<Rightarrow> bool" where
  "taken C Y p acks Y' \<longleftrightarrow> \<not> cn_closed Y' \<and> cn_session Y' \<noteq> None \<and> cn_txSeq Y' = cn_txSeq Y \<and>
     cn_decoder Y' = cn_decoder Y \<and>
     rx_key Y' = last_key C (rx_key Y) p \<and> tx_key Y' = last_key C (tx_key Y) acks \<and>
     seqs acks = [] \<and> bodies acks = [] \<and> (\<forall>ni \<in> set acks. item_ok ni) \<and>
     rx_last Y' = rx_last Y + length (seqs p) \<and>
     wires (cn_out Y') = wires (cn_out Y) @ concat (map frame_bytes (seal_items C (tx_key Y) acks)) \<and>
     delivered (cn_out Y') = delivered (cn_out Y) @ bodies p \<and>
     errors (cn_out Y') = errors (cn_out Y)"

lemma refused_fail:
  assumes "e \<in> {RateLimited, SessionRateLimited}" and "\<not> cn_closed Z"
    and "cn_session Z = cn_session Y" "cn_txSeq Z = cn_txSeq Y" "cn_decoder Z = cn_decoder Y"
      "wires (cn_out Z) = wires (cn_out Y)" "delivered (cn_out Z) = delivered (cn_out Y)"
      "errors (cn_out Z) = errors (cn_out Y)"
  shows "refused Y (fail e Z)"
  using assms by (auto simp: refused_def)

lemma handle_data_item:
  assumes "\<not> cn_closed Y" and "s = Suc (rx_last Y)" and "s < 2 ^ 64" and "cn_session Y \<noteq> None"
  shows "\<exists>Y'. handle_data clk (plain (Data s b)) Y = (Inr (), Y') \<and>
    (refused Y Y' \<or> taken C Y [(n, Data s b)] [] Y')"
proof -
  obtain ok Z where m: "msgAllow Y (clk 0) = (ok, Z)" by (cases "msgAllow Y (clk 0)")
  note f = msgAllow_fields [of Y "clk 0", unfolded m snd_conv]
  have fresh: "\<not> (case cn_rxSeq Z of None \<Rightarrow> False | Some prev \<Rightarrow> s \<le> prev)"
    using assms(2) f by (simp add: rx_last_def split: option.splits)
  show ?thesis
  proof (cases ok)
    case False
    then show ?thesis using m f assms(1) read_seq [OF assms(3), of b]
      by (simp add: handle_data_def refused_fail)
  next
    case True
    then have "handle_data clk (plain (Data s b)) Y = (Inr (), emit (Message b) (Z\<lparr>cn_rxSeq := Some s\<rparr>))"
      using m fresh read_seq [OF assms(3), of b] by (simp add: handle_data_def)
    then show ?thesis using f assms
      by (simp add: taken_def rx_key_def tx_key_def rx_last_def)
  qed
qed

lemma transport_item:
  assumes "crypto_sizes C" and "aead_correct C" and "aead_size C" and "chan C X Y (ni # q)"
    and "\<not> cn_closed Y" and "cn_session Y = Some s" and "length (ns 0) = NPUBBYTES"
  shows "\<exists>Y' acks. handle_transport C ns clk (sealed C (rx_key Y) ni) s Y = (Inr (), Y') \<and>
    (refused Y Y' \<or> taken C Y [ni] acks Y')"
proof -
  note op = open_head [OF assms(2,4,6)]
  obtain n i where ni: "ni = (n, i)" by (cases ni)
  show ?thesis
  proof (cases i)
    case (Data m b)
    have "m = Suc (rx_last Y)" "m < 2 ^ 64" 
      using chan_head_data(1,4) [of C X Y n m b q] assms(4) ni Data by simp_all
    from handle_data_item [OF assms(5) this, of clk b C n] show ?thesis
      using op assms(6) ni Data by (fastforce simp: handle_transport_def ctrl_defs)
  next
    case Rek
    let ?s = "rekeyRx C s"
    let ?f = "seal C (ns 0) [CTRL_REKEY_ACK] ?s"
    have f: "?f = sealed C (tx_key Y) (ns 0, Ack)"
      by (simp add: seal_def sealed_def tx_key_def assms(6) rekeyRx_def)
    have ok: "item_ok (ns 0, Ack)" using assms(7) by (simp add: item_ok_def)
    have "length ?f < 2 ^ 32"
      using length_sealed [OF assms(3) ok, of "tx_key Y"] unfolding f by (simp add: SESSION_MAX_FRAME_def)
    then have w: "write_frame ?f (Y\<lparr>cn_session := Some ?s\<rparr>) =
        (Inr (), emit (Wire (frame_bytes ?f)) (Y\<lparr>cn_session := Some ?s\<rparr>))"
      using assms(5) by (intro write_frame_ok) simp_all
    have "handle_transport C ns clk (sealed C (rx_key Y) ni) s Y = (Inr (),
        emit Rekeyed ((emit (Wire (frame_bytes ?f)) (Y\<lparr>cn_session := Some ?s\<rparr>))
          \<lparr>cn_session := Some (rekeyTx C ?s)\<rparr>))"
      using op ni Rek w by (simp add: handle_transport_def ctrl_defs Let_def)
    then show ?thesis using assms(5,6) ni Rek ok f
      by (intro exI [of _ "emit Rekeyed ((emit (Wire (frame_bytes ?f)) (Y\<lparr>cn_session := Some ?s\<rparr>))
          \<lparr>cn_session := Some (rekeyTx C ?s)\<rparr>)"] exI [of _ "[(ns 0, Ack)]"])
        (simp add: taken_def rx_key_def tx_key_def rx_last_def rekeyRx_def rekeyTx_def)
  next
    case Ack
    then show ?thesis using op assms(5,6) ni
      by (intro exI [of _ "emit Rekeyed (Y\<lparr>cn_session := Some (rekeyRx C s), cn_rekeying := False,
          cn_rkMsgs := 0, cn_rkBytes := 0, cn_rkSince := clk 0\<rparr>)"] exI [of _ "[]"])
        (simp add: handle_transport_def ctrl_defs taken_def rx_key_def tx_key_def rx_last_def rekeyRx_def)
  qed
qed

lemma frame_step_item:
  assumes "crypto_sizes C" and "aead_correct C" and "aead_size C" and "chan C X Y (ni # q)"
    and "\<not> cn_closed Y" and "length (ns 0) = NPUBBYTES"
  shows "\<exists>acks. refused Y (frame_step C ks ns clk (sealed C (rx_key Y) ni) Y) \<or>
    taken C Y [ni] acks (frame_step C ks ns clk (sealed C (rx_key Y) ni) Y)"
proof -
  obtain ok Z where a: "conn_allow clk Y = (ok, Z)" by (cases "conn_allow clk Y")
  note f = conn_allow_fields [of clk Y, unfolded a snd_conv]
  have k: "rx_key Z = rx_key Y" "tx_key Z = tx_key Y" "rx_last Z = rx_last Y"
    using f by (simp_all add: rx_key_def tx_key_def rx_last_def)
  show ?thesis
  proof (cases ok)
    case False
    then show ?thesis using a f assms(5) by (simp add: frame_step_def refused_fail)
  next
    case True
    have "chan C X Z (ni # q)" using assms(4) f k chan_cong [of X X Z Y C] by simp
    moreover obtain s where s: "cn_session Z = Some s" using assms(4) f by (auto simp: chan_def)
    ultimately obtain Y' acks where
      h: "handle_transport C ns (\<lambda>j. clk (j + 4)) (sealed C (rx_key Z) ni) s Z = (Inr (), Y')"
      "refused Z Y' \<or> taken C Z [ni] acks Y'"
      using transport_item [OF assms(1-3), of X Z ni q s ns] f assms(5,6) by blast
    then have "frame_step C ks ns clk (sealed C (rx_key Y) ni) Y = Y'"
      using a True s k by (simp add: frame_step_def handle_frame_def)
    moreover have "refused Y Y' \<or> taken C Y [ni] acks Y'"
      using h(2) f k by (simp add: refused_def taken_def)
    ultimately show ?thesis by auto
  qed
qed

section \<open>A list of frames\<close>

lemma upt_join: "a \<le> b \<Longrightarrow> b \<le> c \<Longrightarrow> [a..<b] @ [b..<c] = [a..<c]"
  using upt_add_eq_append [of a b "c - b"] by simp

lemma taken_refl: "\<not> cn_closed Y \<Longrightarrow> cn_session Y \<noteq> None \<Longrightarrow> taken C Y [] [] Y"
  by (simp add: taken_def)

lemma taken_trans:
  "taken C Y p a Z \<Longrightarrow> taken C Z p' a' Y' \<Longrightarrow> taken C Y (p @ p') (a @ a') Y'"
  by (auto simp: taken_def)

lemma length_last_key: "crypto_sizes C \<Longrightarrow> length k = 32 \<Longrightarrow> length (last_key C k q) = 32"
  by (induction q arbitrary: k) (simp_all add: length_key_after)

lemma chan_taken:
  assumes "crypto_sizes C" and "chan C X Y (p @ q)" and "taken C Y p acks Y'"
  shows "chan C X Y' q"
proof -
  let ?n = "length (seqs p)"
  have s: "seqs p @ seqs q = [Suc (rx_last Y)..<Suc (cn_txSeq X)]" and le: "rx_last Y \<le> cn_txSeq X"
    using assms(2) by (simp_all add: chan_def)
  have "seqs q = drop ?n [Suc (rx_last Y)..<Suc (cn_txSeq X)]" using s by (metis append_eq_conv_conj)
  then have q: "seqs q = [Suc (rx_last Y + ?n)..<Suc (cn_txSeq X)]" by (simp only: drop_upt add_Suc)
  have "?n + length (seqs q) = cn_txSeq X - rx_last Y"
    using arg_cong [OF s, of length] by (simp del: upt_Suc)
  then have "rx_last Y + ?n \<le> cn_txSeq X" using le by linarith
  with q show ?thesis using assms length_last_key [OF assms(1)]
    by (simp add: chan_def taken_def del: upt_Suc)
qed

lemma chan_acks:
  assumes "chan C Y X r" and "taken C Y p acks Y'"
  shows "chan C Y' X (r @ acks)"
  using assms by (auto simp: chan_def taken_def)

lemma loop_items:
  assumes "crypto_sizes C" and "aead_correct C" and "aead_size C" and "chan C X Y (p @ q)"
    and "\<not> cn_closed Y" and "\<forall>i. length (ns i 0) = NPUBBYTES"
  shows "\<exists>p1 p2 acks Z. p = p1 @ p2 \<and> taken C Y p1 acks Z \<and>
    ((p2 = [] \<and> frame_loop C ks ns clk i (seal_items C (rx_key Y) p) Y = Z) \<or>
     refused Z (frame_loop C ks ns clk i (seal_items C (rx_key Y) p) Y))"
  using assms(4,5)
proof (induction p arbitrary: Y i)
  case Nil
  then have "taken C Y [] [] Y" by (simp add: taken_refl chan_def)
  then show ?case by (intro exI [of _ "[]"]) auto
next
  case (Cons ni p)
  let ?Y = "frame_step C ks (ns i) (clk i) (sealed C (rx_key Y) ni) Y"
  have c: "chan C X Y (ni # (p @ q))" using Cons.prems(1) by simp
  obtain acks where "refused Y ?Y \<or> taken C Y [ni] acks ?Y"
    using frame_step_item [OF assms(1-3) c Cons.prems(2), of "ns i" ks "clk i"] assms(6) by blast
  then show ?case
  proof
    assume r: "refused Y ?Y"
    then have "frame_loop C ks ns clk i (seal_items C (rx_key Y) (ni # p)) Y = ?Y"
      by (simp add: refused_def)
    moreover have "taken C Y [] [] Y" using Cons.prems by (simp add: taken_refl chan_def)
    ultimately show ?thesis using r
      by (intro exI [of _ "[]"] exI [of _ "ni # p"] exI [of _ Y]) simp
  next
    assume t: "taken C Y [ni] acks ?Y"
    then have open1: "\<not> cn_closed ?Y" and k: "rx_key ?Y = key_after C (snd ni) (rx_key Y)"
      by (simp_all add: taken_def)
    have "chan C X Y ([ni] @ (p @ q))" using c by simp
    then have "chan C X ?Y (p @ q)" using t by (rule chan_taken [OF assms(1)])
    from Cons.IH [OF this open1, of "Suc i"] obtain p1 p2 acks' Z where
      z: "p = p1 @ p2" "taken C ?Y p1 acks' Z"
      "(p2 = [] \<and> frame_loop C ks ns clk (Suc i) (seal_items C (rx_key ?Y) p) ?Y = Z) \<or>
       refused Z (frame_loop C ks ns clk (Suc i) (seal_items C (rx_key ?Y) p) ?Y)" by blast
    have e: "frame_loop C ks ns clk i (seal_items C (rx_key Y) (ni # p)) Y =
        frame_loop C ks ns clk (Suc i) (seal_items C (rx_key ?Y) p) ?Y"
      using open1 k by (simp add: Let_def)
    have "taken C Y (ni # p1) (acks @ acks') Z" using taken_trans [OF t z(2)] by simp
    moreover have "ni # p = (ni # p1) @ p2" using z(1) by simp
    ultimately show ?thesis using z(3) unfolding e by blast
  qed
qed

section \<open>Sending\<close>

definition sends :: "crypto \<Rightarrow> conn \<Rightarrow> (bytes \<times> item) list \<Rightarrow> conn \<Rightarrow> bool" where
  "sends C X its X' \<longleftrightarrow> cn_session X' \<noteq> None \<and> tx_key X' = last_key C (tx_key X) its \<and>
     cn_txSeq X \<le> cn_txSeq X' \<and> seqs its = [Suc (cn_txSeq X)..<Suc (cn_txSeq X')] \<and>
     (\<forall>ni \<in> set its. item_ok ni) \<and>
     wires (cn_out X') = wires (cn_out X) @ concat (map frame_bytes (seal_items C (tx_key X) its)) \<and>
     cn_closed X' = cn_closed X \<and> rx_key X' = rx_key X \<and> rx_last X' = rx_last X \<and>
     cn_decoder X' = cn_decoder X \<and> delivered (cn_out X') = delivered (cn_out X) \<and>
     errors (cn_out X') = errors (cn_out X)"

lemma sends_refl: "cn_session X \<noteq> None \<Longrightarrow> sends C X [] X"
  by (simp add: sends_def)

lemma sends_trans:
  assumes "sends C X a Z" and "sends C Z b X'"
  shows "sends C X (a @ b) X'"
proof -
  have "[Suc (cn_txSeq X)..<Suc (cn_txSeq Z)] @ [Suc (cn_txSeq Z)..<Suc (cn_txSeq X')] =
      [Suc (cn_txSeq X)..<Suc (cn_txSeq X')]"
    using assms upt_join [of "Suc (cn_txSeq X)" "Suc (cn_txSeq Z)" "Suc (cn_txSeq X')"]
    by (simp add: sends_def)
  then show ?thesis using assms by (auto simp: sends_def simp del: upt_Suc)
qed

lemma chan_sends:
  assumes "chan C X Y q" and "sends C X its X'"
  shows "chan C X' Y (q @ its)"
proof -
  have "[Suc (rx_last Y)..<Suc (cn_txSeq X)] @ [Suc (cn_txSeq X)..<Suc (cn_txSeq X')] =
      [Suc (rx_last Y)..<Suc (cn_txSeq X')]"
    using assms upt_join [of "Suc (rx_last Y)" "Suc (cn_txSeq X)" "Suc (cn_txSeq X')"]
    by (simp add: sends_def chan_def)
  then show ?thesis using assms by (auto simp: sends_def chan_def simp del: upt_Suc)
qed

lemma write_item:
  assumes "aead_size C" and "item_ok (n, i)" and "\<not> cn_closed X" and "cn_session X = Some s"
  shows "write_frame (seal C n (plain i) s) X =
    (Inr (), emit (Wire (frame_bytes (sealed C (tx_key X) (n, i)))) X)"
proof -
  have "seal C n (plain i) s = sealed C (tx_key X) (n, i)"
    by (simp add: seal_def sealed_def tx_key_def assms(4))
  moreover have "length (sealed C (tx_key X) (n, i)) < 2 ^ 32"
    using length_sealed [OF assms(1,2), of "tx_key X"] by (simp add: SESSION_MAX_FRAME_def)
  ultimately show ?thesis using assms(3) by (simp add: write_frame_ok)
qed

lemma rekey_sends:
  assumes "aead_size C" and "length nonce = NPUBBYTES" and "\<not> cn_closed X" and "cn_session X \<noteq> None"
    and "conn_rekey C nonce X = (r, X')"
  shows "\<exists>its. sends C X its X' \<and> bodies its = []"
proof -
  obtain s where s: "cn_session X = Some s" using assms(4) by auto
  show ?thesis
  proof (cases "cn_rekeying X")
    case True
    then show ?thesis using assms(4,5) s sends_refl [OF assms(4)]
      by (intro exI [of _ "[]"]) (simp add: conn_rekey_def)
  next
    case False
    have ok: "item_ok (nonce, Rek)" using assms(2) by (simp add: item_ok_def)
    have k: "tx_key (X\<lparr>cn_rekeying := True\<rparr>) = tx_key X" by (simp add: tx_key_def)
    have "X' = (emit (Wire (frame_bytes (sealed C (tx_key X) (nonce, Rek)))) (X\<lparr>cn_rekeying := True\<rparr>))
        \<lparr>cn_session := Some (rekeyTx C s)\<rparr>"
      using write_item [OF assms(1) ok, of "X\<lparr>cn_rekeying := True\<rparr>" s] assms(3,5) s False k
      by (simp add: conn_rekey_def)
    then show ?thesis using s ok
      by (intro exI [of _ "[(nonce, Rek)]"])
        (simp add: sends_def tx_key_def rx_key_def rx_last_def rekeyTx_def)
  qed
qed

lemma autoRekey_sends:
  assumes "aead_size C" and "length nonce = NPUBBYTES" and "\<not> cn_closed X" and "cn_session X \<noteq> None"
    and "maybeAutoRekey C nonce now X = (r, X')"
  shows "\<exists>its. sends C X its X' \<and> bodies its = []"
proof (cases "conn_rekey C nonce X = (r, X')")
  case True
  then show ?thesis using assms by (intro rekey_sends)
next
  case False
  then have "X' = X" using assms(5) by (auto simp: maybeAutoRekey_def split: if_splits)
  then show ?thesis using sends_refl [OF assms(4)] by (intro exI [of _ "[]"]) simp
qed

lemma send_sends:
  assumes "aead_size C" and "\<forall>k. length (ns k) = NPUBBYTES" and "\<not> cn_closed X"
    and "length body + 49 \<le> SESSION_MAX_FRAME" and "conn_send C ns now body X = (Inr (), X')"
  shows "\<exists>its. sends C X its X' \<and> bodies its = [body]"
proof -
  obtain s where s: "cn_session X = Some s" using assms(5) by (auto simp: conn_send_def split: option.splits)
  let ?X = "X\<lparr>cn_txSeq := cn_txSeq X + 1\<rparr>"
  have small: "cn_txSeq X + 1 < 2 ^ 64"
    using assms(5) s by (auto simp: conn_send_def Let_def writeBigUInt64BE_def split: if_splits)
  let ?i = "(ns 0, Data (cn_txSeq X + 1) body)"
  let ?Z = "emit (Wire (frame_bytes (sealed C (tx_key X) ?i))) ?X"
  let ?W = "?Z\<lparr>cn_rkMsgs := cn_rkMsgs ?Z + 1, cn_rkBytes := cn_rkBytes ?Z + length body\<rparr>"
  have ok: "item_ok ?i" using assms(2,4) small by (simp add: item_ok_def)
  have "tx_key ?X = tx_key X" by (simp add: tx_key_def)
  then have "write_frame (seal C (ns 0) (CTRL_DATA # be_bytes 8 (cn_txSeq X + 1) @ body) s) ?X = (Inr (), ?Z)"
    using write_item [OF assms(1) ok, of ?X s] assms(3) s by simp
  moreover have "writeBigUInt64BE (int (cn_txSeq X + 1)) = Inr (be_bytes 8 (cn_txSeq X + 1))"
    using small by (simp only: writeBigUInt64BE_def nat_int) simp
  ultimately have r: "maybeAutoRekey C (ns 1) now ?W = (Inr (), X')"
    using assms(5) s by (simp add: conn_send_def Let_def)
  have a: "sends C X [?i] ?W"
    using s ok by (simp add: sends_def tx_key_def rx_key_def rx_last_def)
  obtain its where b: "sends C ?W its X'" "bodies its = []"
    using autoRekey_sends [OF assms(1) _ _ _ r] assms(2,3) s by auto
  show ?thesis using sends_trans [OF a b(1)] b(2) by (intro exI [of _ "[?i] @ its"]) simp
qed

section \<open>The link\<close>

text \<open>
  The two ends are \<open>True\<close> and \<open>False\<close>. \<open>lk_got x\<close> counts the bytes of the other end's output that \<open>x\<close> has
  received, \<open>lk_sent x\<close> lists what the application at \<open>x\<close> has sent. An end that has closed does nothing
  more.
\<close>

record link =
  lk_conn :: "bool \<Rightarrow> conn"
  lk_got :: "bool \<Rightarrow> nat"
  lk_sent :: "bool \<Rightarrow> bytes list"

definition inflight :: "link \<Rightarrow> bool \<Rightarrow> bytes" where
  "inflight l x = drop (lk_got l x) (wires (cn_out (lk_conn l (\<not> x))))"

inductive link_step :: "crypto \<Rightarrow> keystore \<Rightarrow> link \<Rightarrow> link \<Rightarrow> bool" for C :: crypto and ks :: keystore where
  Send: "\<not> cn_closed (lk_conn l x) \<Longrightarrow> length body + 49 \<le> SESSION_MAX_FRAME \<Longrightarrow>
    \<forall>k. length (ns k) = NPUBBYTES \<Longrightarrow> conn_send C ns now body (lk_conn l x) = (Inr (), c) \<Longrightarrow>
    link_step C ks l (l\<lparr>lk_conn := (lk_conn l)(x := c), lk_sent := (lk_sent l)(x := lk_sent l x @ [body])\<rparr>)"
| Renew: "\<not> cn_closed (lk_conn l x) \<Longrightarrow> length nonce = NPUBBYTES \<Longrightarrow>
    conn_rekey C nonce (lk_conn l x) = (r, c) \<Longrightarrow> link_step C ks l (l\<lparr>lk_conn := (lk_conn l)(x := c)\<rparr>)"
| Timer: "\<not> cn_closed (lk_conn l x) \<Longrightarrow> length nonce = NPUBBYTES \<Longrightarrow>
    conn_onRekeyTimer C nonce now (lk_conn l x) = (r, c) \<Longrightarrow>
    link_step C ks l (l\<lparr>lk_conn := (lk_conn l)(x := c)\<rparr>)"
| Deliver: "\<not> cn_closed (lk_conn l x) \<Longrightarrow> \<forall>i k. length (ns i k) = NPUBBYTES \<Longrightarrow>
    inflight l x = chunk @ rest \<Longrightarrow> conn_onData C ks ns clk chunk (lk_conn l x) = c \<Longrightarrow>
    link_step C ks l (l\<lparr>lk_conn := (lk_conn l)(x := c), lk_got := (lk_got l)(x := lk_got l x + length chunk)\<rparr>)"

inductive link_reach :: "crypto \<Rightarrow> keystore \<Rightarrow> link \<Rightarrow> link \<Rightarrow> bool" for C :: crypto and ks :: keystore where
  Start: "link_reach C ks l l"
| Step: "link_reach C ks l0 l \<Longrightarrow> link_step C ks l l' \<Longrightarrow> link_reach C ks l0 l'"

text \<open>Both ends have just established the session.\<close>

definition fresh_end :: "conn \<Rightarrow> bool" where
  "fresh_end c \<longleftrightarrow> \<not> cn_closed c \<and> cn_decoder c = new_frame_decoder SESSION_MAX_FRAME \<and>
     cn_txSeq c = 0 \<and> cn_rxSeq c = None \<and> delivered (cn_out c) = [] \<and> errors (cn_out c) = []"

definition link_start :: "link \<Rightarrow> bool" where
  "link_start l \<longleftrightarrow> fresh_end (lk_conn l True) \<and> fresh_end (lk_conn l False) \<and>
     (\<exists>s t. cn_session (lk_conn l True) = Some s \<and> cn_session (lk_conn l False) = Some t \<and> mirrored s t) \<and>
     (\<forall>x. lk_sent l x = [] \<and> inflight l x = [] \<and> lk_got l x \<le> length (wires (cn_out (lk_conn l (\<not> x)))))"

text \<open>The invariant of the direction from \<open>X\<close> to \<open>Y\<close>, with the bytes \<open>w\<close> in flight.\<close>

definition way :: "crypto \<Rightarrow> conn \<Rightarrow> conn \<Rightarrow> bytes \<Rightarrow> bytes list \<Rightarrow> bool" where
  "way C X Y w sent \<longleftrightarrow>
     (\<exists>q. chan C X Y q \<and> fd_max (cn_decoder Y) = SESSION_MAX_FRAME \<and>
        frame_next SESSION_MAX_FRAME (fd_buf (cn_decoder Y)) = Wait \<and>
        fd_buf (cn_decoder Y) @ w = concat (map frame_bytes (seal_items C (rx_key Y) q)) \<and>
        sent = delivered (cn_out Y) @ bodies q)"

definition direction :: "crypto \<Rightarrow> conn \<Rightarrow> conn \<Rightarrow> bytes \<Rightarrow> bytes list \<Rightarrow> bool" where
  "direction C X Y w sent \<longleftrightarrow>
     (if cn_closed Y then \<exists>rest. sent = delivered (cn_out Y) @ rest else way C X Y w sent)"

definition link_inv :: "crypto \<Rightarrow> link \<Rightarrow> bool" where
  "link_inv C l \<longleftrightarrow> (\<forall>x. cn_session (lk_conn l x) \<noteq> None \<and>
     direction C (lk_conn l (\<not> x)) (lk_conn l x) (inflight l x) (lk_sent l (\<not> x)) \<and>
     lk_got l x \<le> length (wires (cn_out (lk_conn l (\<not> x)))) \<and>
     set (errors (cn_out (lk_conn l x))) \<subseteq> {RateLimited, SessionRateLimited})"

lemma seal_items_split:
  "seal_items C k q = a @ b \<Longrightarrow>
     \<exists>p r. q = p @ r \<and> a = seal_items C k p \<and> b = seal_items C (last_key C k p) r"
proof (induction a arbitrary: k q)
  case Nil
  then show ?case by (intro exI [of _ "[]"] exI [of _ q]) simp
next
  case (Cons f a)
  then obtain ni q' where q: "q = ni # q'" by (cases q) auto
  with Cons.prems have "seal_items C (key_after C (snd ni) k) q' = a @ b" "f = sealed C k ni" by simp_all
  from Cons.IH [OF this(1)] this(2) q show ?case
    by (metis append_Cons last_key.simps(2) seal_items.simps(2))
qed

text \<open>What the receiver's reaction does to the other direction.\<close>

definition replies :: "crypto \<Rightarrow> conn \<Rightarrow> (bytes \<times> item) list \<Rightarrow> conn \<Rightarrow> bool" where
  "replies C Y acks Y' \<longleftrightarrow> cn_session Y' \<noteq> None \<and> tx_key Y' = last_key C (tx_key Y) acks \<and>
     cn_txSeq Y' = cn_txSeq Y \<and> seqs acks = [] \<and> bodies acks = [] \<and> (\<forall>ni \<in> set acks. item_ok ni) \<and>
     wires (cn_out Y') = wires (cn_out Y) @ concat (map frame_bytes (seal_items C (tx_key Y) acks))"

lemma replies_taken: "taken C Y p acks (Y'\<lparr>cn_decoder := d\<rparr>) \<Longrightarrow> replies C Y acks Y'"
  by (simp add: taken_def replies_def tx_key_def)

lemma replies_refused:
  "taken C Y p acks Z \<Longrightarrow> refused Z (Y'\<lparr>cn_decoder := d\<rparr>) \<Longrightarrow> replies C Y acks Y'"
  by (simp add: taken_def refused_def replies_def tx_key_def)

text \<open>A chunk of the bytes in flight arrives.\<close>

lemma deliver_chunk:
  assumes "crypto_sizes C" and "aead_correct C" and "aead_size C" and "\<not> cn_closed Y"
    and "\<forall>i k. length (ns i k) = NPUBBYTES" and "way C X Y (chunk @ rest) sent"
  obtains acks where "replies C Y acks (conn_onData C ks ns clk chunk Y)"
    "direction C X (conn_onData C ks ns clk chunk Y) rest sent"
    "set (errors (cn_out (conn_onData C ks ns clk chunk Y))) \<subseteq>
       set (errors (cn_out Y)) \<union> {RateLimited, SessionRateLimited}"
proof -
  obtain q where q: "chan C X Y q" "fd_max (cn_decoder Y) = SESSION_MAX_FRAME"
    "fd_buf (cn_decoder Y) @ chunk @ rest = concat (map frame_bytes (seal_items C (rx_key Y) q))"
    "sent = delivered (cn_out Y) @ bodies q"
    using assms(6) by (auto simp: way_def)
  have fit: "\<forall>f \<in> set (seal_items C (rx_key Y) q). length f \<le> SESSION_MAX_FRAME \<and> length f < 2 ^ 32"
    using seal_items_fit [OF assms(3), of q "rx_key Y"] q(1) by (auto simp: chan_def SESSION_MAX_FRAME_def)
  obtain fs1 fs2 r where f: "seal_items C (rx_key Y) q = fs1 @ fs2"
    "frame_cut SESSION_MAX_FRAME [] (fd_buf (cn_decoder Y) @ chunk) = Inr (fs1, r)"
    "r @ rest = concat (map frame_bytes fs2)"
    using frames.cut_partial [OF fit, of "fd_buf (cn_decoder Y) @ chunk" rest] q(3) by auto
  obtain p q2 where p: "q = p @ q2" "fs1 = seal_items C (rx_key Y) p"
    "fs2 = seal_items C (last_key C (rx_key Y) p) q2"
    using seal_items_split [OF f(1)] by blast
  obtain d where d: "push (cn_decoder Y) chunk = (Inr fs1, d)" "fd_buf d = r" "fd_max d = SESSION_MAX_FRAME"
    using f(2) frame_cut_push [of "cn_decoder Y" chunk] push_max [of "cn_decoder Y" chunk] q(2)
    by (cases "push (cn_decoder Y) chunk") (auto split: sum.splits)
  have wait: "frame_next SESSION_MAX_FRAME r = Wait" using frames.cut_residue [OF f(2)] .
  let ?Y = "Y\<lparr>cn_decoder := d\<rparr>"
  have k: "rx_key ?Y = rx_key Y" "tx_key ?Y = tx_key Y" "rx_last ?Y = rx_last Y"
    by (simp_all add: rx_key_def tx_key_def rx_last_def)
  have "chan C X ?Y (p @ q2)" using q(1) p(1) k chan_cong [of X X ?Y Y C] by simp
  moreover have "\<not> cn_closed ?Y" using assms(4) by simp
  ultimately have li: "\<exists>p1 p2 acks Z. p = p1 @ p2 \<and> taken C ?Y p1 acks Z \<and>
      ((p2 = [] \<and> frame_loop C ks ns clk 0 (seal_items C (rx_key ?Y) p) ?Y = Z) \<or>
       refused Z (frame_loop C ks ns clk 0 (seal_items C (rx_key ?Y) p) ?Y))"
    using assms(5) by (intro loop_items [OF assms(1-3)]) auto
  define Y1 where "Y1 = conn_onData C ks ns clk chunk Y"
  have Y1: "Y1 = frame_loop C ks ns clk 0 (seal_items C (rx_key ?Y) p) ?Y"
    using d p k by (simp add: Y1_def conn_onData_def)
  obtain p1 p2 acks Z where z: "p = p1 @ p2" "taken C ?Y p1 acks Z" "(p2 = [] \<and> Y1 = Z) \<or> refused Z Y1"
    using li unfolding Y1 by blast
  show thesis using z(3)
  proof
    assume a: "p2 = [] \<and> Y1 = Z"
    then have t: "taken C ?Y p acks Y1" using z by simp
    have "chan C X Y1 q2" using chan_taken [OF assms(1) _ t] \<open>chan C X ?Y (p @ q2)\<close> by blast
    moreover have "cn_decoder Y1 = d" "rx_key Y1 = last_key C (rx_key Y) p"
      "delivered (cn_out Y1) = delivered (cn_out Y) @ bodies p"
      using t k by (simp_all add: taken_def)
    ultimately have "way C X Y1 rest sent"
      using d wait f(3) p q(4) by (auto simp: way_def)
    moreover have "taken C Y p acks (Y1\<lparr>cn_decoder := cn_decoder Y\<rparr>)"
      using t k by (auto simp: taken_def rx_key_def tx_key_def rx_last_def)
    moreover have "\<not> cn_closed Y1" "errors (cn_out Y1) = errors (cn_out Y)"
      using t by (simp_all add: taken_def)
    ultimately show thesis using that [of acks] replies_taken
      by (auto simp: direction_def simp flip: Y1_def)
  next
    assume r: "refused Z Y1"
    have "taken C Y p1 acks (Z\<lparr>cn_decoder := cn_decoder Y\<rparr>)"
      using z(2) k by (auto simp: taken_def rx_key_def tx_key_def rx_last_def)
    moreover have "refused (Z\<lparr>cn_decoder := cn_decoder Y\<rparr>) (Y1\<lparr>cn_decoder := cn_decoder Y\<rparr>)"
      using r by (simp add: refused_def)
    ultimately have "replies C Y acks Y1" by (rule replies_refused)
    moreover have "sent = delivered (cn_out Y1) @ bodies (p2 @ q2)"
      using q(4) p(1) z(1,2) r by (simp add: taken_def refused_def)
    moreover have "cn_closed Y1"
      "set (errors (cn_out Y1)) \<subseteq> set (errors (cn_out Y)) \<union> {RateLimited, SessionRateLimited}"
      using r z(2) by (auto simp: taken_def refused_def)
    ultimately show thesis using that [of acks] by (auto simp: direction_def simp flip: Y1_def)
  qed
qed

lemma sends_replies:
  "sends C X its X' \<Longrightarrow> wires (cn_out X') = wires (cn_out X) @ concat (map frame_bytes (seal_items C (tx_key X) its))"
  by (simp add: sends_def)

lemma direction_more:
  assumes "direction C Y X (drop g (wires (cn_out Y))) sent" and "g \<le> length (wires (cn_out Y))"
    and "wires (cn_out Y') = wires (cn_out Y) @ concat (map frame_bytes (seal_items C (tx_key Y) its))"
    and "\<And>q. chan C Y X q \<Longrightarrow> chan C Y' X (q @ its)"
  shows "direction C Y' X (drop g (wires (cn_out Y'))) (sent @ bodies its)"
proof (cases "cn_closed X")
  case True
  then show ?thesis using assms(1) by (auto simp: direction_def)
next
  case False
  then obtain q where q: "chan C Y X q" "fd_max (cn_decoder X) = SESSION_MAX_FRAME"
    "frame_next SESSION_MAX_FRAME (fd_buf (cn_decoder X)) = Wait"
    "fd_buf (cn_decoder X) @ drop g (wires (cn_out Y)) = concat (map frame_bytes (seal_items C (rx_key X) q))"
    "sent = delivered (cn_out X) @ bodies q"
    using assms(1) by (auto simp: direction_def way_def)
  have "last_key C (rx_key X) q = tx_key Y" using q(1) by (simp add: chan_def)
  then have "way C Y' X (drop g (wires (cn_out Y'))) (sent @ bodies its)"
    unfolding way_def using q assms(2,3,4) by (intro exI [of _ "q @ its"]) simp
  then show ?thesis using False by (simp add: direction_def)
qed

lemma direction_same_end:
  assumes "direction C X Y w sent" and "rx_key Y' = rx_key Y" and "rx_last Y' = rx_last Y"
    and "cn_session Y' \<noteq> None \<longleftrightarrow> cn_session Y \<noteq> None" and "cn_closed Y' = cn_closed Y"
    and "cn_decoder Y' = cn_decoder Y" and "delivered (cn_out Y') = delivered (cn_out Y)"
  shows "direction C X Y' w sent"
  using assms chan_cong [of X X Y' Y C]
  by (cases "cn_closed Y") (simp_all add: direction_def way_def)

lemma link_inv_sends:
  assumes "link_inv C l" and "sends C (lk_conn l x) its c"
  shows "link_inv C (l\<lparr>lk_conn := (lk_conn l)(x := c), lk_sent := (lk_sent l)(x := lk_sent l x @ bodies its)\<rparr>)"
    (is "link_inv C ?l")
  unfolding link_inv_def
proof
  fix y
  have inv: "cn_session (lk_conn l z) \<noteq> None"
    "direction C (lk_conn l (\<not> z)) (lk_conn l z) (inflight l z) (lk_sent l (\<not> z))"
    "lk_got l z \<le> length (wires (cn_out (lk_conn l (\<not> z))))"
    "set (errors (cn_out (lk_conn l z))) \<subseteq> {RateLimited, SessionRateLimited}" for z
    using assms(1) by (auto simp: link_inv_def)
  show "cn_session (lk_conn ?l y) \<noteq> None \<and>
     direction C (lk_conn ?l (\<not> y)) (lk_conn ?l y) (inflight ?l y) (lk_sent ?l (\<not> y)) \<and>
     lk_got ?l y \<le> length (wires (cn_out (lk_conn ?l (\<not> y)))) \<and>
     set (errors (cn_out (lk_conn ?l y))) \<subseteq> {RateLimited, SessionRateLimited}"
  proof (cases "y = x")
    case True
    have "direction C (lk_conn l (\<not> x)) c (inflight l x) (lk_sent l (\<not> x))"
      using inv(2) [of x] by (rule direction_same_end) (use assms(2) inv(1) in \<open>auto simp: sends_def\<close>)
    then show ?thesis using True inv [of x] assms(2) by (auto simp: inflight_def sends_def)
  next
    case False
    then have y: "y = (\<not> x)" "(\<not> y) = x" by auto
    have "direction C c (lk_conn l y) (drop (lk_got l y) (wires (cn_out c))) (lk_sent l x @ bodies its)"
    proof (rule direction_more)
      show "direction C (lk_conn l x) (lk_conn l y) (drop (lk_got l y) (wires (cn_out (lk_conn l x)))) (lk_sent l x)"
        using inv(2) [of y] y by (simp add: inflight_def)
      show "lk_got l y \<le> length (wires (cn_out (lk_conn l x)))" using inv(3) [of y] y by simp
      show "wires (cn_out c) = wires (cn_out (lk_conn l x)) @
          concat (map frame_bytes (seal_items C (tx_key (lk_conn l x)) its))"
        using assms(2) by (rule sends_replies)
    qed (rule chan_sends [OF _ assms(2)])
    then show ?thesis using False y inv [of y] assms(2) by (auto simp: inflight_def sends_def)
  qed
qed

lemma link_inv_deliver:
  assumes "crypto_sizes C" and "aead_correct C" and "aead_size C" and "link_inv C l"
    and "\<not> cn_closed (lk_conn l x)" and "\<forall>i k. length (ns i k) = NPUBBYTES"
    and "inflight l x = chunk @ rest"
  shows "link_inv C (l\<lparr>lk_conn := (lk_conn l)(x := conn_onData C ks ns clk chunk (lk_conn l x)),
      lk_got := (lk_got l)(x := lk_got l x + length chunk)\<rparr>)" (is "link_inv C ?l")
proof -
  have inv: "cn_session (lk_conn l z) \<noteq> None"
    "direction C (lk_conn l (\<not> z)) (lk_conn l z) (inflight l z) (lk_sent l (\<not> z))"
    "lk_got l z \<le> length (wires (cn_out (lk_conn l (\<not> z))))"
    "set (errors (cn_out (lk_conn l z))) \<subseteq> {RateLimited, SessionRateLimited}" for z
    using assms(4) by (auto simp: link_inv_def)
  define c where "c = conn_onData C ks ns clk chunk (lk_conn l x)"
  have w: "way C (lk_conn l (\<not> x)) (lk_conn l x) (chunk @ rest) (lk_sent l (\<not> x))"
    using inv(2) [of x] assms(5,7) by (simp add: direction_def)
  obtain acks where r: "replies C (lk_conn l x) acks c"
    and d: "direction C (lk_conn l (\<not> x)) c rest (lk_sent l (\<not> x))"
    and e0: "set (errors (cn_out c)) \<subseteq> set (errors (cn_out (lk_conn l x))) \<union> {RateLimited, SessionRateLimited}"
    by (rule deliver_chunk [OF assms(1-3,5,6) w, of ks clk, folded c_def])
  have e: "set (errors (cn_out c)) \<subseteq> {RateLimited, SessionRateLimited}" using e0 inv(4) [of x] by blast
  show ?thesis unfolding link_inv_def c_def [symmetric]
  proof
    fix y
    let ?m = "l\<lparr>lk_conn := (lk_conn l)(x := c), lk_got := (lk_got l)(x := lk_got l x + length chunk)\<rparr>"
    show "cn_session (lk_conn ?m y) \<noteq> None \<and>
       direction C (lk_conn ?m (\<not> y)) (lk_conn ?m y) (inflight ?m y) (lk_sent ?m (\<not> y)) \<and>
       lk_got ?m y \<le> length (wires (cn_out (lk_conn ?m (\<not> y)))) \<and>
       set (errors (cn_out (lk_conn ?m y))) \<subseteq> {RateLimited, SessionRateLimited}"
    proof (cases "y = x")
      case True
      have "inflight ?m x = rest"
        using arg_cong [OF assms(7), of "drop (length chunk)"]
        by (simp add: inflight_def add.commute)
      moreover have "lk_got l x + length chunk \<le> length (wires (cn_out (lk_conn l (\<not> x))))"
        using arg_cong [OF assms(7), of length] inv(3) [of x] by (simp add: inflight_def)
      ultimately show ?thesis using True r d e by (simp add: replies_def)
    next
      case False
      then have y: "y = (\<not> x)" "(\<not> y) = x" by auto
      have "direction C c (lk_conn l y) (drop (lk_got l y) (wires (cn_out c))) (lk_sent l x @ bodies acks)"
      proof (rule direction_more)
        show "direction C (lk_conn l x) (lk_conn l y) (drop (lk_got l y) (wires (cn_out (lk_conn l x)))) (lk_sent l x)"
          using inv(2) [of y] y by (simp add: inflight_def)
        show "lk_got l y \<le> length (wires (cn_out (lk_conn l x)))" using inv(3) [of y] y by simp
        show "wires (cn_out c) = wires (cn_out (lk_conn l x)) @
            concat (map frame_bytes (seal_items C (tx_key (lk_conn l x)) acks))"
          using r by (simp add: replies_def)
        show "chan C (lk_conn l x) (lk_conn l y) q \<Longrightarrow> chan C c (lk_conn l y) (q @ acks)" for q
          using r by (auto simp: replies_def chan_def)
      qed
      then show ?thesis using False y inv [of y] r by (auto simp: inflight_def replies_def)
    qed
  qed
qed

lemma link_inv_step:
  assumes "crypto_sizes C" and "aead_correct C" and "aead_size C" and "link_step C ks l l'" and "link_inv C l"
  shows "link_inv C l'"
  using assms(4)
proof cases
  case (Send x body ns now c)
  obtain its where "sends C (lk_conn l x) its c" "bodies its = [body]"
    using send_sends [OF assms(3) Send(4,2,3,5)] by blast
  then show ?thesis using link_inv_sends [OF assms(5)] Send(1) by metis
next
  case (Renew x nonce r c)
  have "cn_session (lk_conn l x) \<noteq> None" using assms(5) by (simp add: link_inv_def)
  then obtain its where "sends C (lk_conn l x) its c" "bodies its = []"
    using rekey_sends [OF assms(3) Renew(3,2) _ Renew(4)] by blast
  then show ?thesis using link_inv_sends [OF assms(5), of x its c] Renew(1) by simp
next
  case (Timer x nonce now r c)
  have s: "cn_session (lk_conn l x) \<noteq> None" using assms(5) by (simp add: link_inv_def)
  have "\<exists>its. sends C (lk_conn l x) its c \<and> bodies its = []"
  proof (cases "cn_rekeyTimer (lk_conn l x)")
    case True
    then show ?thesis using Timer(4) autoRekey_sends [OF assms(3) Timer(3,2) s]
      by (simp add: conn_onRekeyTimer_def)
  next
    case False
    then show ?thesis using Timer(4) sends_refl [OF s]
      by (intro exI [of _ "[]"]) (simp add: conn_onRekeyTimer_def)
  qed
  then obtain its where "sends C (lk_conn l x) its c" "bodies its = []" by blast
  then show ?thesis using link_inv_sends [OF assms(5), of x its c] Timer(1) by simp
next
  case (Deliver x ns chunk rest clk c)
  then show ?thesis using link_inv_deliver [OF assms(1-3,5)] by metis
qed

lemma link_inv_start:
  assumes "link_start l"
  shows "link_inv C l"
proof -
  obtain s t where st: "cn_session (lk_conn l True) = Some s" "cn_session (lk_conn l False) = Some t"
    "mirrored s t" and f: "fresh_end (lk_conn l True)" "fresh_end (lk_conn l False)"
    using assms by (auto simp: link_start_def)
  have c: "chan C (lk_conn l (\<not> x)) (lk_conn l x) []" for x
    using st f by (cases x)
      (auto simp: chan_def fresh_end_def mirrored_def tx_key_def rx_key_def rx_last_def)
  have "fresh_end (lk_conn l x)" for x using f by (cases x) simp_all
  then have "way C (lk_conn l (\<not> x)) (lk_conn l x) (inflight l x) (lk_sent l (\<not> x))" for x
    unfolding way_def using assms c [of x]
    by (intro exI [of _ "[]"])
      (simp add: link_start_def fresh_end_def new_frame_decoder_def frame_next_def)
  moreover have "cn_session (lk_conn l x) \<noteq> None" for x using st by (cases x) simp_all
  ultimately show ?thesis using assms \<open>\<And>x. fresh_end (lk_conn l x)\<close>
    by (simp add: link_inv_def direction_def link_start_def fresh_end_def)
qed

lemma link_inv_reach:
  assumes "crypto_sizes C" and "aead_correct C" and "aead_size C"
  shows "link_reach C ks l0 l \<Longrightarrow> link_inv C l0 \<Longrightarrow> link_inv C l"
  by (induction rule: link_reach.induct) (auto intro: link_inv_step [OF assms])

lemma way_drained:
  assumes "aead_size C" and "way C X Y [] sent"
  shows "sent = delivered (cn_out Y)"
proof -
  obtain q where q: "chan C X Y q" "frame_next SESSION_MAX_FRAME (fd_buf (cn_decoder Y)) = Wait"
    "fd_buf (cn_decoder Y) = concat (map frame_bytes (seal_items C (rx_key Y) q))"
    "sent = delivered (cn_out Y) @ bodies q"
    using assms(2) by (auto simp: way_def)
  show ?thesis
  proof (cases q)
    case (Cons ni q')
    let ?f = "sealed C (rx_key Y) ni"
    have "length ?f \<le> SESSION_MAX_FRAME"
      using length_sealed [OF assms(1)] q(1) Cons by (simp add: chan_def)
    then have "frame_next SESSION_MAX_FRAME (frame_bytes ?f) = Emit ?f []"
      by (intro frame_next_encoded) (simp_all add: SESSION_MAX_FRAME_def)
    then show ?thesis using frame_next_emit_append q(2,3) Cons by fastforce
  qed (use q in simp)
qed

section \<open>Properties\<close>

lemma session_facts:
  assumes "crypto_sizes C" and "aead_correct C" and "aead_size C"
    and "link_start l0" and "link_reach C ks l0 l"
  shows "\<exists>rest. lk_sent l (\<not> x) = delivered (cn_out (lk_conn l x)) @ rest"
    and "\<not> cn_closed (lk_conn l x) \<Longrightarrow> inflight l x = [] \<Longrightarrow> delivered (cn_out (lk_conn l x)) = lk_sent l (\<not> x)"
    and "set (errors (cn_out (lk_conn l x))) \<subseteq> {RateLimited, SessionRateLimited}"
proof -
  have "link_inv C l" using link_inv_reach [OF assms(1-3,5)] link_inv_start [OF assms(4)] by blast
  then have d: "direction C (lk_conn l (\<not> x)) (lk_conn l x) (inflight l x) (lk_sent l (\<not> x))"
    and e: "set (errors (cn_out (lk_conn l x))) \<subseteq> {RateLimited, SessionRateLimited}"
    by (simp_all add: link_inv_def)
  show "\<exists>rest. lk_sent l (\<not> x) = delivered (cn_out (lk_conn l x)) @ rest"
    using d by (auto simp: direction_def way_def split: if_splits)
  show "delivered (cn_out (lk_conn l x)) = lk_sent l (\<not> x)"
    if "\<not> cn_closed (lk_conn l x)" "inflight l x = []"
    using d that way_drained [OF assms(3)] by (simp add: direction_def)
  show "set (errors (cn_out (lk_conn l x))) \<subseteq> {RateLimited, SessionRateLimited}" by (rule e)
qed


text \<open>A context in which the address has no ban and has had at most \<open>n\<close> frames.\<close>

definition calm :: "nat \<Rightarrow> conn \<Rightarrow> bool" where
  "calm n c \<longleftrightarrow> (case cn_sec c of None \<Rightarrow> True
     | Some d \<Rightarrow> bl_bans (df_blacklist d) = [] \<and> rl_ok MAX_PACKETS_PER_SECOND_PER_IP 1000 (df_limiter d) \<and>
         (case rl_view (df_limiter d) (cn_remoteIp c) of None \<Rightarrow> True | Some (k, w) \<Rightarrow> k \<le> n))"

lemma calm_cong: "calm n c \<Longrightarrow> cn_sec c' = cn_sec c \<Longrightarrow> cn_remoteIp c' = cn_remoteIp c \<Longrightarrow> calm n c'"
  unfolding calm_def by metis

definition new_defence :: defence where
  "new_defence = \<lparr>df_blacklist = new_blacklist None None None,
     df_limiter = new_rate_limiter MAX_PACKETS_PER_SECOND_PER_IP 1000\<rparr>"

lemma conn_allow_calm:
  assumes "calm n c" and "n < MAX_PACKETS_PER_SECOND_PER_IP"
  shows "\<exists>d. conn_allow clk c = (True, c\<lparr>cn_sec := d\<rparr>) \<and> calm (Suc n) (c\<lparr>cn_sec := d\<rparr>)"
proof (cases "cn_sec c")
  case None
  then have "c\<lparr>cn_sec := None\<rparr> = c" by (cases c) simp
  then show ?thesis using None by (intro exI [of _ None]) (simp add: conn_allow_def calm_def)
next
  case (Some d)
  let ?rl = "df_limiter d" and ?ip = "cn_remoteIp c"
  have ok: "rl_ok MAX_PACKETS_PER_SECOND_PER_IP (int 1000) ?rl" using assms(1) Some by (simp add: calm_def)
  have b: "bl_bans (df_blacklist d) = []" using assms(1) Some by (simp add: calm_def)
  then have i: "isBanned (df_blacklist d) ?ip (clk 0) = (False, df_blacklist d)"
    by (simp add: isBanned_def)
  obtain x rl where a: "allow ?rl ?ip (clk 1) = (x, rl)" by (cases "allow ?rl ?ip (clk 1)")
  have "x" and "case rl_view rl ?ip of None \<Rightarrow> True | Some (k, w) \<Rightarrow> k \<le> Suc n"
    using rate.hit_below [OF ok, where k = ?ip and n = n and t = "clk 1"] assms a Some by (simp_all add: calm_def)
  moreover have "rl_ok MAX_PACKETS_PER_SECOND_PER_IP 1000 rl"
    using allow_ok [OF ok, of ?ip "clk 1"] a by simp
  ultimately show ?thesis using Some i a b
    by (intro exI [of _ "Some (d\<lparr>df_limiter := rl\<rparr>)"]) (simp add: conn_allow_def allowFrame_def calm_def)
qed

lemma calm_new: "d = None \<or> d = Some new_defence \<Longrightarrow> cn_sec c = d \<Longrightarrow> calm 0 c"
  by (auto simp: calm_def new_defence_def new_blacklist_def rl_ok_def new_rate_limiter_def rl_view_def)

text \<open>One handshake frame that the handler takes.\<close>

lemma handshake_step:
  assumes "calm n c" and "n < MAX_PACKETS_PER_SECOND_PER_IP" and "cn_session c = None"
    and "cn_decoder c = new_frame_decoder SESSION_MAX_FRAME" and "length p \<le> SESSION_MAX_FRAME"
  obtains d where "calm (Suc n) (c\<lparr>cn_sec := d\<rparr>)"
    "\<And>c'. handle_handshake C ks p (c\<lparr>cn_sec := d\<rparr>) = (Inr (), c') \<Longrightarrow>
       conn_onData C ks ns clk (frame_bytes p) c = c'"
proof -
  obtain d where "conn_allow (clk 0) c = (True, c\<lparr>cn_sec := d\<rparr>)" "calm (Suc n) (c\<lparr>cn_sec := d\<rparr>)"
    using conn_allow_calm [OF assms(1,2)] by blast
  then show thesis using that [of d] assms(3) onData_one [OF assms(4,5)]
    by (simp add: frame_step_def handle_frame_def)
qed

lemma new_conn_ends:
  assumes "crypto_sizes C" and "length a = 32" and "length x = 32"
  shows "new_conn C (keystore_of C a) True None mA pA x clkA ipB = Inr A \<Longrightarrow>
      cn_out A = [Wire (frame_bytes (msg1_of C a x))] \<and> cn_hs A = HsI (initiator_of C a x) \<and>
      cn_session A = None \<and> \<not> cn_closed A \<and> cn_decoder A = new_frame_decoder SESSION_MAX_FRAME \<and>
      cn_txSeq A = 0 \<and> cn_rxSeq A = None \<and> cn_sec A = None"
    and "new_conn C (keystore_of C b) False d mB pB y clkB ipA = Inr B \<Longrightarrow>
      cn_out B = [] \<and> cn_hs B = HsR (responder_of C b y) \<and> cn_session B = None \<and> cn_step B = 0 \<and>
      \<not> cn_closed B \<and> cn_decoder B = new_frame_decoder SESSION_MAX_FRAME \<and>
      cn_txSeq B = 0 \<and> cn_rxSeq B = None \<and> cn_sec B = d"
proof -
  have "length (msg1_of C a x) < 2 ^ 32" using length_msgs [OF assms(1,2,2,3,3)] by simp
  then show "new_conn C (keystore_of C a) True None mA pA x clkA ipB = Inr A \<Longrightarrow>
      cn_out A = [Wire (frame_bytes (msg1_of C a x))] \<and> cn_hs A = HsI (initiator_of C a x) \<and>
      cn_session A = None \<and> \<not> cn_closed A \<and> cn_decoder A = new_frame_decoder SESSION_MAX_FRAME \<and>
      cn_txSeq A = 0 \<and> cn_rxSeq A = None \<and> cn_sec A = None"
    by (auto simp: new_conn_def new_initiator_of createMessage1_def Let_def write_frame_ok
        initiator_of_def msg1_of_def)
qed (auto simp: new_conn_def new_responder_of Let_def)

text \<open>C9. A session gets established: for two honest nodes, the bytes that a new initiator and a new
  responder write, delivered to each other, bring both ends to the session with the other's identity, and
  the two ends start a link as in the previous property (fresh counters, mirrored keys, nothing in
  flight); a responder behind the server's defences too, if its address has no record.\<close>

theorem session_established:
  assumes "crypto_sizes C" and "sign_correct C" and "dh_agrees C"
    and "length a = 32" and "length b = 32" and "length x = 32" and "length y = 32"
    and "d = None \<or> d = Some new_defence"
    and "new_conn C (keystore_of C a) True None mA pA x clkA ipB = Inr A0"
    and "new_conn C (keystore_of C b) False d mB pB y clkB ipA = Inr B0"
    and "B1 = conn_onData C (keystore_of C b) ns1 clk1 (wires (cn_out A0)) B0"
    and "A1 = conn_onData C (keystore_of C a) ns2 clk2 (wires (cn_out B1)) A0"
    and "B2 = conn_onData C (keystore_of C b) ns3 clk3 (drop (length (wires (cn_out A0))) (wires (cn_out A1))) B1"
  shows "link_start \<lparr>lk_conn = (\<lambda>s. if s then A1 else B2),
      lk_got = (\<lambda>s. if s then length (wires (cn_out B2)) else length (wires (cn_out A1))),
      lk_sent = (\<lambda>s. [])\<rparr> \<and>
    Secure (ed_public C b) \<in> set (cn_out A1) \<and> Secure (ed_public C a) \<in> set (cn_out B2)"
proof -
  obtain dh kI kR hi' hr' where dk: "deriveSessionKeys C dh = (kI, kR)"
    and c1: "consumeMessage1 C (keystore_of C b) (msg1_of C a x) (responder_of C b y) = (Inr (msg2_of C b x y), hr')"
    and c2: "consumeMessage2 C (keystore_of C a) (msg2_of C b x y) (initiator_of C a x) =
       (Inr (msg3_of C a x y, new_session kI kR (ed_public C b)), hi')"
    and c3: "consumeMessage3 C (msg3_of C a x y) hr' =
       (Inr (Some (new_session kR kI (ed_public C a))), hr'\<lparr>hr_done := True\<rparr>)"
    by (rule messages_as [OF assms(1-7,4)])
  note len = length_msgs [OF assms(1,4-7)]
  have fit: "length (msg1_of C a x) \<le> SESSION_MAX_FRAME" "length (msg2_of C b x y) \<le> SESSION_MAX_FRAME"
    "length (msg3_of C a x y) \<le> SESSION_MAX_FRAME" "length (msg2_of C b x y) < 2 ^ 32" "length (msg3_of C a x y) < 2 ^ 32"
    unfolding len by (simp_all add: SESSION_MAX_FRAME_def)
  note A0 = new_conn_ends(1) [OF assms(1,4,6,9)]
  note B0 = new_conn_ends(2) [OF assms(1,5,7,10)]
  have q: "0 < MAX_PACKETS_PER_SECOND_PER_IP" "Suc 0 < MAX_PACKETS_PER_SECOND_PER_IP"
    by (simp_all add: MAX_PACKETS_PER_SECOND_PER_IP_def)
  have calm0: "calm 0 B0" "calm 0 A0" using calm_new A0 B0 assms(8) by auto
  obtain d1 where d1: "calm (Suc 0) (B0\<lparr>cn_sec := d1\<rparr>)"
    "\<And>c'. handle_handshake C (keystore_of C b) (msg1_of C a x) (B0\<lparr>cn_sec := d1\<rparr>) = (Inr (), c') \<Longrightarrow>
       conn_onData C (keystore_of C b) ns1 clk1 (frame_bytes (msg1_of C a x)) B0 = c'"
    using handshake_step [OF calm0(1) q(1) _ _ fit(1)] B0 by metis
  have B1: "B1 = (emit (Wire (frame_bytes (msg2_of C b x y))) (B0\<lparr>cn_sec := d1, cn_hs := HsR hr'\<rparr>))\<lparr>cn_step := 1\<rparr>"
    unfolding assms(11) using c1 B0 A0 fit(4) by (simp add: d1(2) handle_handshake_def write_frame_ok)
  obtain d2 where d2: "\<And>c'. handle_handshake C (keystore_of C a) (msg2_of C b x y) (A0\<lparr>cn_sec := d2\<rparr>) = (Inr (), c') \<Longrightarrow>
       conn_onData C (keystore_of C a) ns2 clk2 (frame_bytes (msg2_of C b x y)) A0 = c'"
    using handshake_step [OF calm0(2) q(1) _ _ fit(2)] A0 by metis
  have A1: "A1 = emit (Secure (ed_public C b)) ((emit (Wire (frame_bytes (msg3_of C a x y)))
      (A0\<lparr>cn_sec := d2, cn_hs := HsI hi', cn_session := Some (new_session kI kR (ed_public C b))\<rparr>))
      \<lparr>cn_timeout := False, cn_rekeyTimer := True\<rparr>)"
    unfolding assms(12) using c2 A0 B0 fit(5)
    by (simp add: B1 d2 handle_handshake_def write_frame_ok new_session_def)
  have B1f: "cn_session B1 = None" "cn_decoder B1 = new_frame_decoder SESSION_MAX_FRAME" "calm (Suc 0) B1"
    "cn_hs B1 = HsR hr'" "cn_step B1 = 1"
    using B0 calm_cong [OF d1(1), of B1] by (simp_all add: B1 emit_def)
  obtain d3 where d3: "\<And>c'. handle_handshake C (keystore_of C b) (msg3_of C a x y) (B1\<lparr>cn_sec := d3\<rparr>) = (Inr (), c') \<Longrightarrow>
       conn_onData C (keystore_of C b) ns3 clk3 (frame_bytes (msg3_of C a x y)) B1 = c'"
    using handshake_step [OF B1f(3) q(2) B1f(1,2) fit(3)] by metis
  have "drop (length (wires (cn_out A0))) (wires (cn_out A1)) = frame_bytes (msg3_of C a x y)"
    using A0 by (simp add: A1)
  then have B2: "B2 = emit (Secure (ed_public C a)) (B1\<lparr>cn_sec := d3, cn_hs := HsR (hr'\<lparr>hr_done := True\<rparr>),
      cn_session := Some (new_session kR kI (ed_public C a)), cn_timeout := False\<rparr>)"
    unfolding assms(13) using c3 B1f by (simp add: d3 handle_handshake_def new_session_def)
  have "cn_session A1 = Some (new_session kI kR (ed_public C b))"
    "cn_session B2 = Some (new_session kR kI (ed_public C a))" "fresh_end A1" "fresh_end B2"
    "set (cn_out A1) \<supseteq> {Secure (ed_public C b)}" "set (cn_out B2) \<supseteq> {Secure (ed_public C a)}"
    using A0 B0 by (simp_all add: fresh_end_def A1 B2 B1)
  then show ?thesis using mirrored_new [OF assms(1) dk] by (auto simp: link_start_def inflight_def)
qed

theorem session_established_witness:
  "\<exists>l. link_start l \<and> Secure (replicate 32 3) \<in> set (cn_out (lk_conn l True)) \<and>
     Secure (replicate 32 1) \<in> set (cn_out (lk_conn l False))"
proof -
  let ?C = demo_crypto
  let ?ka = "keystore_of ?C (replicate 32 1)" and ?kb = "keystore_of ?C (replicate 32 3)"
  have l: "length (msg1_of ?C (replicate 32 1) (replicate 32 2)) < 2 ^ 32"
    using length_msgs [OF demo_sizes, of "replicate 32 1" "replicate 32 1" "replicate 32 2" "replicate 32 2"] by simp
  obtain A0 where A0: "new_conn ?C ?ka True None None (None, None, None) (replicate 32 2) (\<lambda>k. 0) ''b'' = Inr A0"
    using l by (simp add: new_conn_def new_initiator_of createMessage1_def Let_def write_frame_ok
        initiator_of_def msg1_of_def)
  obtain B0 where B0: "new_conn ?C ?kb False (Some new_defence) None (None, None, None) (replicate 32 4) (\<lambda>k. 0) ''a'' = Inr B0"
    by (simp add: new_conn_def new_responder_of Let_def)
  define B1 where "B1 = conn_onData ?C ?kb (\<lambda>i k. []) (\<lambda>i k. 0) (wires (cn_out A0)) B0"
  define A1 where "A1 = conn_onData ?C ?ka (\<lambda>i k. []) (\<lambda>i k. 0) (wires (cn_out B1)) A0"
  define B2 where "B2 = conn_onData ?C ?kb (\<lambda>i k. []) (\<lambda>i k. 0) (drop (length (wires (cn_out A0))) (wires (cn_out A1))) B1"
  have pub: "ed_public ?C (replicate 32 1) = replicate 32 1" "ed_public ?C (replicate 32 3) = replicate 32 3"
    by (simp_all add: demo_crypto_def pad_def)
  show ?thesis
    using session_established [OF demo_sizes demo_sign demo_dh _ _ _ _ _ A0 B0 B1_def A1_def B2_def] pub
    by (intro exI [of _ "\<lparr>lk_conn = (\<lambda>s. if s then A1 else B2),
        lk_got = (\<lambda>s. if s then length (wires (cn_out B2)) else length (wires (cn_out A1))),
        lk_sent = (\<lambda>s. [])\<rparr>"]) simp
qed

definition demo_link :: link where
  "demo_link = \<lparr>lk_conn = demo_conn, lk_got = (\<lambda>x. 0), lk_sent = (\<lambda>x. [])\<rparr>"

lemma demo_link_start: "link_start demo_link"
  by (simp add: link_start_def demo_link_def demo_conn_def fresh_end_def mirrored_def new_session_def
      inflight_def)

text \<open>One message of a small body, sent and received.\<close>

lemma demo_transfer:
  assumes "length p < 100"
  shows "\<exists>l. link_reach demo_crypto fresh_keystore demo_link l \<and> lk_sent l True = [p] \<and>
    inflight l False = [] \<and> \<not> cn_closed (lk_conn l False)"
proof -
  let ?C = demo_crypto and ?n = "replicate 24 0 :: bytes"
  let ?i = "(?n, Data 1 p)"
  let ?f = "sealed ?C (replicate 32 1) ?i"
  have ok: "item_ok ?i" using assms by (simp add: item_ok_def NPUBBYTES_def SESSION_MAX_FRAME_def)
  have fit: "length ?f \<le> SESSION_MAX_FRAME" using length_sealed [OF demo_size ok] .
  then have w: "length ?f < 2 ^ 32" by (simp add: SESSION_MAX_FRAME_def)
  have seal: "seal ?C ?n (CTRL_DATA # be_bytes 8 1 @ p) (new_session (replicate 32 1) (replicate 32 2) []) = ?f"
    by (simp add: seal_def sealed_def new_session_def)
  define a where "a = snd (conn_send ?C (\<lambda>k. ?n) 0 p (demo_conn True))"
  have a: "conn_send ?C (\<lambda>k. ?n) 0 p (demo_conn True) = (Inr (), a)" "cn_out a = [Wire (frame_bytes ?f)]"
    using seal w assms by (simp_all add: a_def conn_send_def demo_conn_def Let_def writeBigUInt64BE_def
      write_frame_ok maybeAutoRekey_def)
  let ?l1 = "demo_link\<lparr>lk_conn := (lk_conn demo_link)(True := a), lk_sent := (lk_sent demo_link)(True := [p])\<rparr>"
  have s1: "link_step ?C fresh_keystore demo_link ?l1"
    using link_step.Send [of demo_link True "p" "\<lambda>k. ?n" ?C 0 a] a(1) assms
    by (simp add: demo_link_def demo_conn_def NPUBBYTES_def SESSION_MAX_FRAME_def)
  have fl: "inflight ?l1 False = frame_bytes ?f @ []"
    using a(2) by (simp add: inflight_def demo_link_def)
  define b where "b = conn_onData ?C fresh_keystore (\<lambda>i k. ?n) (\<lambda>i k. 0) (frame_bytes ?f) (demo_conn False)"
  let ?l2 = "?l1\<lparr>lk_conn := (lk_conn ?l1)(False := b), lk_got := (lk_got ?l1)(False := lk_got ?l1 False + length (frame_bytes ?f))\<rparr>"
  have s2: "link_step ?C fresh_keystore ?l1 ?l2"
    by (rule link_step.Deliver [OF _ _ fl]) (simp_all add: demo_link_def demo_conn_def NPUBBYTES_def b_def)
  have r: "link_reach ?C fresh_keystore demo_link ?l2"
    by (rule link_reach.Step [OF link_reach.Step [OF link_reach.Start s1] s2])
  have op: "open_sealed ?C ?f (new_session (replicate 32 2) (replicate 32 1) []) = Inr (plain (Data 1 p))"
    by (simp add: open_sealed_def sealed_def demo_crypto_def new_session_def NPUBBYTES_def)
  have "b = frame_step ?C fresh_keystore (\<lambda>k. ?n) (\<lambda>k. 0) ?f (demo_conn False)"
    unfolding b_def using onData_one [OF _ fit] by (simp add: demo_conn_def)
  then have open_b: "\<not> cn_closed b"
    using op read_seq [of 1 "p"]
    by (simp add: frame_step_def conn_allow_def handle_frame_def handle_transport_def handle_data_def
        msgAllow_def demo_conn_def ctrl_defs Let_def)
  have "inflight ?l2 False = []" using a(2) by (simp add: inflight_def demo_link_def)
  then show ?thesis using r open_b by (intro exI [of _ ?l2]) simp
qed


end
