(* ===== verification/SessionDefence.thy ===== *)
theory SessionDefence
  imports SecureConn
begin

text \<open>
  What a session end guarantees against an arbitrary peer: frames that it receives are any bytes. The
  operations of a connection are listed in \<open>conn_op\<close>; a data event only occurs while the socket is alive.
\<close>

section \<open>Frames from an arbitrary peer\<close>

text \<open>A sequence of frames with the nonces and the clock of each iteration.\<close>

record arrival =
  ar_nonces :: "nat \<Rightarrow> bytes"
  ar_clock :: clock
  ar_frame :: bytes

fun take_frames :: "crypto \<Rightarrow> keystore \<Rightarrow> arrival list \<Rightarrow> conn \<Rightarrow> conn" where
  "take_frames C ks [] c = c"
| "take_frames C ks (a # as) c =
     take_frames C ks as (frame_step C ks (ar_nonces a) (ar_clock a) (ar_frame a) c)"

text \<open>What one frame can do to the receive counter and to what has been delivered.\<close>

definition seq_le :: "nat option \<Rightarrow> nat option \<Rightarrow> bool" where
  "seq_le a b \<longleftrightarrow> (\<forall>m. a = Some m \<longrightarrow> (\<exists>n \<ge> m. b = Some n))"

lemma seq_le_refl [simp]: "seq_le a a"
  by (simp add: seq_le_def)

lemma seq_le_trans: "seq_le a b \<Longrightarrow> seq_le b c \<Longrightarrow> seq_le a c"
  by (cases a; cases b; cases c) (auto simp: seq_le_def)

text \<open>The sequence number that a frame carries when opened with a key.\<close>

definition frame_seq :: "crypto \<Rightarrow> bytes \<Rightarrow> session \<Rightarrow> nat option" where
  "frame_seq C f s =
     (case open_sealed C f s of Inl e \<Rightarrow> None
      | Inr pt \<Rightarrow> if 9 \<le> length pt \<and> hd pt = CTRL_DATA then Some (be_val (take 8 (drop 1 pt))) else None)"

definition delivers :: "conn \<Rightarrow> conn \<Rightarrow> bool" where
  "delivers c c' \<longleftrightarrow> (\<exists>b. delivered (cn_out c') = delivered (cn_out c) @ [b])"

lemma handle_data_cases:
  assumes "handle_data clk pt c = (r, c')"
  shows "(delivered (cn_out c') = delivered (cn_out c) \<and> cn_rxSeq c' = cn_rxSeq c) \<or>
    (9 \<le> length pt \<and> cn_rxSeq c' = Some (be_val (take 8 (drop 1 pt))) \<and>
     \<not> seq_le (cn_rxSeq c') (cn_rxSeq c) \<and> seq_le (cn_rxSeq c) (cn_rxSeq c') \<and>
     delivered (cn_out c') = delivered (cn_out c) @ [drop 9 pt] \<and>
     cn_session c' = cn_session c \<and> fst (msgAllow c (clk 0)))"
proof (cases "length pt < 9")
  case True
  then show ?thesis using assms by (simp add: handle_data_def)
next
  case False
  then have rd: "readBigUInt64BE pt 1 = Inr (be_val (take 8 (drop 1 pt)))"
    by (simp add: readBigUInt64BE_def subarray_def)
  obtain ok z where m: "msgAllow c (clk 0) = (ok, z)" by (cases "msgAllow c (clk 0)")
  note f = msgAllow_fields [of c "clk 0", unfolded m snd_conv]
  show ?thesis using assms False rd m f
    by (cases ok) (auto simp: handle_data_def seq_le_def split: option.splits if_splits)
qed

lemma handle_transport_cases:
  assumes "handle_transport C ns clk f s c = (r, c')" and "cn_session c = Some s"
  shows "(delivered (cn_out c') = delivered (cn_out c) \<and> cn_rxSeq c' = cn_rxSeq c) \<or>
    (delivers c c' \<and> cn_rxSeq c' = frame_seq C f s \<and> frame_seq C f s \<noteq> None \<and>
     \<not> seq_le (frame_seq C f s) (cn_rxSeq c) \<and> seq_le (cn_rxSeq c) (cn_rxSeq c') \<and>
     cn_session c' = cn_session c \<and> fst (msgAllow c (clk 0)))"
proof (cases "open_sealed C f s")
  case (Inl e)
  then show ?thesis using assms by (simp add: handle_transport_def)
next
  case (Inr pt)
  show ?thesis
  proof (cases "(if pt \<noteq> [] then hd pt else CTRL_DATA) = CTRL_DATA")
    case True
    then have "handle_data clk pt c = (r, c')" using assms(1) Inr by (simp add: handle_transport_def)
    from handle_data_cases [OF this] show ?thesis using True Inr
      by (auto simp: frame_seq_def delivers_def split: if_splits)
  next
    case False
    then show ?thesis using assms(1) Inr
      by (auto simp: handle_transport_def Let_def ctrl_defs dest!: write_frame_same split: if_splits prod.splits sum.splits)
  qed
qed

lemma handle_handshake_fields:
  assumes "handle_handshake C ks f c = (r, c')"
  shows "delivered (cn_out c') = delivered (cn_out c) \<and> cn_rxSeq c' = cn_rxSeq c"
  using assms
  by (auto simp: handle_handshake_def dest!: write_frame_same
      split: hs.splits prod.splits sum.splits option.splits if_splits)

text \<open>One iteration of the frame loop: nothing is delivered, or the frame's message is.\<close>

lemma frame_step_cases:
  assumes "frame_step C ks ns clk f c = c'"
  shows "(delivered (cn_out c') = delivered (cn_out c) \<and> cn_rxSeq c' = cn_rxSeq c) \<or>
    (\<exists>s. cn_session c = Some s \<and> delivers c c' \<and> cn_rxSeq c' = frame_seq C f s \<and> frame_seq C f s \<noteq> None \<and>
     \<not> seq_le (frame_seq C f s) (cn_rxSeq c) \<and> seq_le (cn_rxSeq c) (cn_rxSeq c') \<and>
     cn_session c' = cn_session c \<and> fst (msgAllow c (clk 4)))"
proof -
  obtain ok z where a: "conn_allow clk c = (ok, z)" by (cases "conn_allow clk c")
  note z = conn_allow_fields [of clk c, unfolded a snd_conv]
  have mz: "fst (msgAllow z t) = fst (msgAllow c t)" for t by (simp add: msgAllow_def z Let_def)
  show ?thesis
  proof (cases ok)
    case False
    then show ?thesis using assms a z by (auto simp: frame_step_def)
  next
    case True
    obtain r w where h: "handle_frame C ks ns (\<lambda>k. clk (k + 4)) f z = (r, w)"
      by (cases "handle_frame C ks ns (\<lambda>k. clk (k + 4)) f z")
    have c': "delivered (cn_out c') = delivered (cn_out w)" "cn_rxSeq c' = cn_rxSeq w" "cn_session c' = cn_session w"
      using assms a True h by (auto simp: frame_step_def split: sum.splits)
    show ?thesis
    proof (cases "cn_session c")
      case None
      then show ?thesis using handle_handshake_fields [of C ks f z r w] h z c' by (simp add: handle_frame_def)
    next
      case (Some s)
      then have "handle_transport C ns (\<lambda>k. clk (k + 4)) f s z = (r, w)" "cn_session z = Some s"
        using h z by (simp_all add: handle_frame_def)
      from handle_transport_cases [OF this] show ?thesis
        using Some c' z mz by (auto simp: delivers_def)
    qed
  qed
qed

lemma frame_step_seq: "seq_le (cn_rxSeq c) (cn_rxSeq (frame_step C ks ns clk f c))"
  using frame_step_cases [OF refl, of C ks ns clk f c] by auto

lemma take_frames_seq: "seq_le (cn_rxSeq c) (cn_rxSeq (take_frames C ks as c))"
  by (induction as arbitrary: c) (auto intro: seq_le_trans [OF frame_step_seq])

lemma frame_seq_key: "ss_rxKey s = ss_rxKey t \<Longrightarrow> frame_seq C f s = frame_seq C f t"
  by (simp add: frame_seq_def open_sealed_def)

section \<open>The message limit\<close>

definition rate_view :: "conn \<Rightarrow> nat \<times> time \<times> int" where
  "rate_view c = (cn_msgCount c, cn_msgWindowStart c, cn_maxMsg c)"

lemma rate_view_simps [simp]:
  "rate_view (emit e c) = rate_view c" "rate_view (fail err c) = rate_view c"
  "rate_view (report ty d clk c) = rate_view c"
  "rate_view (snd (conn_allow clk c)) = rate_view c"
  by (simp_all add: rate_view_def fail_def report_def emit_def split: option.split prod.split)

lemma write_frame_rate: "write_frame f c = (r, c') \<Longrightarrow> rate_view c' = rate_view c"
  by (simp add: rate_view_def write_frame_same)

text \<open>A frame either leaves the message window alone and delivers nothing, or is one hit of it.\<close>

definition rate_ok :: "conn \<Rightarrow> conn \<Rightarrow> time \<Rightarrow> bool" where
  "rate_ok c c' t \<longleftrightarrow>
     (rate_view c' = rate_view c \<and> delivered (cn_out c') = delivered (cn_out c)) \<or>
     (rate_view c' = rate_view (snd (msgAllow c t)) \<and>
      (delivered (cn_out c') = delivered (cn_out c) \<or> (delivers c c' \<and> fst (msgAllow c t))))"

lemma handle_data_rate:
  assumes "handle_data clk pt c = (r, c')"
  shows "rate_ok c c' (clk 0)"
proof (cases "length pt < 9")
  case True
  then show ?thesis using assms by (simp add: handle_data_def rate_ok_def)
next
  case False
  then have rd: "readBigUInt64BE pt 1 = Inr (be_val (take 8 (drop 1 pt)))"
    by (simp add: readBigUInt64BE_def subarray_def)
  obtain ok z where m: "msgAllow c (clk 0) = (ok, z)" by (cases "msgAllow c (clk 0)")
  note f = msgAllow_fields [of c "clk 0", unfolded m snd_conv]
  have e: "rate_view (z\<lparr>cn_rxSeq := n\<rparr>) = rate_view z" for n by (simp add: rate_view_def)
  show ?thesis using assms False rd m f e
    by (cases ok) (auto simp: handle_data_def rate_ok_def delivers_def split: option.splits if_splits)
qed

lemma handle_frame_rate:
  assumes "handle_frame C ks ns clk f c = (r, c')"
  shows "rate_ok c c' (clk 0)"
proof (cases "cn_session c")
  case None
  then have h: "handle_handshake C ks f c = (r, c')" using assms by (simp add: handle_frame_def)
  then have "rate_view c' = rate_view c"
    by (auto simp: handle_handshake_def rate_view_def dest!: write_frame_same
        split: hs.splits prod.splits sum.splits option.splits if_splits)
  then show ?thesis using handle_handshake_fields [OF h] by (simp add: rate_ok_def)
next
  case (Some s)
  then have h: "handle_transport C ns clk f s c = (r, c')" using assms by (simp add: handle_frame_def)
  show ?thesis
  proof (cases "\<exists>pt. open_sealed C f s = Inr pt \<and> (if pt \<noteq> [] then hd pt else CTRL_DATA) = CTRL_DATA")
    case True
    then obtain pt where "open_sealed C f s = Inr pt" "(if pt \<noteq> [] then hd pt else CTRL_DATA) = CTRL_DATA" by blast
    then have "handle_data clk pt c = (r, c')" using h by (simp add: handle_transport_def)
    then show ?thesis by (rule handle_data_rate)
  next
    case False
    have "rate_view c' = rate_view c \<and> delivered (cn_out c') = delivered (cn_out c)"
    proof (cases "open_sealed C f s")
      case (Inl e)
      then show ?thesis using h by (simp add: handle_transport_def)
    next
      case (Inr pt)
      let ?w = "write_frame (seal C (ns 0) [CTRL_REKEY_ACK] (rekeyRx C s)) (c\<lparr>cn_session := Some (rekeyRx C s)\<rparr>)"
      obtain r1 c1 where w: "?w = (r1, c1)" by (cases ?w)
      have "pt \<noteq> []" "hd pt \<noteq> CTRL_DATA" using False Inr by (auto split: if_splits)
      moreover have "rate_view c1 = rate_view c" "delivered (cn_out c1) = delivered (cn_out c)"
        using write_frame_same [OF w] by (simp_all add: rate_view_def)
      ultimately show ?thesis using h Inr w
        by (cases r1) (auto simp: handle_transport_def Let_def rate_view_def split: if_splits)
    qed
    then show ?thesis by (simp add: rate_ok_def)
  qed
qed

lemma frame_step_rate: "rate_ok c (frame_step C ks ns clk f c) (clk 4)"
proof -
  obtain ok z where a: "conn_allow clk c = (ok, z)" by (cases "conn_allow clk c")
  note z = conn_allow_fields [of clk c, unfolded a snd_conv]
  have rz: "rate_view z = rate_view c" using rate_view_simps(4) [of clk c] a by simp
  have mz: "fst (msgAllow z t) = fst (msgAllow c t)"
    "rate_view (snd (msgAllow z t)) = rate_view (snd (msgAllow c t))" for t
    by (simp_all add: msgAllow_def z Let_def rate_view_def)
  show ?thesis
  proof (cases ok)
    case False
    then show ?thesis using a z rz by (simp add: frame_step_def rate_ok_def)
  next
    case True
    obtain r w where h: "handle_frame C ks ns (\<lambda>k. clk (k + 4)) f z = (r, w)"
      by (cases "handle_frame C ks ns (\<lambda>k. clk (k + 4)) f z")
    have "rate_ok z w (clk 4)" using handle_frame_rate [OF h] by simp
    then show ?thesis using a True h z rz mz
      by (auto simp: frame_step_def rate_ok_def delivers_def split: sum.splits)
  qed
qed

lemma rate_ok_quota:
  assumes "rate_ok c c' t'" and "cn_maxMsg c = int l" and "t \<le> t'" and "t' \<le> E"
  shows "cn_maxMsg c' = int l \<and>
    length (delivered (cn_out c')) + msg_rate.quota l E t' (Some (cn_msgCount c', cn_msgWindowStart c')) \<le>
    length (delivered (cn_out c)) + msg_rate.quota l E t (Some (cn_msgCount c, cn_msgWindowStart c))"
proof -
  have m: "cn_maxMsg (snd (msgAllow c t')) = int l" using assms(2) by simp
  have q: "(if fst (msgAllow c t') then 1 else 0) + msg_rate.quota l E t'
      (Some (cn_msgCount (snd (msgAllow c t')), cn_msgWindowStart (snd (msgAllow c t')))) \<le>
      msg_rate.quota l E t (Some (cn_msgCount c, cn_msgWindowStart c))"
    using msg_rate.quota_hit [OF assms(2-4)] by (simp add: msg_hit_def)
  show ?thesis using assms(1) unfolding rate_ok_def
  proof
    assume "rate_view c' = rate_view c \<and> delivered (cn_out c') = delivered (cn_out c)"
    then show ?thesis using assms(2) msg_rate.quota_antimono [OF assms(3)] by (simp add: rate_view_def)
  next
    assume "rate_view c' = rate_view (snd (msgAllow c t')) \<and>
      (delivered (cn_out c') = delivered (cn_out c) \<or> (delivers c c' \<and> fst (msgAllow c t')))"
    then show ?thesis using m q by (auto simp: rate_view_def delivers_def split: if_splits)
  qed
qed

lemma take_frames_quota:
  assumes "cn_maxMsg c = int l" and "sorted (t # map (\<lambda>a. ar_clock a 4) as)"
    and "\<forall>a \<in> set as. ar_clock a 4 \<le> E"
  shows "length (delivered (cn_out (take_frames C ks as c))) \<le>
    length (delivered (cn_out c)) + msg_rate.quota l E t (Some (cn_msgCount c, cn_msgWindowStart c))"
  using assms
proof (induction as arbitrary: c t)
  case (Cons a as)
  let ?c = "frame_step C ks (ar_nonces a) (ar_clock a) (ar_frame a) c"
  have "t \<le> ar_clock a 4" "ar_clock a 4 \<le> E" using Cons.prems by auto
  have "rate_ok c ?c (ar_clock a 4)" by (rule frame_step_rate)
  note r = rate_ok_quota [OF this Cons.prems(1) \<open>t \<le> ar_clock a 4\<close> \<open>ar_clock a 4 \<le> E\<close>]
  then show ?case using Cons.IH [of ?c "ar_clock a 4"] Cons.prems by simp
qed simp

section \<open>Properties\<close>

text \<open>C10. No frame of a session is delivered twice under the same key. Once a frame has delivered a message,
  then after any further frames that leave the receiving key unchanged, presenting the same frame again
  delivers nothing. A copy of recorded traffic is therefore never processed again.\<close>

theorem session_no_replay:
  assumes "frame_step C ks ns clk f c = c1" and "delivers c c1"
    and "take_frames C ks as c1 = c2"
    and "map_option ss_rxKey (cn_session c2) = map_option ss_rxKey (cn_session c1)"
    and "frame_step C ks ns' clk' f c2 = c3"
  shows "delivered (cn_out c3) = delivered (cn_out c2) \<and> cn_rxSeq c3 = cn_rxSeq c2"
proof -
  obtain s where s: "cn_session c = Some s" "cn_rxSeq c1 = frame_seq C f s" "cn_session c1 = cn_session c"
    using frame_step_cases [OF assms(1)] assms(2) by (auto simp: delivers_def)
  obtain t where t: "cn_session c2 = Some t" "ss_rxKey t = ss_rxKey s"
    using assms(4) s by (cases "cn_session c2") auto
  have "seq_le (frame_seq C f t) (cn_rxSeq c2)"
    using take_frames_seq [of c1 C ks as] assms(3) s(2) frame_seq_key [OF t(2)] by simp
  then show ?thesis using frame_step_cases [OF assms(5)] t(1) by auto
qed

text \<open>An authenticated peer cannot flood the application: whatever frames arrive, between \<open>t\<close> and
  \<open>E\<close> a session with limit \<open>l\<close> delivers at most \<open>l\<close> messages per started window of one second, plus the
  window in progress.\<close>

theorem session_rate_bound:
  assumes "cn_maxMsg c = int l" and "sorted (t # map (\<lambda>a. ar_clock a 4) as)"
    and "\<forall>a \<in> set as. ar_clock a 4 \<le> E" and "t \<le> E"
  shows "length (delivered (cn_out (take_frames C ks as c))) \<le>
    length (delivered (cn_out c)) + l * (nat ((E - t) div 1001) + 2)"
  using take_frames_quota [OF assms(1-3), of C ks]
    msg_rate.quota_bound [OF assms(4), of l "Some (cn_msgCount c, cn_msgWindowStart c)"]
  by simp

section \<open>The life of a connection\<close>

datatype conn_op =
    OpSend "nat \<Rightarrow> bytes" time bytes | OpRekey bytes | OpClose bytes
  | OpData "nat \<Rightarrow> nat \<Rightarrow> bytes" "nat \<Rightarrow> clock" bytes
  | OpTimer bytes time | OpTimeout | OpSockClose | OpSockError

text \<open>A socket that was destroyed or has closed delivers no more data.\<close>

definition sock_alive :: "conn \<Rightarrow> bool" where
  "sock_alive c \<longleftrightarrow> SockDestroy \<notin> set (cn_out c) \<and> CloseEv \<notin> set (cn_out c)"

fun conn_apply :: "crypto \<Rightarrow> keystore \<Rightarrow> conn_op \<Rightarrow> conn \<Rightarrow> conn" where
  "conn_apply C ks (OpSend ns now body) c = snd (conn_send C ns now body c)"
| "conn_apply C ks (OpRekey nonce) c = snd (conn_rekey C nonce c)"
| "conn_apply C ks (OpClose nonce) c = conn_close C nonce c"
| "conn_apply C ks (OpData ns clk chunk) c = (if sock_alive c then conn_onData C ks ns clk chunk c else c)"
| "conn_apply C ks (OpTimer nonce now) c = snd (conn_onRekeyTimer C nonce now c)"
| "conn_apply C ks OpTimeout c = conn_onTimeout c"
| "conn_apply C ks OpSockClose c = conn_onClose c"
| "conn_apply C ks OpSockError c = conn_onError c"

fun conn_run :: "crypto \<Rightarrow> keystore \<Rightarrow> conn_op list \<Rightarrow> conn \<Rightarrow> conn" where
  "conn_run C ks [] c = c"
| "conn_run C ks (op # ops) c = conn_run C ks ops (conn_apply C ks op c)"

text \<open>The identities announced by \<open>secure\<close> events, and what is delivered before the first of them.\<close>

fun secures :: "conn_effect list \<Rightarrow> bytes list" where
  "secures [] = []"
| "secures (Secure p # es) = p # secures es"
| "secures (e # es) = secures es"

fun early :: "conn_effect list \<Rightarrow> bytes list" where
  "early [] = []"
| "early (Secure p # es) = []"
| "early (Message b # es) = b # early es"
| "early (e # es) = early es"

lemma secures_append [simp]: "secures (a @ b) = secures a @ secures b"
  by (induction a rule: secures.induct) simp_all

lemma early_append: "early (a @ b) = (if secures a = [] then early a @ early b else early a)"
  by (induction a rule: early.induct) simp_all

lemma early_delivered: "secures a = [] \<Longrightarrow> early a = delivered a"
  by (induction a rule: early.induct) simp_all

definition life :: "conn \<Rightarrow> bool" where
  "life c \<longleftrightarrow>
     (case cn_session c of
        None \<Rightarrow> secures (cn_out c) = [] \<and> delivered (cn_out c) = []
      | Some s \<Rightarrow> secures (cn_out c) = [ss_peerId s] \<and> early (cn_out c) = []) \<and>
     (errors (cn_out c) = [] \<or> (cn_closed c \<and> length (errors (cn_out c)) = 1))"

text \<open>Operations that announce, deliver and report nothing.\<close>

definition quiet :: "conn \<Rightarrow> conn \<Rightarrow> bool" where
  "quiet c c' \<longleftrightarrow> (\<exists>es. cn_out c' = cn_out c @ es \<and> secures es = [] \<and> delivered es = [] \<and> errors es = []) \<and>
     map_option ss_peerId (cn_session c') = map_option ss_peerId (cn_session c) \<and>
     (cn_closed c \<longrightarrow> cn_closed c')"

lemma calm_session_refl [simp]: "quiet c c"
  by (auto simp: quiet_def)

lemma calm_session_trans: "quiet a b \<Longrightarrow> quiet b c \<Longrightarrow> quiet a c"
  unfolding quiet_def by (elim conjE exE) (auto simp: secures_append)

lemma life_quiet:
  assumes "quiet c c'" and "life c"
  shows "life c'"
proof -
  obtain es where es: "cn_out c' = cn_out c @ es" "secures es = []" "delivered es = []" "errors es = []"
    "map_option ss_peerId (cn_session c') = map_option ss_peerId (cn_session c)"
    "cn_closed c \<longrightarrow> cn_closed c'"
    using assms(1) by (auto simp: quiet_def)
  show ?thesis
  proof (cases "cn_session c")
    case None
    then show ?thesis using es assms(2) by (auto simp: life_def)
  next
    case (Some s)
    then obtain t where "cn_session c' = Some t" "ss_peerId t = ss_peerId s" using es(5) by auto
    then show ?thesis using es Some assms(2) early_delivered [OF es(2)]
      by (auto simp: life_def early_append)
  qed
qed

lemma life_fail: "life c \<Longrightarrow> life (fail e c)"
  by (cases "cn_session c") (auto simp: life_def fail_def early_append emit_def)

lemma calm_session_emit:
  "e \<in> {Wire w, Logged a, Rekeyed, PeerClose, CloseEv, SockEnd, SockDestroy} \<Longrightarrow> quiet c (emit e c)"
  by (auto simp: quiet_def emit_def)

lemma quiet_session:
  "cn_out c' = cn_out c \<Longrightarrow> map_option ss_peerId (cn_session c') = map_option ss_peerId (cn_session c) \<Longrightarrow>
     (cn_closed c \<Longrightarrow> cn_closed c') \<Longrightarrow> quiet c c'"
  by (auto simp: quiet_def)

lemma quiet_write: "write_frame f c = (r, c') \<Longrightarrow> quiet c c'"
  by (auto simp: write_frame_def calm_session_emit split: if_splits sum.splits)

lemma quiet_report: "quiet c (report ty d clk c)"
  by (auto simp: report_def quiet_def emit_def split: option.split prod.split)

lemma quiet_allow: "conn_allow clk c = (ok, c') \<Longrightarrow> quiet c c'"
  using conn_allow_fields [of clk c] by (intro quiet_session) simp_all

lemma peer_rekey [simp]: "ss_peerId (rekeyTx C s) = ss_peerId s" "ss_peerId (rekeyRx C s) = ss_peerId s"
  by (simp_all add: rekeyTx_def rekeyRx_def)

lemma quiet_rekey: "conn_rekey C nonce c = (r, c') \<Longrightarrow> quiet c c'"
proof -
  assume r: "conn_rekey C nonce c = (r, c')"
  show ?thesis
  proof (cases "cn_session c")
    case (Some s)
    let ?w = "write_frame (seal C nonce [CTRL_REKEY] s) (c\<lparr>cn_rekeying := True\<rparr>)"
    obtain r1 c1 where w: "?w = (r1, c1)" by (cases ?w)
    have q: "quiet c c1" using calm_session_trans [OF quiet_session quiet_write [OF w], of c] by simp
    have "cn_session c1 = Some s" using write_frame_same [OF w] Some by simp
    then have "quiet c1 (c1\<lparr>cn_session := Some (rekeyTx C s)\<rparr>)" by (intro quiet_session) simp_all
    then show ?thesis using r Some w q calm_session_trans
      by (cases r1) (auto simp: conn_rekey_def split: if_splits)
  qed (use r in \<open>simp add: conn_rekey_def\<close>)
qed

lemma quiet_autoRekey: "maybeAutoRekey C nonce now c = (r, c') \<Longrightarrow> quiet c c'"
  by (auto simp: maybeAutoRekey_def quiet_rekey split: if_splits)

lemma quiet_send: "conn_send C ns now body c = (r, c') \<Longrightarrow> quiet c c'"
proof -
  assume r: "conn_send C ns now body c = (r, c')"
  show ?thesis
  proof (cases "cn_session c")
    case (Some s)
    let ?c = "c\<lparr>cn_txSeq := cn_txSeq c + 1\<rparr>"
    have q: "quiet c ?c" by (rule quiet_session) simp_all
    show ?thesis
    proof (cases "writeBigUInt64BE (int (cn_txSeq ?c))")
      case (Inl e)
      then show ?thesis using r Some q by (simp add: conn_send_def)
    next
      case (Inr seq)
      let ?w = "write_frame (seal C (ns 0) (CTRL_DATA # seq @ body) s) ?c"
      obtain r1 c1 where w: "?w = (r1, c1)" by (cases ?w)
      let ?d = "c1\<lparr>cn_rkMsgs := cn_rkMsgs c1 + 1, cn_rkBytes := cn_rkBytes c1 + length body\<rparr>"
      have q1: "quiet c c1" "quiet c1 ?d"
        using calm_session_trans [OF q quiet_write [OF w]] by (simp_all add: quiet_session)
      show ?thesis
      proof (cases r1)
        case (Inl e)
        then show ?thesis using r Some Inr w q1 by (simp add: conn_send_def)
      next
        case (Inr u)
        then have "maybeAutoRekey C (ns 1) now ?d = (r, c')"
          using r Some \<open>writeBigUInt64BE (int (cn_txSeq ?c)) = Inr seq\<close> w by (simp add: conn_send_def)
        from quiet_autoRekey [OF this] show ?thesis using q1 calm_session_trans by blast
      qed
    qed
  qed (use r in \<open>simp add: conn_send_def\<close>)
qed

lemma quiet_rekeyed: "quiet c d \<Longrightarrow> quiet c (emit Rekeyed d)"
  by (rule calm_session_trans, assumption, rule calm_session_emit) simp

lemma life_message: "life c \<Longrightarrow> cn_session c \<noteq> None \<Longrightarrow> life (emit (Message b) c)"
  by (auto simp: life_def early_append)

lemma life_secure:
  assumes "life c" and "cn_session c = None" and "cn_session c' = Some s" and "quiet (c\<lparr>cn_session := Some s\<rparr>) c'"
  shows "life (emit (Secure (ss_peerId s)) c')"
  using assms early_delivered
  by (auto simp: life_def quiet_def early_append)

lemma life_handle_data:
  assumes "handle_data clk pt c = (r, c')" and "life c" and "cn_session c \<noteq> None"
  shows "life c'"
proof -
  obtain ok z where m: "msgAllow c (clk 0) = (ok, z)" by (cases "msgAllow c (clk 0)")
  have q: "quiet c z" "cn_session z = cn_session c"
    using msgAllow_fields [of c "clk 0"] m by (auto intro!: quiet_session)
  have z: "life z" "quiet z (z\<lparr>cn_rxSeq := n\<rparr>)" for n
    using life_quiet [OF q(1) assms(2)] by (auto intro: quiet_session)
  show ?thesis using assms m q z
    by (auto simp: handle_data_def split: if_splits sum.splits bool.splits option.splits
        intro!: life_fail life_message life_quiet [OF quiet_report] life_quiet [OF z(2)])
qed

lemma life_transport:
  assumes "handle_transport C ns clk f s c = (r, c')" and "life c" and "cn_session c = Some s"
  shows "life c'"
proof (cases "open_sealed C f s")
  case (Inl e)
  then show ?thesis using assms by (simp add: handle_transport_def)
next
  case (Inr pt)
  let ?type = "if pt \<noteq> [] then hd pt else CTRL_DATA"
  consider "?type = CTRL_DATA" | "?type = CTRL_REKEY" | "?type = CTRL_REKEY_ACK" | "?type = CTRL_CLOSE"
    | "?type \<notin> {CTRL_DATA, CTRL_REKEY, CTRL_REKEY_ACK, CTRL_CLOSE}" by blast
  then show ?thesis
  proof cases
    case 1
    then have "handle_data clk pt c = (r, c')" using assms(1) Inr by (simp add: handle_transport_def)
    then show ?thesis using life_handle_data assms(2,3) by blast
  next
    case 2
    let ?w = "write_frame (seal C (ns 0) [CTRL_REKEY_ACK] (rekeyRx C s)) (c\<lparr>cn_session := Some (rekeyRx C s)\<rparr>)"
    obtain r1 c1 where w: "?w = (r1, c1)" by (cases ?w)
    have "quiet c (c\<lparr>cn_session := Some (rekeyRx C s)\<rparr>)" using assms(3) by (intro quiet_session) simp_all
    then have q: "quiet c c1" using calm_session_trans quiet_write [OF w] by blast
    have "cn_session c1 = Some (rekeyRx C s)" using write_frame_same [OF w] by simp
    then have "quiet c1 (c1\<lparr>cn_session := Some (rekeyTx C (rekeyRx C s))\<rparr>)" by (intro quiet_session) simp_all
    from quiet_rekeyed [OF calm_session_trans [OF q this]]
    have "quiet c (emit Rekeyed (c1\<lparr>cn_session := Some (rekeyTx C (rekeyRx C s))\<rparr>))" .
    moreover have "c' = c1 \<or> c' = emit Rekeyed (c1\<lparr>cn_session := Some (rekeyTx C (rekeyRx C s))\<rparr>)"
      using assms(1) Inr 2 w by (cases r1) (auto simp: handle_transport_def ctrl_defs Let_def split: if_splits)
    ultimately show ?thesis using q life_quiet assms(2) by blast
  next
    case 3
    let ?c = "c\<lparr>cn_session := Some (rekeyRx C s), cn_rekeying := False, cn_rkMsgs := 0,
                 cn_rkBytes := 0, cn_rkSince := clk 0\<rparr>"
    have "quiet c ?c" using assms(3) by (intro quiet_session) simp_all
    then have "quiet c (emit Rekeyed ?c)" by (rule quiet_rekeyed)
    moreover have "c' = emit Rekeyed ?c"
      using assms(1) Inr 3 by (auto simp: handle_transport_def ctrl_defs split: if_splits)
    ultimately show ?thesis using life_quiet assms(2) by blast
  next
    case 4
    have "quiet c (emit PeerClose c)" by (rule calm_session_emit) simp
    moreover have "quiet (emit PeerClose c) ((emit PeerClose c)\<lparr>cn_closed := True\<rparr>)" by (rule quiet_session) simp_all
    moreover have "quiet ((emit PeerClose c)\<lparr>cn_closed := True\<rparr>) (emit SockEnd ((emit PeerClose c)\<lparr>cn_closed := True\<rparr>))"
      by (rule calm_session_emit) simp
    ultimately have "quiet c (emit SockEnd ((emit PeerClose c)\<lparr>cn_closed := True\<rparr>))"
      by (metis calm_session_trans)
    moreover have "c' = emit SockEnd ((emit PeerClose c)\<lparr>cn_closed := True\<rparr>)"
      using assms(1) Inr 4 by (auto simp: handle_transport_def ctrl_defs split: if_splits)
    ultimately show ?thesis using life_quiet assms(2) by blast
  next
    case 5
    then have "c' = c" using assms(1) Inr by (auto simp: handle_transport_def split: if_splits)
    then show ?thesis using assms(2) by simp
  qed
qed

definition short_signatures :: "crypto \<Rightarrow> keystore \<Rightarrow> bool" where
  "short_signatures C ks \<longleftrightarrow> (\<forall>m sig. sign C ks m = Inr sig \<longrightarrow> length sig < 2 ^ 32)"

lemma short_signatures_of: "crypto_sizes C \<Longrightarrow> length s = 32 \<Longrightarrow> short_signatures C (keystore_of C s)"
  by (simp add: short_signatures_def crypto_sizesD)

lemma life_handshake:
  assumes "handle_handshake C ks f c = (r, c')" and "life c" and "cn_session c = None" and "short_signatures C ks"
  shows "life c'"
proof (cases "cn_hs c")
  case (HsI h)
  obtain r1 h1 where m: "consumeMessage2 C ks f h = (r1, h1)" by (cases "consumeMessage2 C ks f h")
  show ?thesis
  proof (cases r1)
    case (Inl e)
    then have "c' = c\<lparr>cn_hs := HsI h1\<rparr>" using assms(1) HsI m by (simp add: handle_handshake_def)
    then have "quiet c c'" by (intro quiet_session) simp_all
    then show ?thesis using assms(2) by (rule life_quiet)
  next
    case (Inr p)
    obtain m3 s where p: "p = (m3, s)" by (cases p)
    have "\<exists>x. sign C ks x = Inr m3"
      using m Inr p by (auto simp: consumeMessage2_def Let_def split: if_splits sum.splits bool.splits prod.splits)
    then have small: "length m3 < 2 ^ 32" using assms(4) by (auto simp: short_signatures_def)
    let ?c = "c\<lparr>cn_hs := HsI h1, cn_session := Some s\<rparr>"
    obtain r2 c2 where w: "write_frame m3 ?c = (r2, c2)" by (cases "write_frame m3 ?c")
    have r2: "r2 = Inr ()" using w small by (auto simp: write_frame_def encodeFrame_eq split: if_splits)
    have "quiet (c\<lparr>cn_session := Some s\<rparr>) ?c" by (rule quiet_session) simp_all
    moreover have "quiet c2 (c2\<lparr>cn_timeout := False, cn_rekeyTimer := True\<rparr>)" by (rule quiet_session) simp_all
    ultimately have q: "quiet (c\<lparr>cn_session := Some s\<rparr>) (c2\<lparr>cn_timeout := False, cn_rekeyTimer := True\<rparr>)"
      using quiet_write [OF w] calm_session_trans by blast
    have "c' = emit (Secure (ss_peerId s)) (c2\<lparr>cn_timeout := False, cn_rekeyTimer := True\<rparr>)"
      using assms(1) HsI m Inr p w r2 by (simp add: handle_handshake_def)
    then show ?thesis using life_secure [OF assms(2,3) _ q] write_frame_same [OF w] by simp
  qed
next
  case (HsR h)
  show ?thesis
  proof (cases "cn_step c = 0")
    case True
    obtain r1 h1 where m: "consumeMessage1 C ks f h = (r1, h1)" by (cases "consumeMessage1 C ks f h")
    obtain r2 c2 where w: "write_frame (projr r1) (c\<lparr>cn_hs := HsR h1\<rparr>) = (r2, c2)"
      by (cases "write_frame (projr r1) (c\<lparr>cn_hs := HsR h1\<rparr>)")
    have "quiet c (c\<lparr>cn_hs := HsR h1\<rparr>)" "quiet c2 (c2\<lparr>cn_step := 1\<rparr>)" by (simp_all add: quiet_session)
    then have "quiet c (c\<lparr>cn_hs := HsR h1\<rparr>)" "quiet c c2" "quiet c (c2\<lparr>cn_step := 1\<rparr>)"
      using quiet_write [OF w] calm_session_trans by blast+
    moreover have "c' \<in> {c\<lparr>cn_hs := HsR h1\<rparr>, c2, c2\<lparr>cn_step := 1\<rparr>}"
      using assms(1) HsR True m w by (cases r1; cases r2) (auto simp: handle_handshake_def)
    ultimately show ?thesis using life_quiet assms(2) by blast
  next
    case False
    obtain r1 h1 where m: "consumeMessage3 C f h = (r1, h1)" by (cases "consumeMessage3 C f h")
    show ?thesis
    proof (cases "\<exists>s. r1 = Inr (Some s)")
      case True
      then obtain s where s: "r1 = Inr (Some s)" by blast
      let ?c = "c\<lparr>cn_hs := HsR h1, cn_session := Some s, cn_timeout := False\<rparr>"
      have "quiet (c\<lparr>cn_session := Some s\<rparr>) ?c" by (rule quiet_session) simp_all
      moreover have "c' = emit (Secure (ss_peerId s)) ?c"
        using assms(1) HsR False m s by (simp add: handle_handshake_def)
      ultimately show ?thesis using life_secure [OF assms(2,3), of ?c s] by simp
    next
      case False
      then have "c' = c\<lparr>cn_hs := HsR h1\<rparr>"
        using assms(1) HsR \<open>cn_step c \<noteq> 0\<close> m
        by (auto simp: handle_handshake_def split: sum.splits option.splits)
      then have "quiet c c'" by (intro quiet_session) simp_all
      then show ?thesis using assms(2) by (rule life_quiet)
    qed
  qed
qed

lemma life_step:
  assumes "life c" and "short_signatures C ks"
  shows "life (frame_step C ks ns clk f c)"
proof -
  obtain ok z where a: "conn_allow clk c = (ok, z)" by (cases "conn_allow clk c")
  have z: "life z" using life_quiet [OF quiet_allow [OF a] assms(1)] .
  obtain r w where h: "handle_frame C ks ns (\<lambda>k. clk (k + 4)) f z = (r, w)"
    by (cases "handle_frame C ks ns (\<lambda>k. clk (k + 4)) f z")
  have "life w"
    using h z assms(2) life_transport life_handshake
    by (cases "cn_session z") (auto simp: handle_frame_def)
  then show ?thesis using a z h
    by (cases ok; cases r)
      (auto simp: frame_step_def intro!: life_fail life_quiet [OF quiet_report])
qed

lemma life_loop: "life c \<Longrightarrow> short_signatures C ks \<Longrightarrow> life (frame_loop C ks ns clk i fs c)"
  by (induction fs arbitrary: c i) (simp_all add: life_step Let_def)

lemma life_onData:
  assumes "life c" and "short_signatures C ks"
  shows "life (conn_onData C ks ns clk chunk c)"
proof -
  obtain r d where p: "push (cn_decoder c) chunk = (r, d)" by (cases "push (cn_decoder c) chunk")
  have "quiet c (c\<lparr>cn_decoder := d\<rparr>)" by (rule quiet_session) simp_all
  then have "life (c\<lparr>cn_decoder := d\<rparr>)" using assms(1) by (rule life_quiet)
  then show ?thesis using p assms(2)
    by (cases r) (auto simp: conn_onData_def intro!: life_fail life_loop life_quiet [OF quiet_report])
qed

lemma life_apply:
  assumes "life c" and "short_signatures C ks"
  shows "life (conn_apply C ks op c)"
proof (cases op)
  case (OpSend ns now body)
  then show ?thesis using life_quiet [OF quiet_send assms(1)] by (cases "conn_send C ns now body c") auto
next
  case (OpRekey nonce)
  then show ?thesis using life_quiet [OF quiet_rekey assms(1)] by (cases "conn_rekey C nonce c") auto
next
  case (OpClose nonce)
  have "quiet c (snd (write_frame f c))" for f using quiet_write by (cases "write_frame f c") auto
  then have "quiet c (conn_close C nonce c)"
    unfolding conn_close_def
    by (auto intro: calm_session_trans [OF _ calm_session_emit] calm_session_emit split: option.split)
  then show ?thesis using OpClose life_quiet assms(1) by simp
next
  case (OpData ns clk chunk)
  then show ?thesis using assms life_onData by simp
next
  case (OpTimer nonce now)
  then show ?thesis using life_quiet [OF quiet_autoRekey assms(1)] assms(1)
    by (cases "maybeAutoRekey C nonce now c") (auto simp: conn_onRekeyTimer_def)
next
  case OpTimeout
  have "quiet c (c\<lparr>cn_timeout := False\<rparr>)" by (rule quiet_session) simp_all
  then show ?thesis using OpTimeout assms(1) life_quiet life_fail by (auto simp: conn_onTimeout_def)
next
  case OpSockClose
  have "quiet c (c\<lparr>cn_closed := True, cn_timeout := False, cn_rekeyTimer := False\<rparr>)"
    by (rule quiet_session) simp_all
  then have "quiet c (conn_onClose c)" unfolding conn_onClose_def
    by (rule calm_session_trans) (rule calm_session_emit, simp)
  then show ?thesis using OpSockClose assms(1) life_quiet by simp
next
  case OpSockError
  then show ?thesis using assms(1) life_fail by (simp add: conn_onError_def)
qed

lemma life_run: "life c \<Longrightarrow> short_signatures C ks \<Longrightarrow> life (conn_run C ks ops c)"
  by (induction ops arbitrary: c) (simp_all add: life_apply)

lemma life_new:
  assumes "new_conn C ks ini sec mx pol ePriv clk ip = Inr c"
  shows "life c"
proof -
  have "life (init_conn ini sec mx pol clk ip h)" for h by (simp add: life_def)
  moreover have "\<exists>h. c = init_conn ini sec mx pol clk ip h \<or>
      (\<exists>f r. write_frame f (init_conn ini sec mx pol clk ip h) = (r, c))"
  proof (cases ini)
    case True
    then obtain h msg1 where h: "(case write_frame msg1 (init_conn ini sec mx pol clk ip (HsI h)) of
        (Inl e, c) \<Rightarrow> Inl e | (Inr _, c) \<Rightarrow> Inr c) = Inr c"
      using assms by (auto simp: new_conn_def bind_res_eq_Inr)
    obtain r d where w: "write_frame msg1 (init_conn ini sec mx pol clk ip (HsI h)) = (r, d)"
      by (cases "write_frame msg1 (init_conn ini sec mx pol clk ip (HsI h))")
    then have "d = c" using h by (cases r) simp_all
    then show ?thesis using w by blast
  qed (use assms in \<open>auto simp: new_conn_def bind_res_eq_Inr\<close>)
  ultimately show ?thesis using life_quiet quiet_write by blast
qed

text \<open>C11. The life of a connection: from the constructor on, whatever its owner calls, whatever bytes arrive
  in whatever chunks and whichever timers fire, nothing is delivered before the handshake has completed;
  the identity is announced at most once, before the first message, and is the one its session
  authenticated; and at most one error is ever reported, after which the connection is closed.\<close>

theorem session_lifecycle:
  assumes "crypto_sizes C" and "length s = 32"
    and "new_conn C (keystore_of C s) ini sec mx pol ePriv clk ip = Inr c"
    and "c' = conn_run C (keystore_of C s) ops c"
  shows "(case cn_session c' of
        None \<Rightarrow> secures (cn_out c') = [] \<and> delivered (cn_out c') = []
      | Some t \<Rightarrow> secures (cn_out c') = [ss_peerId t] \<and> early (cn_out c') = []) \<and>
    (errors (cn_out c') = [] \<or> (cn_closed c' \<and> length (errors (cn_out c')) = 1))"
  unfolding assms(4)
  using life_run [OF life_new [OF assms(3)] short_signatures_of [OF assms(1,2)], of ops]
  by (simp add: life_def)

theorem session_lifecycle_witness:
  "\<exists>c. new_conn demo_crypto (keystore_of demo_crypto (replicate 32 3)) False None None (None, None, None)
      (replicate 32 4) (\<lambda>k. 0) ''a'' = Inr c \<and>
    length (errors (cn_out (conn_run demo_crypto (keystore_of demo_crypto (replicate 32 3))
      [OpSend (\<lambda>k. []) 0 [1], OpTimeout, OpSockError, OpSockClose] c))) = 1"
proof -
  obtain c where c: "new_conn demo_crypto (keystore_of demo_crypto (replicate 32 3)) False None None (None, None, None)
      (replicate 32 4) (\<lambda>k. 0) ''a'' = Inr c"
    by (simp add: new_conn_def new_responder_of Let_def)
  have t: "cn_timeout c" "cn_session c = None" "\<not> cn_closed c"
    using c by (auto simp: new_conn_def new_responder_of Let_def)
  have "errors (cn_out (conn_run demo_crypto (keystore_of demo_crypto (replicate 32 3))
      [OpSend (\<lambda>k. []) 0 [1], OpTimeout, OpSockError, OpSockClose] c)) \<noteq> []"
    using t by (simp add: conn_send_def conn_onTimeout_def conn_onError_def conn_onClose_def emit_def fail_def)
  then show ?thesis using session_lifecycle [OF demo_sizes _ c refl] c by fastforce
qed

text \<open>Closing is not final: \<open>_onData\<close> does not look at \<open>_closed\<close> when a chunk arrives, only after a frame.
  So after the peer's CLOSE, when the application has seen \<open>peerclose\<close> and the connection counts as
  closed, the first frame of every later chunk is still handled, and a DATA frame is delivered.\<close>

theorem message_after_close:
  assumes "cn_closed c" and "cn_session c = Some s" and "cn_sec c = None"
    and "cn_decoder c = new_frame_decoder SESSION_MAX_FRAME"
    and "frame_seq C f s = Some n" and "\<not> seq_le (Some n) (cn_rxSeq c)"
    and "fst (msgAllow c (clk 0 4))" and "length f \<le> SESSION_MAX_FRAME"
  shows "\<exists>b. delivered (cn_out (conn_onData C ks ns clk (frame_bytes f) c)) = delivered (cn_out c) @ [b]"
proof -
  obtain pt where pt: "open_sealed C f s = Inr pt" "9 \<le> length pt" "hd pt = CTRL_DATA" "n = be_val (take 8 (drop 1 pt))"
    using assms(5) by (auto simp: frame_seq_def split: sum.splits if_splits)
  have rd: "readBigUInt64BE pt 1 = Inr n" using pt by (simp add: readBigUInt64BE_def subarray_def)
  obtain z where m: "msgAllow c (clk 0 4) = (True, z)" using assms(7) by (cases "msgAllow c (clk 0 4)") auto
  have z: "cn_rxSeq z = cn_rxSeq c" "cn_out z = cn_out c"
    using msgAllow_fields [of c "clk 0 4"] m by simp_all
  have "\<not> (case cn_rxSeq z of None \<Rightarrow> False | Some prev \<Rightarrow> n \<le> prev)"
    using assms(6) z by (auto simp: seq_le_def split: option.splits)
  then have "handle_data (\<lambda>k. clk 0 (k + 4)) pt c = (Inr (), emit (Message (drop 9 pt)) (z\<lparr>cn_rxSeq := Some n\<rparr>))"
    using pt(2) rd m by (simp add: handle_data_def)
  then have "frame_step C ks (ns 0) (clk 0) f c = emit (Message (drop 9 pt)) (z\<lparr>cn_rxSeq := Some n\<rparr>)"
    using assms(2,3) pt(1-3) by (cases pt) (simp_all add: frame_step_def conn_allow_def handle_frame_def handle_transport_def)
  moreover have "conn_onData C ks ns clk (frame_bytes f) c = frame_step C ks (ns 0) (clk 0) f c"
    using onData_one [OF assms(4,8)] .
  ultimately show ?thesis using z by simp
qed

lemma demo_frame_seq:
  "frame_seq demo_crypto demo_frame (new_session (replicate 32 2) (replicate 32 1) []) = Some 1"
  using demo_frame_opens by (simp add: frame_seq_def be_val_be_bytes)

theorem session_no_replay_witness:
  "delivered (cn_out (take_frames demo_crypto fresh_keystore
     [\<lparr>ar_nonces = (\<lambda>k. []), ar_clock = (\<lambda>k. 0), ar_frame = demo_frame\<rparr>,
      \<lparr>ar_nonces = (\<lambda>k. []), ar_clock = (\<lambda>k. 5), ar_frame = demo_frame\<rparr>] (demo_conn False))) = [[5]]"
proof -
  let ?c1 = "emit (Message [5]) ((demo_conn False)\<lparr>cn_msgCount := 1, cn_rxSeq := Some 1\<rparr>)"
  have s: "frame_step demo_crypto fresh_keystore (\<lambda>k. []) (\<lambda>k. 0) demo_frame (demo_conn False) = ?c1"
    by (rule demo_frame_step)
  have d: "delivered (cn_out ?c1) = [[5]]" by (simp add: demo_conn_def)
  have "delivers (demo_conn False) ?c1" by (auto simp: delivers_def demo_conn_def)
  from session_no_replay [OF s this, of "[]" ?c1 "\<lambda>k. []" "\<lambda>k. 5"]
  show ?thesis using s d by simp
qed

theorem session_rate_bound_witness:
  "length (delivered (cn_out (take_frames demo_crypto fresh_keystore
     [\<lparr>ar_nonces = (\<lambda>k. []), ar_clock = (\<lambda>k. 0), ar_frame = demo_frame\<rparr>] (demo_conn False)))) \<le> 200"
  using session_rate_bound [of "demo_conn False" 100 0
      "[\<lparr>ar_nonces = (\<lambda>k. []), ar_clock = (\<lambda>k. 0), ar_frame = demo_frame\<rparr>]" 0 demo_crypto fresh_keystore]
  by (simp add: demo_conn_def)

theorem message_after_close_witness:
  "delivered (cn_out (conn_onData demo_crypto fresh_keystore (\<lambda>i k. []) (\<lambda>i k. 0) (frame_bytes demo_frame)
     ((demo_conn False)\<lparr>cn_closed := True\<rparr>))) \<noteq> []"
  using message_after_close [of "(demo_conn False)\<lparr>cn_closed := True\<rparr>"
      "new_session (replicate 32 2) (replicate 32 1) []" demo_crypto demo_frame 1 "\<lambda>i k. 0" fresh_keystore
      "\<lambda>i k. []"] demo_frame_seq length_demo_frame
  by (auto simp: demo_conn_def seq_le_def msgAllow_def)

end
