(* ===== verification/JsonText.thy ===== *)
theory JsonText
  imports Prelude
begin

text \<open>
  The part of \<open>JSON.stringify\<close> that the program's signed and stored texts use: strings, whole numbers,
  and the punctuation of arrays and objects written by the caller. A HOL string is the list of the bytes
  of the UTF-8 encoding, so characters from 128 on are copied. Each printer is shown to be
  self-delimiting, so that a text determines what was printed.
\<close>

section \<open>Strings\<close>

definition json_escape :: "char \<Rightarrow> string" where
  "json_escape c =
     (let n = (of_char c :: nat) in
      if n = 34 then [CHR 0x5C, CHR 0x22]
      else if n = 92 then [CHR 0x5C, CHR 0x5C]
      else if n = 8 then [CHR 0x5C, CHR ''b'']
      else if n = 9 then [CHR 0x5C, CHR ''t'']
      else if n = 10 then [CHR 0x5C, CHR ''n'']
      else if n = 12 then [CHR 0x5C, CHR ''f'']
      else if n = 13 then [CHR 0x5C, CHR ''r'']
      else if n < 32 then [CHR 0x5C, CHR ''u'', CHR ''0'', CHR ''0'', hex_of_nibble (n div 16), hex_of_nibble (n mod 16)]
      else [c])"

definition json_string :: "string \<Rightarrow> string" where
  "json_string s = CHR 0x22 # concat (map json_escape s) @ [CHR 0x22]"

text \<open>One character read back from the front of an escaped text.\<close>

definition json_unescape :: "string \<Rightarrow> (char \<times> string) option" where
  "json_unescape t =
     (case t of
        [] \<Rightarrow> None
      | c # r \<Rightarrow>
          if c = CHR 0x22 then None
          else if c = CHR 0x5C then
            (case r of
               [] \<Rightarrow> None
             | d # r \<Rightarrow>
                 if d = CHR ''u'' then
                   Some (char_of (16 * the (nibble_of_hex (r ! 2)) + the (nibble_of_hex (r ! 3))), drop 4 r)
                 else Some (if d = CHR ''b'' then CHR 0x08 else if d = CHR ''t'' then CHR 0x09
                            else if d = CHR ''n'' then CHR 0x0A else if d = CHR ''f'' then CHR 0x0C
                            else if d = CHR ''r'' then CHR 0x0D else d, r))
          else Some (c, r))"

lemma char_eq_of: "(c = d) = ((of_char c :: nat) = of_char d)"
  by (metis char_of_char)

lemma json_unescape_escape: "json_unescape (json_escape c @ r) = Some (c, r)"
proof -
  let ?n = "of_char c :: nat"
  consider "?n \<in> {8, 9, 10, 12, 13, 34, 92}" | "?n < 32" "?n \<notin> {8, 9, 10, 12, 13, 34, 92}"
    | "32 \<le> ?n" "?n \<notin> {8, 9, 10, 12, 13, 34, 92}" by fastforce
  then show ?thesis
  proof cases
    case 1
    then show ?thesis
      by (auto simp: json_escape_def json_unescape_def Let_def char_eq_of)
  next
    case 2
    have "?n div 16 < 16" "?n mod 16 < 16" using 2 by simp_all
    then show ?thesis using 2
      by (simp add: json_escape_def json_unescape_def Let_def nibble_of_hex_of_nibble)
  next
    case 3
    then show ?thesis
      by (simp add: json_escape_def json_unescape_def Let_def char_eq_of)
  qed
qed

lemma json_chars_delimited:
  "concat (map json_escape s) @ CHR 0x22 # x = concat (map json_escape t) @ CHR 0x22 # y \<Longrightarrow> s = t \<and> x = y"
proof (induction s arbitrary: t)
  case Nil
  then show ?case
  proof (cases t)
    case (Cons c t)
    then have "json_unescape (CHR 0x22 # x) = Some (c, concat (map json_escape t) @ CHR 0x22 # y)"
      using Nil json_unescape_escape [of c] by simp
    then show ?thesis by (simp add: json_unescape_def)
  qed simp
next
  case (Cons c s)
  have u: "json_unescape (concat (map json_escape t) @ CHR 0x22 # y) =
      Some (c, concat (map json_escape s) @ CHR 0x22 # x)"
    using Cons.prems json_unescape_escape [of c] by (metis append_assoc concat.simps(2) list.simps(9))
  show ?case
  proof (cases t)
    case Nil
    then show ?thesis using u by (simp add: json_unescape_def)
  next
    case (Cons d t')
    then show ?thesis using u json_unescape_escape [of d] Cons.IH [of t'] by simp
  qed
qed

lemma json_string_delimited: "json_string s @ x = json_string t @ y \<longleftrightarrow> s = t \<and> x = y"
  using json_chars_delimited [of s x t y] by (auto simp: json_string_def)

lemma json_string_inj: "json_string s = json_string t \<longleftrightarrow> s = t"
  using json_string_delimited [of s "[]" t "[]"] by simp

section \<open>Numbers\<close>

definition digit :: "nat \<Rightarrow> char" where
  "digit n = char_of (48 + n)"

fun decimal :: "nat \<Rightarrow> string" where
  "decimal n = (if n < 10 then [digit n] else decimal (n div 10) @ [digit (n mod 10)])"

declare decimal.simps [simp del]

definition json_int :: "int \<Rightarrow> string" where
  "json_int i = (if i < 0 then CHR ''-'' # decimal (nat (- i)) else decimal (nat i))"

definition is_digit :: "char \<Rightarrow> bool" where
  "is_digit c = (48 \<le> (of_char c :: nat) \<and> (of_char c :: nat) \<le> 57)"

fun undecimal :: "nat \<Rightarrow> string \<Rightarrow> nat" where
  "undecimal a [] = a"
| "undecimal a (c # s) = undecimal (10 * a + (of_char c - 48)) s"

lemma of_char_digit: "n < 10 \<Longrightarrow> (of_char (digit n) :: nat) = 48 + n"
  by (simp add: digit_def)

lemma decimal_digits: "\<forall>c \<in> set (decimal n). is_digit c"
  by (induction n rule: decimal.induct) (subst decimal.simps, auto simp: is_digit_def of_char_digit)

lemma decimal_nonempty: "decimal n \<noteq> []"
  by (subst decimal.simps) simp

lemma undecimal_append: "undecimal a (s @ t) = undecimal (undecimal a s) t"
  by (induction s arbitrary: a) simp_all

lemma undecimal_decimal: "undecimal 0 (decimal n) = n"
proof (induction n rule: decimal.induct)
  case (1 n)
  show ?case
  proof (cases "n < 10")
    case True
    then show ?thesis by (subst decimal.simps) (simp add: of_char_digit)
  next
    case False
    then show ?thesis using 1
      by (subst decimal.simps) (simp add: undecimal_append of_char_digit)
  qed
qed

lemma takeWhile_digits:
  assumes "\<forall>c \<in> set a. is_digit c" and "\<not> is_digit x"
  shows "takeWhile is_digit (a @ x # r) = a"
  using assms by (simp add: takeWhile_append2)

lemma decimal_delimited:
  assumes "decimal m @ x # r = decimal n @ y # s" and "\<not> is_digit x" and "\<not> is_digit y"
  shows "m = n \<and> x # r = y # s"
proof -
  have "decimal m = decimal n"
    using assms takeWhile_digits [OF decimal_digits] by metis
  then show ?thesis using assms(1) undecimal_decimal by (metis same_append_eq)
qed

lemma json_int_delimited:
  assumes "json_int i @ x # r = json_int j @ y # s" and "\<not> is_digit x" and "\<not> is_digit y"
  shows "i = j \<and> x # r = y # s"
proof -
  have m: "\<not> is_digit CHR ''-''" by (simp add: is_digit_def)
  have h: "decimal n @ z \<noteq> CHR ''-'' # w" for n z w
    using decimal_digits [of n] decimal_nonempty [of n] m by (cases "decimal n") auto
  show ?thesis
  proof (cases "i < 0 \<longleftrightarrow> j < 0")
    case True
    then show ?thesis
      using assms decimal_delimited [of "nat (if i < 0 then - i else i)" x r "nat (if j < 0 then - j else j)" y s]
      by (auto simp: json_int_def split: if_splits)
  next
    case False
    then show ?thesis using assms(1) h by (auto simp: json_int_def split: if_splits) (metis h)+
  qed
qed

lemma json_nat_delimited:
  assumes "json_int (int m) @ x # r = json_int (int n) @ y # s" and "\<not> is_digit x" and "\<not> is_digit y"
  shows "m = n \<and> x # r = y # s"
  using json_int_delimited [OF assms] by simp

text \<open>\<open>Buffer.from(text)\<close> on such a text.\<close>

definition text_bytes :: "string \<Rightarrow> bytes" where
  "text_bytes s = map (\<lambda>c. of_nat (of_char c)) s"

definition bytes_text :: "bytes \<Rightarrow> string" where
  "bytes_text b = map (\<lambda>x. char_of (unat x)) b"

lemma bytes_text_bytes [simp]: "bytes_text (text_bytes s) = s"
  by (induction s) (simp_all add: text_bytes_def bytes_text_def unat_of_nat of_char_mod_256)

lemma text_bytes_bytes [simp]: "text_bytes (bytes_text b) = b"
proof (induction b)
  case (Cons x b)
  have "unat x mod 256 = unat x" using unat_byte_less [of x] by simp
  with Cons show ?case by (simp add: text_bytes_def bytes_text_def)
qed (simp add: text_bytes_def bytes_text_def)

lemma text_bytes_inj: "text_bytes s = text_bytes t \<longleftrightarrow> s = t"
  by (metis bytes_text_bytes)

end
