(* ===== verification/Manifest.thy ===== *)
theory Manifest
  imports Keys JsonText
begin

text \<open>
  \<open>src/file/manifest.js\<close>: the signed description of a file cut into chunks.

  A manifest is a record with the fields of the JavaScript object; objects with other fields, with
  fields of other types or in another order (which only a foreign sender could produce) are outside the
  model. The file system is a function from paths to contents.
\<close>

section \<open>Definitions\<close>

definition DEFAULT_CHUNK_SIZE :: nat where
  "DEFAULT_CHUNK_SIZE = 512 * 1024"

record chunk_info =
  ci_index :: nat
  ci_hash :: string
  ci_size :: int

record manifest =
  mf_file_id :: string
  mf_filename :: string
  mf_size :: int
  mf_chunk_size :: int
  mf_nb_chunks :: nat
  mf_chunks :: "chunk_info list"
  mf_sender_id :: string
  mf_signature :: string

text \<open>\<open>JSON.stringify(ordered)\<close>.\<close>

definition chunk_json :: "chunk_info \<Rightarrow> string" where
  "chunk_json c =
     ''{'' @ json_string ''index'' @ '':'' @ json_int (int (ci_index c)) @
     '','' @ json_string ''hash'' @ '':'' @ json_string (ci_hash c) @
     '','' @ json_string ''size'' @ '':'' @ json_int (ci_size c) @ ''}''"

fun json_list :: "string list \<Rightarrow> string" where
  "json_list [] = '']''"
| "json_list [x] = x @ '']''"
| "json_list (x # xs) = x @ '','' @ json_list xs"

definition manifest_json :: "manifest \<Rightarrow> string" where
  "manifest_json m =
     ''{'' @ json_string ''file_id'' @ '':'' @ json_string (mf_file_id m) @
     '','' @ json_string ''filename'' @ '':'' @ json_string (mf_filename m) @
     '','' @ json_string ''size'' @ '':'' @ json_int (mf_size m) @
     '','' @ json_string ''chunk_size'' @ '':'' @ json_int (mf_chunk_size m) @
     '','' @ json_string ''nb_chunks'' @ '':'' @ json_int (int (mf_nb_chunks m)) @
     '','' @ json_string ''chunks'' @ '':'' @ ''['' @ json_list (map chunk_json (mf_chunks m)) @
     '','' @ json_string ''sender_id'' @ '':'' @ json_string (mf_sender_id m) @ ''}''"

definition manifestHash :: "crypto \<Rightarrow> manifest \<Rightarrow> bytes" where
  "manifestHash C m = sha256 C (text_bytes (manifest_json m))"

text \<open>\<open>path.basename\<close>: trailing slashes are dropped first.\<close>

definition basename :: "string \<Rightarrow> string" where
  "basename p = rev (takeWhile (\<lambda>c. c \<noteq> CHR ''/'') (dropWhile (\<lambda>c. c = CHR ''/'') (rev p)))"

definition nat_or :: "nat option \<Rightarrow> nat \<Rightarrow> nat" where
  "nat_or v d = (case v of None \<Rightarrow> d | Some n \<Rightarrow> if n = 0 then d else n)"

definition str_or :: "string option \<Rightarrow> string \<Rightarrow> string" where
  "str_or v d = (case v of None \<Rightarrow> d | Some s \<Rightarrow> if s = '''' then d else s)"

text \<open>The loop over the chunks; \<open>Math.ceil(size / chunkSize)\<close> in whole numbers.\<close>

definition chunk_count :: "nat \<Rightarrow> nat \<Rightarrow> nat" where
  "chunk_count n cs = (n + cs - 1) div cs"

definition chunk_data :: "nat \<Rightarrow> bytes \<Rightarrow> nat \<Rightarrow> bytes" where
  "chunk_data cs data i = subarray data (i * cs) (min (i * cs + cs) (length data))"

definition chunk_entry :: "crypto \<Rightarrow> nat \<Rightarrow> bytes \<Rightarrow> nat \<Rightarrow> chunk_info" where
  "chunk_entry C cs data i =
     \<lparr>ci_index = i, ci_hash = hex_of_bytes (sha256 C (chunk_data cs data i)),
      ci_size = int (min (i * cs + cs) (length data)) - int (i * cs)\<rparr>"

definition buildManifest ::
    "crypto \<Rightarrow> keystore \<Rightarrow> (string \<Rightarrow> bytes option) \<Rightarrow> nat option \<Rightarrow> string option \<Rightarrow> bytes option \<Rightarrow>
     string \<Rightarrow> manifest res" where
  "buildManifest C ks fs chunkSize filename senderId filePath =
     (let cs = nat_or chunkSize DEFAULT_CHUNK_SIZE in
      case fs filePath of None \<Rightarrow> Inl NoSuchFile
      | Some data \<Rightarrow>
          (let n = length data; nb = chunk_count n cs;
               chunks = map (chunk_entry C cs data) [0..<nb] in
           bind_res (case senderId of Some s \<Rightarrow> Inr s | None \<Rightarrow> getPublicKey ks) (\<lambda>sender.
             let m = \<lparr>mf_file_id = hex_of_bytes (sha256 C data),
                      mf_filename = str_or filename (basename filePath), mf_size = int n,
                      mf_chunk_size = int cs, mf_nb_chunks = nb, mf_chunks = chunks,
                      mf_sender_id = hex_of_bytes sender, mf_signature = ''''\<rparr> in
             bind_res (sign C ks (manifestHash C m)) (\<lambda>sig.
               Inr (m\<lparr>mf_signature := hex_of_bytes sig\<rparr>)))))"

definition verifyManifest :: "crypto \<Rightarrow> keystore \<Rightarrow> manifest \<Rightarrow> bool" where
  "verifyManifest C ks m =
     (if mf_file_id m = '''' then False
      else if length (mf_chunks m) \<noteq> mf_nb_chunks m then False
      else if sum_list (map ci_size (mf_chunks m)) \<noteq> mf_size m then False
      else if \<not> sodium_ready ks then False
      else case ed_verify C (bytes_of_hex (mf_signature m)) (manifestHash C m) (bytes_of_hex (mf_sender_id m)) of
             Inl e \<Rightarrow> False | Inr b \<Rightarrow> b)"

section \<open>What is signed\<close>

text \<open>The signature is not part of the signed text.\<close>

lemma manifest_json_signature [simp]: "manifest_json (m\<lparr>mf_signature := s\<rparr>) = manifest_json m"
  by (simp add: manifest_json_def)

lemma manifestHash_signature [simp]: "manifestHash C (m\<lparr>mf_signature := s\<rparr>) = manifestHash C m"
  by (simp add: manifestHash_def)

lemma not_digits [simp]: "\<not> is_digit CHR '',''" "\<not> is_digit CHR ''}''" "\<not> is_digit CHR '']''"
  by (simp_all add: is_digit_def)

lemma chunk_json_delimited: "chunk_json c @ x = chunk_json d @ y \<Longrightarrow> c = d \<and> x = y"
proof -
  assume e: "chunk_json c @ x = chunk_json d @ y"
  have 1: "int (ci_index c) = int (ci_index d)" and e2:
    "json_string (ci_hash c) @ '','' @ json_string ''size'' @ '':'' @ json_int (ci_size c) @ ''}'' @ x =
     json_string (ci_hash d) @ '','' @ json_string ''size'' @ '':'' @ json_int (ci_size d) @ ''}'' @ y"
    using e json_int_delimited [of "int (ci_index c)" "CHR '',''" _ "int (ci_index d)" "CHR '',''"]
    by (auto simp: chunk_json_def json_string_def)
  have h: "ci_hash c = ci_hash d" and e3:
    "json_int (ci_size c) @ CHR ''}'' # x = json_int (ci_size d) @ CHR ''}'' # y"
    using e2 unfolding json_string_delimited by simp_all
  have "ci_size c = ci_size d \<and> x = y" using json_int_delimited [OF e3] by simp
  then show ?thesis using 1 h by simp
qed

lemma chunk_json_head: "\<exists>r. chunk_json c = CHR ''{'' # r"
  by (simp add: chunk_json_def)

lemma json_list_Cons:
  "json_list (s # ss) @ x = s @ (if ss = [] then CHR '']'' # x else CHR '','' # json_list ss @ x)"
  by (cases ss) simp_all

lemma json_list_delimited:
  "json_list (map chunk_json cs) @ x = json_list (map chunk_json ds) @ y \<Longrightarrow> cs = ds \<and> x = y"
proof (induction cs arbitrary: ds)
  case Nil
  then show ?case
  proof (cases ds)
    case (Cons d es)
    then show ?thesis using Nil chunk_json_head [of d] by (auto simp: json_list_Cons)
  qed simp
next
  case (Cons a cs)
  obtain b es where ds: "ds = b # es"
    using Cons.prems chunk_json_head [of a] by (cases ds) (auto simp: json_list_Cons)
  have e: "chunk_json a @ (if cs = [] then CHR '']'' # x else CHR '','' # json_list (map chunk_json cs) @ x) =
      chunk_json b @ (if es = [] then CHR '']'' # y else CHR '','' # json_list (map chunk_json es) @ y)"
    using Cons.prems by (simp only: ds list.map json_list_Cons map_is_Nil_conv)
  note chunk_json_delimited [OF e]
  then show ?case using Cons.IH [of es] by (auto simp: ds split: if_splits)
qed

lemma manifest_json_inj:
  assumes "manifest_json m = manifest_json m'"
  shows "mf_file_id m = mf_file_id m' \<and> mf_filename m = mf_filename m' \<and> mf_size m = mf_size m' \<and>
    mf_chunk_size m = mf_chunk_size m' \<and> mf_nb_chunks m = mf_nb_chunks m' \<and> mf_chunks m = mf_chunks m' \<and>
    mf_sender_id m = mf_sender_id m'"
proof -
  note j = json_string_delimited
  note e = assms [unfolded manifest_json_def same_append_eq j append_assoc]
  have 1: "mf_file_id m = mf_file_id m'" "mf_filename m = mf_filename m'" and e1:
    "json_int (mf_size m) @ CHR '','' # json_string ''chunk_size'' @ '':'' @ json_int (mf_chunk_size m) @
      '','' @ json_string ''nb_chunks'' @ '':'' @ json_int (int (mf_nb_chunks m)) @
      '','' @ json_string ''chunks'' @ '':'' @ ''['' @ json_list (map chunk_json (mf_chunks m)) @
      '','' @ json_string ''sender_id'' @ '':'' @ json_string (mf_sender_id m) @ ''}'' =
     json_int (mf_size m') @ CHR '','' # json_string ''chunk_size'' @ '':'' @ json_int (mf_chunk_size m') @
      '','' @ json_string ''nb_chunks'' @ '':'' @ json_int (int (mf_nb_chunks m')) @
      '','' @ json_string ''chunks'' @ '':'' @ ''['' @ json_list (map chunk_json (mf_chunks m')) @
      '','' @ json_string ''sender_id'' @ '':'' @ json_string (mf_sender_id m') @ ''}''"
    using e by (simp_all add: j)
  note s1 = json_int_delimited [OF e1]
  have 2: "mf_size m = mf_size m'" and e2:
    "json_int (mf_chunk_size m) @ CHR '','' # json_string ''nb_chunks'' @ '':'' @ json_int (int (mf_nb_chunks m)) @
      '','' @ json_string ''chunks'' @ '':'' @ ''['' @ json_list (map chunk_json (mf_chunks m)) @
      '','' @ json_string ''sender_id'' @ '':'' @ json_string (mf_sender_id m) @ ''}'' =
     json_int (mf_chunk_size m') @ CHR '','' # json_string ''nb_chunks'' @ '':'' @ json_int (int (mf_nb_chunks m')) @
      '','' @ json_string ''chunks'' @ '':'' @ ''['' @ json_list (map chunk_json (mf_chunks m')) @
      '','' @ json_string ''sender_id'' @ '':'' @ json_string (mf_sender_id m') @ ''}''"
    using s1 by (simp_all add: j)
  note s2 = json_int_delimited [OF e2]
  have 3: "mf_chunk_size m = mf_chunk_size m'" and e3:
    "json_int (int (mf_nb_chunks m)) @ CHR '','' # json_string ''chunks'' @ '':'' @ ''['' @
      json_list (map chunk_json (mf_chunks m)) @
      '','' @ json_string ''sender_id'' @ '':'' @ json_string (mf_sender_id m) @ ''}'' =
     json_int (int (mf_nb_chunks m')) @ CHR '','' # json_string ''chunks'' @ '':'' @ ''['' @
      json_list (map chunk_json (mf_chunks m')) @
      '','' @ json_string ''sender_id'' @ '':'' @ json_string (mf_sender_id m') @ ''}''"
    using s2 by (simp_all add: j)
  note s3 = json_nat_delimited [OF e3]
  have 4: "mf_nb_chunks m = mf_nb_chunks m'" and e4:
    "json_list (map chunk_json (mf_chunks m)) @
      '','' @ json_string ''sender_id'' @ '':'' @ json_string (mf_sender_id m) @ ''}'' =
     json_list (map chunk_json (mf_chunks m')) @
      '','' @ json_string ''sender_id'' @ '':'' @ json_string (mf_sender_id m') @ ''}''"
    using s3 by (simp_all add: j)
  note s4 = json_list_delimited [OF e4]
  have "mf_sender_id m = mf_sender_id m'" using s4 json_string_inj by simp
  then show ?thesis using 1 2 3 4 s4 by simp
qed

section \<open>The cut of a file\<close>

lemma chunk_data_take: "0 < cs \<Longrightarrow> chunk_data cs data i = take cs (drop (i * cs) data)"
  by (simp add: chunk_data_def subarray_def min_def)

lemma concat_chunks: "0 < cs \<Longrightarrow> concat (map (chunk_data cs data) [0..<k]) = take (k * cs) data"
proof (induction k)
  case (Suc k)
  have "take (k * cs) data @ take cs (drop (k * cs) data) = take (k * cs + cs) data"
    by (simp add: take_add)
  then show ?case using Suc by (simp add: chunk_data_take add.commute)
qed simp

lemma chunk_count_covers: "0 < cs \<Longrightarrow> n \<le> chunk_count n cs * cs"
  using div_mult_mod_eq [of "n + cs - 1" cs] mod_less_divisor [of cs "n + cs - 1"]
  unfolding chunk_count_def by linarith

lemma chunk_count_tight: "0 < cs \<Longrightarrow> i < chunk_count n cs \<Longrightarrow> i * cs < n"
proof -
  assume "0 < cs" "i < chunk_count n cs"
  then have "Suc i \<le> (n + cs - 1) div cs" by (simp add: chunk_count_def)
  then have "Suc i * cs \<le> n + cs - 1"
    using \<open>0 < cs\<close> by (simp add: less_eq_div_iff_mult_less_eq)
  with \<open>0 < cs\<close> show ?thesis by simp
qed

lemma concat_all_chunks:
  "0 < cs \<Longrightarrow> concat (map (chunk_data cs data) [0..<chunk_count (length data) cs]) = data"
  using chunk_count_covers [of cs "length data"] by (simp add: concat_chunks)

lemma nat_or_pos: "0 < d \<Longrightarrow> 0 < nat_or v d"
  by (auto simp: nat_or_def split: option.splits)

lemma chunk_entry_at:
  assumes "0 < cs" and "i < chunk_count (length data) cs"
  shows "chunk_entry C cs data i = \<lparr>ci_index = i, ci_hash = hex_of_bytes (sha256 C (chunk_data cs data i)),
      ci_size = int (length (chunk_data cs data i))\<rparr>"
    and "0 < length (chunk_data cs data i)" and "length (chunk_data cs data i) \<le> cs"
    and "i + 1 < chunk_count (length data) cs \<Longrightarrow> length (chunk_data cs data i) = cs"
proof -
  note t = chunk_count_tight [OF assms]
  show "chunk_entry C cs data i = \<lparr>ci_index = i, ci_hash = hex_of_bytes (sha256 C (chunk_data cs data i)),
      ci_size = int (length (chunk_data cs data i))\<rparr>"
    using t by (simp add: chunk_entry_def chunk_data_def of_nat_diff)
  show "0 < length (chunk_data cs data i)" "length (chunk_data cs data i) \<le> cs"
    using t assms(1) by (simp_all add: chunk_data_take)
  assume "i + 1 < chunk_count (length data) cs"
  then have "(i + 1) * cs < length data" using chunk_count_tight [OF assms(1)] by blast
  then show "length (chunk_data cs data i) = cs" using assms(1) by (simp add: chunk_data_take)
qed

lemma sum_chunk_sizes:
  assumes "0 < cs"
  shows "sum_list (map ci_size (map (chunk_entry C cs data) [0..<chunk_count (length data) cs])) = int (length data)"
proof -
  have "map ci_size (map (chunk_entry C cs data) [0..<chunk_count (length data) cs]) =
      map (\<lambda>i. int (length (chunk_data cs data i))) [0..<chunk_count (length data) cs]"
    using chunk_entry_at(1) [OF assms] by simp
  moreover have "int (length (concat (map (chunk_data cs data) xs))) =
      sum_list (map (\<lambda>i. int (length (chunk_data cs data i))) xs)" for xs
    by (induction xs) simp_all
  ultimately show ?thesis using concat_all_chunks [OF assms, of data] by metis
qed

text \<open>Whatever a manifest says, its sender can sign it.\<close>

definition sign_as :: "crypto \<Rightarrow> bytes \<Rightarrow> manifest \<Rightarrow> manifest" where
  "sign_as C s m =
     (let m = m\<lparr>mf_sender_id := hex_of_bytes (ed_public C s)\<rparr> in
      m\<lparr>mf_signature := hex_of_bytes (ed_sign C (ed_private C s) (manifestHash C m))\<rparr>)"

lemma verify_signed:
  assumes "sign_correct C" and "length s = 32" and "sodium_ready ks" and "mf_file_id m \<noteq> ''''"
    and "length (mf_chunks m) = mf_nb_chunks m" and "sum_list (map ci_size (mf_chunks m)) = mf_size m"
  shows "verifyManifest C ks (sign_as C s m)"
  using assms sign_correctD [OF assms(1,2)] by (simp add: verifyManifest_def sign_as_def Let_def)

lemma sign_as_fields [simp]:
  "mf_file_id (sign_as C s m) = mf_file_id m" "mf_filename (sign_as C s m) = mf_filename m"
  "mf_sender_id (sign_as C s m) = hex_of_bytes (ed_public C s)"
  by (simp_all add: sign_as_def Let_def)

section \<open>Properties\<close>

text \<open>C18. What an honest node announces. The manifest it builds for a file verifies at every other node; it
  names the file by its hash and length, lists the hashes and lengths of consecutive pieces whose
  concatenation is the file, and every piece has the chunk size except the last, which is not empty.\<close>

theorem manifest_describes:
  assumes "crypto_sizes C" and "sign_correct C" and "length s = 32"
    and "buildManifest C (keystore_of C s) fs chunkSize filename None p = Inr m"
  shows "\<exists>data cs. fs p = Some data \<and> cs = nat_or chunkSize DEFAULT_CHUNK_SIZE \<and>
    (sodium_ready ks \<longrightarrow> verifyManifest C ks m) \<and>
    mf_file_id m = hex_of_bytes (sha256 C data) \<and> mf_size m = int (length data) \<and>
    mf_sender_id m = hex_of_bytes (ed_public C s) \<and>
    length (mf_chunks m) = mf_nb_chunks m \<and>
    concat (map (chunk_data cs data) [0..<mf_nb_chunks m]) = data \<and>
    (\<forall>i < mf_nb_chunks m.
       mf_chunks m ! i = \<lparr>ci_index = i, ci_hash = hex_of_bytes (sha256 C (chunk_data cs data i)),
         ci_size = int (length (chunk_data cs data i))\<rparr> \<and>
       0 < length (chunk_data cs data i) \<and> length (chunk_data cs data i) \<le> cs \<and>
       (i + 1 < mf_nb_chunks m \<longrightarrow> length (chunk_data cs data i) = cs))"
proof -
  let ?cs = "nat_or chunkSize DEFAULT_CHUNK_SIZE"
  have pos: "0 < ?cs" by (rule nat_or_pos) (simp add: DEFAULT_CHUNK_SIZE_def)
  obtain data where data: "fs p = Some data"
    using assms(4) by (cases "fs p") (simp_all add: buildManifest_def Let_def)
  define m0 where "m0 = \<lparr>mf_file_id = hex_of_bytes (sha256 C data),
    mf_filename = str_or filename (basename p), mf_size = int (length data), mf_chunk_size = int ?cs,
    mf_nb_chunks = chunk_count (length data) ?cs,
    mf_chunks = map (chunk_entry C ?cs data) [0..<chunk_count (length data) ?cs],
    mf_sender_id = hex_of_bytes (ed_public C s), mf_signature = ''''\<rparr>"
  have eq: "m = m0\<lparr>mf_signature := hex_of_bytes (ed_sign C (ed_private C s) (manifestHash C m0))\<rparr>"
    using assms(4) data unfolding m0_def by (simp add: buildManifest_def Let_def)
  have m: "mf_file_id m = hex_of_bytes (sha256 C data)" "mf_size m = int (length data)"
      "mf_nb_chunks m = chunk_count (length data) ?cs" "mf_sender_id m = hex_of_bytes (ed_public C s)"
      "mf_chunks m = map (chunk_entry C ?cs data) [0..<chunk_count (length data) ?cs]"
    by (simp_all add: eq m0_def)
  have sg: "mf_signature m = hex_of_bytes (ed_sign C (ed_private C s) (manifestHash C m))"
    by (simp add: eq)
  have "mf_file_id m \<noteq> ''''"
    using m(1) crypto_sizesD(1) [OF assms(1), of data] by (metis length_hex_of_bytes list.size(3) mult_is_0 zero_neq_numeral)
  then have "sodium_ready ks \<longrightarrow> verifyManifest C ks m"
    using m sg sum_chunk_sizes [OF pos, of C data] sign_correctD [OF assms(2,3)] by (simp add: verifyManifest_def)
  then show ?thesis
    using data m chunk_entry_at [OF pos, where data = data] concat_all_chunks [OF pos, of data]
    by (intro exI [of _ data] exI [of _ ?cs]) (simp del: map_map)
qed

theorem manifest_describes_witness:
  "\<exists>m. buildManifest demo_crypto (keystore_of demo_crypto (replicate 32 7)) (\<lambda>p. Some [1, 2, 3]) (Some 2) None None
      ''d/f'' = Inr m \<and> mf_nb_chunks m = 2 \<and> verifyManifest demo_crypto (fresh_keystore\<lparr>sodium_ready := True\<rparr>) m"
proof -
  obtain m where m: "buildManifest demo_crypto (keystore_of demo_crypto (replicate 32 7)) (\<lambda>p. Some [1, 2, 3])
      (Some 2) None None ''d/f'' = Inr m" and n: "mf_nb_chunks m = 2"
    by (simp add: buildManifest_def nat_or_def chunk_count_def Let_def)
  show ?thesis
    using manifest_describes [OF demo_sizes demo_sign _ m, of "fresh_keystore\<lparr>sodium_ready := True\<rparr>"] m n by auto
qed

text \<open>C19. The signature covers the whole description: two manifests with the same signed text agree in every
  field except the signature, whatever quotes, commas or control characters their strings contain.\<close>

theorem manifest_text_unambiguous:
  "manifest_json m = manifest_json m' \<longleftrightarrow> m\<lparr>mf_signature := t\<rparr> = m'\<lparr>mf_signature := t\<rparr>"
proof
  assume "manifest_json m = manifest_json m'"
  then show "m\<lparr>mf_signature := t\<rparr> = m'\<lparr>mf_signature := t\<rparr>"
    using manifest_json_inj [of m m'] by simp
next
  assume "m\<lparr>mf_signature := t\<rparr> = m'\<lparr>mf_signature := t\<rparr>"
  then show "manifest_json m = manifest_json m'" by (metis manifest_json_signature)
qed

text \<open>The identifier is not checked: \<open>verifyManifest\<close> compares neither the file identifier with anything
  (it is usually not known to the verifier, but it need not even be a hash) nor the sizes and hashes of the
  chunks with the chunk size. Whoever owns a key can sign a manifest under any non-empty identifier and
  any file name, including ones with path separators, and every node accepts it.\<close>

theorem manifest_id_unchecked:
  fixes s :: bytes and i f :: string
  assumes "sign_correct C" and "length s = 32" and "sodium_ready ks" and "i \<noteq> ''''"
  shows "\<exists>m. mf_file_id m = i \<and> mf_filename m = f \<and> mf_chunks m = cs \<and> mf_chunk_size m = z \<and>
    verifyManifest C ks m"
proof -
  let ?m = "\<lparr>mf_file_id = i, mf_filename = f, mf_size = sum_list (map ci_size cs), mf_chunk_size = z,
    mf_nb_chunks = length cs, mf_chunks = cs, mf_sender_id = hex_of_bytes (ed_public C s), mf_signature = ''''\<rparr>"
  let ?m' = "?m\<lparr>mf_signature := hex_of_bytes (ed_sign C (ed_private C s) (manifestHash C ?m))\<rparr>"
  have "manifestHash C ?m' = manifestHash C ?m" by (rule manifestHash_signature)
  then have "verifyManifest C ks ?m'"
    using assms(3,4) sign_correctD [OF assms(1,2)] by (simp add: verifyManifest_def)
  then show ?thesis by (intro exI [of _ ?m']) simp
qed

theorem manifest_id_unchecked_witness:
  "\<exists>m. mf_file_id m = ''../../x'' \<and> mf_filename m = ''../.profile'' \<and> mf_chunks m = [] \<and> mf_chunk_size m = 0 \<and>
    verifyManifest demo_crypto (keystore_of demo_crypto (replicate 32 1)) m"
  using manifest_id_unchecked [OF demo_sign, of "replicate 32 7" "keystore_of demo_crypto (replicate 32 1)"
      "''../../x''" "''../.profile''" "[]" 0] by simp

end
