(* ===== verification/ChunkStore.thy ===== *)
theory ChunkStore
  imports Manifest JsMap
begin

text \<open>
  \<open>src/file/chunkStore.js\<close>: the chunks a node holds and their index.

  The directory under \<open>baseDir\<close> is the record \<open>store_disk\<close>: the contents of \<open>index.json\<close> (as the value it
  stores, not its text), the directories made, and the chunk files, named by their directory and number.
  Different file identifiers are taken to be different directories. The object of the class adds the index
  held in memory. Own keys of \<open>index.files\<close> only: identifiers that name a property of \<open>Object.prototype\<close>
  are outside the model.
\<close>

unbundle bit_operations_syntax

section \<open>State\<close>

record file_entry =
  fe_filename :: string
  fe_size :: int
  fe_chunk_size :: int
  fe_nb_chunks :: nat
  fe_chunks :: "nat list"
  fe_replication :: nat

record store_disk =
  sd_index :: "(string, file_entry) jsmap option"
  sd_dirs :: "string set"
  sd_chunk :: "string \<times> nat \<Rightarrow> bytes option"

record chunk_store =
  cs_files :: "(string, file_entry) jsmap"
  cs_disk :: store_disk

datatype put_result = PutOk string | HashMismatch string

section \<open>Operations\<close>

text \<open>The constructor, with \<open>_load\<close>.\<close>

definition load_index :: "store_disk \<Rightarrow> (string, file_entry) jsmap" where
  "load_index d = (case sd_index d of None \<Rightarrow> [] | Some files \<Rightarrow> files)"

definition open_store :: "store_disk \<Rightarrow> chunk_store" where
  "open_store d = \<lparr>cs_files = load_index d, cs_disk = d\<rparr>"

definition save_index :: "chunk_store \<Rightarrow> chunk_store" where
  "save_index st = st\<lparr>cs_disk := (cs_disk st)\<lparr>sd_index := Some (cs_files st)\<rparr>\<rparr>"

definition store_registerManifest :: "manifest \<Rightarrow> nat option \<Rightarrow> chunk_store \<Rightarrow> chunk_store" where
  "store_registerManifest m replication st =
     (let id = mf_file_id m;
          st = (if jm_has (cs_files st) id then st
                else st\<lparr>cs_files := jm_set (cs_files st) id
                  \<lparr>fe_filename = mf_filename m, fe_size = mf_size m, fe_chunk_size = mf_chunk_size m,
                   fe_nb_chunks = mf_nb_chunks m, fe_chunks = [], fe_replication = nat_or replication 1\<rparr>\<rparr>)
      in save_index (st\<lparr>cs_disk := (cs_disk st)\<lparr>sd_dirs := insert id (sd_dirs (cs_disk st))\<rparr>\<rparr>))"

definition hasChunk :: "chunk_store \<Rightarrow> string \<Rightarrow> nat \<Rightarrow> bool" where
  "hasChunk st fid idx =
     (case jm_get (cs_files st) fid of None \<Rightarrow> False | Some f \<Rightarrow> idx \<in> set (fe_chunks f))"

definition getChunk :: "chunk_store \<Rightarrow> string \<Rightarrow> nat \<Rightarrow> bytes res" where
  "getChunk st fid idx =
     (case sd_chunk (cs_disk st) (fid, idx) of None \<Rightarrow> Inl NoSuchFile | Some d \<Rightarrow> Inr d)"

definition write_chunk :: "string \<Rightarrow> nat \<Rightarrow> bytes \<Rightarrow> chunk_store \<Rightarrow> chunk_store" where
  "write_chunk fid idx data st =
     st\<lparr>cs_disk := (cs_disk st)\<lparr>sd_chunk := (sd_chunk (cs_disk st))((fid, idx) := Some data)\<rparr>\<rparr>"

definition putChunk ::
    "crypto \<Rightarrow> string \<Rightarrow> nat \<Rightarrow> bytes \<Rightarrow> string \<Rightarrow> chunk_store \<Rightarrow> put_result res \<times> chunk_store" where
  "putChunk C fid idx data expected st =
     (let h = hex_of_bytes (sha256 C data) in
      if expected \<noteq> '''' \<and> h \<noteq> expected then (Inr (HashMismatch h), st)
      else if fid \<notin> sd_dirs (cs_disk st) then (Inl NoSuchFile, st)
      else
        (let st = write_chunk fid idx data st in
         (Inr (PutOk h),
          case jm_get (cs_files st) fid of
            None \<Rightarrow> st
          | Some f \<Rightarrow>
              if idx \<in> set (fe_chunks f) then st
              else save_index (st\<lparr>cs_files := jm_set (cs_files st) fid
                     (f\<lparr>fe_chunks := sort (fe_chunks f @ [idx])\<rparr>)\<rparr>))))"

definition availableChunks :: "chunk_store \<Rightarrow> string \<Rightarrow> nat list" where
  "availableChunks st fid = (case jm_get (cs_files st) fid of None \<Rightarrow> [] | Some f \<Rightarrow> fe_chunks f)"

definition isComplete :: "chunk_store \<Rightarrow> string \<Rightarrow> bool" where
  "isComplete st fid =
     (case jm_get (cs_files st) fid of None \<Rightarrow> False | Some f \<Rightarrow> length (fe_chunks f) = fe_nb_chunks f)"

text \<open>The bit field, most significant bit first. A write past the end of a Buffer is ignored, a read
  there is \<open>undefined\<close>, which \<open>&\<close> takes as 0.\<close>

definition set_flag :: "bytes \<Rightarrow> nat \<Rightarrow> bytes" where
  "set_flag bf i = (if i div 8 < length bf then bf[i div 8 := bf ! (i div 8) OR push_bit (7 - i mod 8) 1] else bf)"

definition bitfield :: "chunk_store \<Rightarrow> string \<Rightarrow> bytes" where
  "bitfield st fid =
     (case jm_get (cs_files st) fid of None \<Rightarrow> []
      | Some f \<Rightarrow> foldl set_flag (replicate ((fe_nb_chunks f + 7) div 8) 0) (fe_chunks f))"

definition flag_at :: "bytes \<Rightarrow> nat \<Rightarrow> bool" where
  "flag_at bf i = (i div 8 < length bf \<and> bf ! (i div 8) AND push_bit (7 - i mod 8) 1 \<noteq> 0)"

definition parseBitfield :: "bytes \<Rightarrow> nat \<Rightarrow> nat list" where
  "parseBitfield bf n = filter (flag_at bf) [0..<n]"

text \<open>
  \<open>assemble\<close>: the loop writes each chunk to the output and to the hash, and stops at a chunk that cannot
  be read. The second result is what the output file then holds (\<open>None\<close>: it has not been opened).
\<close>

fun assemble_loop :: "(nat \<Rightarrow> bytes res) \<Rightarrow> nat list \<Rightarrow> bytes \<Rightarrow> unit res \<times> bytes" where
  "assemble_loop get [] out = (Inr (), out)"
| "assemble_loop get (i # is) out =
     (case get i of Inl e \<Rightarrow> (Inl e, out) | Inr d \<Rightarrow> assemble_loop get is (out @ d))"

definition assemble :: "crypto \<Rightarrow> chunk_store \<Rightarrow> string \<Rightarrow> string res \<times> bytes option" where
  "assemble C st fid =
     (case jm_get (cs_files st) fid of
        None \<Rightarrow> (Inl FileIncomplete, None)
      | Some f \<Rightarrow>
          if length (fe_chunks f) \<noteq> fe_nb_chunks f then (Inl FileIncomplete, None)
          else
            (case assemble_loop (getChunk st fid) [0..<fe_nb_chunks f] [] of
               (Inl e, out) \<Rightarrow> (Inl e, Some out)
             | (Inr _, out) \<Rightarrow> (Inr (hex_of_bytes (sha256 C out)), Some out)))"

section \<open>The invariant\<close>

text \<open>
  What the index says and what is on disk agree: the saved index is the one in memory, every known file
  has its directory, the chunk numbers of an entry are increasing, and the chunk files on disk are exactly
  the ones listed.
\<close>

definition store_ok :: "chunk_store \<Rightarrow> bool" where
  "store_ok st \<longleftrightarrow>
     jm_ok (cs_files st) \<and> load_index (cs_disk st) = cs_files st \<and>
     (\<forall>f. f \<in> sd_dirs (cs_disk st) \<longleftrightarrow> jm_has (cs_files st) f) \<and>
     (\<forall>f e. jm_get (cs_files st) f = Some e \<longrightarrow> sorted (fe_chunks e) \<and> distinct (fe_chunks e)) \<and>
     (\<forall>f i. sd_chunk (cs_disk st) (f, i) \<noteq> None \<longleftrightarrow> hasChunk st f i)"

definition empty_disk :: store_disk where
  "empty_disk = \<lparr>sd_index = None, sd_dirs = {}, sd_chunk = (\<lambda>_. None)\<rparr>"

lemma store_ok_empty: "store_ok (open_store empty_disk)"
  by (simp add: store_ok_def open_store_def empty_disk_def load_index_def hasChunk_def)

text \<open>Reopening a consistent directory gives the same store.\<close>

lemma store_ok_reopen: "store_ok st \<Longrightarrow> open_store (cs_disk st) = st"
  by (simp add: store_ok_def open_store_def)

lemma jm_ok_set: "jm_ok m \<Longrightarrow> jm_ok (jm_set m k v)"
  by (rule jsm.ok_put)

lemma store_ok_register: "store_ok st \<Longrightarrow> store_ok (store_registerManifest m r st)"
  by (auto simp: store_ok_def store_registerManifest_def save_index_def load_index_def hasChunk_def
      jm_ok_set jm_has_def Let_def split: if_splits option.splits)

lemma sort_snoc: "distinct xs \<Longrightarrow> x \<notin> set xs \<Longrightarrow> sorted (sort (xs @ [x])) \<and> distinct (sort (xs @ [x]))"
  by simp

lemma hasChunk_set:
  "hasChunk (st\<lparr>cs_files := jm_set (cs_files st) f (e\<lparr>fe_chunks := cs\<rparr>)\<rparr>) g i =
     (if g = f then i \<in> set cs else hasChunk st g i)"
  by (simp add: hasChunk_def)

lemma store_ok_put:
  assumes "store_ok st" and "putChunk C fid idx data expected st = (r, st')"
  shows "store_ok st'"
proof (cases "st' = st")
  case False
  then have w: "fid \<in> sd_dirs (cs_disk st)"
    using assms(2) by (auto simp: putChunk_def Let_def split: if_splits)
  then obtain e where e: "jm_get (cs_files st) fid = Some e"
    using assms(1) by (auto simp: store_ok_def jm_has_def)
  have st': "st' = (if idx \<in> set (fe_chunks e) then write_chunk fid idx data st
      else save_index ((write_chunk fid idx data st)\<lparr>cs_files := jm_set (cs_files st) fid
        (e\<lparr>fe_chunks := sort (fe_chunks e @ [idx])\<rparr>)\<rparr>))"
    using assms(2) e w False by (auto simp: putChunk_def Let_def write_chunk_def split: if_splits)
  show ?thesis
    using assms(1) e w unfolding st'
    by (auto simp: store_ok_def write_chunk_def save_index_def load_index_def hasChunk_def jm_ok_set jm_has_def
        split: if_splits option.splits)
qed (simp add: assms(1))

section \<open>What one operation does\<close>

lemma hasChunk_register [simp]: "hasChunk (store_registerManifest m r st) f i = hasChunk st f i"
  by (auto simp: hasChunk_def store_registerManifest_def save_index_def Let_def jm_has_def)

lemma getChunk_register [simp]: "getChunk (store_registerManifest m r st) f i = getChunk st f i"
  by (simp add: getChunk_def store_registerManifest_def save_index_def Let_def)

lemma entry_register:
  "jm_get (cs_files (store_registerManifest m r st)) f =
     (if f = mf_file_id m \<and> jm_get (cs_files st) f = None then
        Some \<lparr>fe_filename = mf_filename m, fe_size = mf_size m, fe_chunk_size = mf_chunk_size m,
          fe_nb_chunks = mf_nb_chunks m, fe_chunks = [], fe_replication = nat_or r 1\<rparr>
      else jm_get (cs_files st) f)"
  by (auto simp: store_registerManifest_def save_index_def Let_def jm_has_def)

text \<open>The outcomes of \<open>putChunk\<close>.\<close>

lemma putChunk_cases:
  assumes "store_ok st"
  obtains
    (mismatch) "expected \<noteq> ''''" "hex_of_bytes (sha256 C d) \<noteq> expected"
      "putChunk C f i d expected st = (Inr (HashMismatch (hex_of_bytes (sha256 C d))), st)"
  | (unknown) "expected = '''' \<or> hex_of_bytes (sha256 C d) = expected" "jm_get (cs_files st) f = None"
      "putChunk C f i d expected st = (Inl NoSuchFile, st)"
  | (stored) e st' where "expected = '''' \<or> hex_of_bytes (sha256 C d) = expected"
      "jm_get (cs_files st) f = Some e"
      "putChunk C f i d expected st = (Inr (PutOk (hex_of_bytes (sha256 C d))), st')"
      "\<And>g j. hasChunk st' g j \<longleftrightarrow> (g, j) = (f, i) \<or> hasChunk st g j"
      "\<And>g j. getChunk st' g j = (if (g, j) = (f, i) then Inr d else getChunk st g j)"
      "\<And>g. map_option fe_nb_chunks (jm_get (cs_files st') g) = map_option fe_nb_chunks (jm_get (cs_files st) g)"
proof -
  have dir: "f \<in> sd_dirs (cs_disk st) \<longleftrightarrow> jm_get (cs_files st) f \<noteq> None"
    using assms by (auto simp: store_ok_def jm_has_def)
  show ?thesis
  proof (cases "expected \<noteq> '''' \<and> hex_of_bytes (sha256 C d) \<noteq> expected")
    case True
    then show ?thesis using mismatch by (simp add: putChunk_def)
  next
    case False
    show ?thesis
    proof (cases "jm_get (cs_files st) f")
      case None
      then show ?thesis using False dir by (intro unknown) (auto simp: putChunk_def Let_def)
    next
      case (Some e)
      let ?st = "snd (putChunk C f i d expected st)"
      have 1: "putChunk C f i d expected st = (Inr (PutOk (hex_of_bytes (sha256 C d))), ?st)"
        using False dir Some by (simp add: putChunk_def Let_def)
      have st: "?st = (if i \<in> set (fe_chunks e) then write_chunk f i d st
          else save_index ((write_chunk f i d st)\<lparr>cs_files := jm_set (cs_files st) f
            (e\<lparr>fe_chunks := sort (fe_chunks e @ [i])\<rparr>)\<rparr>))"
        using False dir Some by (auto simp: putChunk_def Let_def write_chunk_def)
      have "hasChunk ?st g j \<longleftrightarrow> (g, j) = (f, i) \<or> hasChunk st g j" for g j
        using Some unfolding st by (auto simp: hasChunk_def write_chunk_def save_index_def)
      moreover have "getChunk ?st g j = (if (g, j) = (f, i) then Inr d else getChunk st g j)" for g j
        unfolding st by (auto simp: getChunk_def write_chunk_def save_index_def)
      moreover have "map_option fe_nb_chunks (jm_get (cs_files ?st) g) =
          map_option fe_nb_chunks (jm_get (cs_files st) g)" for g
        using Some unfolding st by (auto simp: write_chunk_def save_index_def)
      ultimately show ?thesis using False Some 1 by (rule_tac stored [of e ?st]) auto
    qed
  qed
qed

lemma putChunk_nb:
  assumes "store_ok st" and "putChunk C f i d h st = (r, st')"
  shows "map_option fe_nb_chunks (jm_get (cs_files st') g) = map_option fe_nb_chunks (jm_get (cs_files st) g)"
  using assms(2) by (cases rule: putChunk_cases [OF assms(1), of h C d f i]) simp_all

lemma hasChunk_get: "store_ok st \<Longrightarrow> hasChunk st f i \<Longrightarrow> \<exists>d. getChunk st f i = Inr d"
  unfolding store_ok_def getChunk_def by (metis option.exhaust option.simps(4,5))

section \<open>The interface the transfer relies on\<close>

text \<open>
  A repository of numbered pieces: a piece that is there can be read, and a successful \<open>put\<close> makes that
  piece the one just written and leaves all others alone. \<open>valid H s f\<close> says that every stored piece of
  \<open>f\<close> satisfies \<open>H\<close>; a \<open>put\<close> that only succeeds on such pieces keeps it.
\<close>

locale repository =
  fixes has :: "'s \<Rightarrow> string \<Rightarrow> nat \<Rightarrow> bool"
    and get :: "'s \<Rightarrow> string \<Rightarrow> nat \<Rightarrow> bytes res"
    and put :: "string \<Rightarrow> nat \<Rightarrow> bytes \<Rightarrow> string \<Rightarrow> 's \<Rightarrow> put_result res \<times> 's"
    and ok :: "'s \<Rightarrow> bool"
    and hash :: "bytes \<Rightarrow> string"
  assumes get_has: "ok s \<Longrightarrow> has s f i \<Longrightarrow> \<exists>d. get s f i = Inr d"
    and put_ok: "ok s \<Longrightarrow> put f i d h s = (r, s') \<Longrightarrow> ok s'"
    and put_done: "ok s \<Longrightarrow> put f i d h s = (Inr (PutOk h'), s') \<Longrightarrow>
        (h = '''' \<or> hash d = h) \<and> has s' f i \<and> get s' f i = Inr d \<and>
        (\<forall>g j. (g, j) \<noteq> (f, i) \<longrightarrow> (has s' g j \<longleftrightarrow> has s g j) \<and> get s' g j = get s g j)"
    and put_failed: "ok s \<Longrightarrow> put f i d h s = (r, s') \<Longrightarrow> (\<forall>h'. r \<noteq> Inr (PutOk h')) \<Longrightarrow> s' = s"
begin

definition valid :: "(nat \<Rightarrow> bytes \<Rightarrow> bool) \<Rightarrow> 's \<Rightarrow> string \<Rightarrow> bool" where
  "valid H s f \<longleftrightarrow> (\<forall>i d. has s f i \<longrightarrow> get s f i = Inr d \<longrightarrow> H i d)"

lemma put_other:
  assumes "ok s" and "put f i d h s = (r, s')" and "g \<noteq> f"
  shows "has s' g j = has s g j" and "get s' g j = get s g j"
  using put_done [OF assms(1)] put_failed [OF assms(1,2)] assms(2,3) by (metis prod.inject)+

lemma put_mono:
  assumes "ok s" and "put f i d h s = (r, s')" and "has s g j"
  shows "has s' g j"
  using put_done [OF assms(1)] put_failed [OF assms(1,2)] assms(2,3) by (metis prod.inject)

lemma put_has:
  assumes "ok s" and "put f i d h s = (r, s')" and "has s' g j"
  shows "has s g j \<or> (g, j) = (f, i)"
  using put_done [OF assms(1)] put_failed [OF assms(1,2)] assms(2,3) by metis

lemma valid_put:
  assumes "ok s" and "put f i d h s = (r, s')" and "valid H s g"
    and "g = f \<Longrightarrow> h = '''' \<or> hash d = h \<Longrightarrow> H i d"
  shows "valid H s' g"
proof (cases "\<exists>h'. r = Inr (PutOk h')")
  case True
  then obtain h' where "put f i d h s = (Inr (PutOk h'), s')" using assms(2) by auto
  note p = put_done [OF assms(1) this]
  show ?thesis unfolding valid_def
  proof (intro allI impI)
    fix j x assume a: "has s' g j" "get s' g j = Inr x"
    show "H j x"
    proof (cases "(g, j) = (f, i)")
      case True
      then show ?thesis using a p assms(4) by simp
    next
      case False
      then show ?thesis using a p assms(3) by (simp add: valid_def)
    qed
  qed
next
  case False
  then show ?thesis using put_failed [OF assms(1,2)] assms(3) by simp
qed

end

abbreviation hex_sha :: "crypto \<Rightarrow> bytes \<Rightarrow> string" where
  "hex_sha C d \<equiv> hex_of_bytes (sha256 C d)"

interpretation repo: repository hasChunk getChunk "putChunk C" store_ok "hex_sha C" for C
proof
  fix s f i d h r s'
  show "store_ok s \<Longrightarrow> hasChunk s f i \<Longrightarrow> \<exists>d. getChunk s f i = Inr d" by (rule hasChunk_get)
  show "store_ok s \<Longrightarrow> putChunk C f i d h s = (r, s') \<Longrightarrow> store_ok s'" by (rule store_ok_put)
next
  fix s f i d h h' s'
  assume a: "store_ok s" "putChunk C f i d h s = (Inr (PutOk h'), s')"
  show "(h = '''' \<or> hex_sha C d = h) \<and> hasChunk s' f i \<and> getChunk s' f i = Inr d \<and>
      (\<forall>g j. (g, j) \<noteq> (f, i) \<longrightarrow> (hasChunk s' g j \<longleftrightarrow> hasChunk s g j) \<and> getChunk s' g j = getChunk s g j)"
    using a(2) by (cases rule: putChunk_cases [OF a(1), of h C d f i]) auto
next
  fix s f i d h r s'
  assume a: "store_ok s" "putChunk C f i d h s = (r, s')" "\<forall>h'. r \<noteq> Inr (PutOk h')"
  show "s' = s"
    using a(2,3) by (cases rule: putChunk_cases [OF a(1), of h C d f i]) auto
qed

section \<open>Assembling\<close>

lemma assemble_loop_spec:
  "assemble_loop g is out =
     (let js = takeWhile (\<lambda>i. \<exists>d. g i = Inr d) is; got = out @ concat (map (\<lambda>i. projr (g i)) js) in
      if js = is then (Inr (), got) else (Inl (projl (g (is ! length js))), got))"
proof (induction "is" arbitrary: out)
  case (Cons i "is")
  show ?case
    by (cases "g i") (simp_all add: Cons.IH Let_def)
qed simp

lemma takeWhile_eq_self: "takeWhile P xs = xs \<longleftrightarrow> (\<forall>x \<in> set xs. P x)"
  by (simp add: takeWhile_eq_all_conv)

lemma assemble_all:
  assumes "jm_get (cs_files st) f = Some e" and "length (fe_chunks e) = fe_nb_chunks e"
    and "\<And>i. i < fe_nb_chunks e \<Longrightarrow> getChunk st f i = Inr (p i)"
  shows "assemble C st f =
    (Inr (hex_sha C (concat (map p [0..<fe_nb_chunks e]))), Some (concat (map p [0..<fe_nb_chunks e])))"
proof -
  have t: "takeWhile (\<lambda>i. \<exists>d. getChunk st f i = Inr d) [0..<fe_nb_chunks e] = [0..<fe_nb_chunks e]"
    using assms(3) by (simp add: takeWhile_eq_self)
  have m: "map (\<lambda>i. projr (getChunk st f i)) [0..<fe_nb_chunks e] = map p [0..<fe_nb_chunks e]"
    using assms(3) by simp
  have "assemble_loop (getChunk st f) [0..<fe_nb_chunks e] [] =
      (Inr (), concat (map p [0..<fe_nb_chunks e]))"
    by (simp only: assemble_loop_spec Let_def t m append_Nil if_True simp_thms)
  then show ?thesis using assms(1,2) by (simp add: assemble_def)
qed

section \<open>The specification\<close>

text \<open>
  Abstractly a store is a partial map from file identifiers to a number of chunks and a partial map from
  chunk numbers to contents. The operations below include the restart of the process.
\<close>

type_synonym store_spec = "string \<Rightarrow> (nat \<times> (nat \<Rightarrow> bytes option)) option"

datatype store_op =
    OpRegister manifest "nat option" | OpPut string nat bytes string | OpHas string nat | OpGet string nat
  | OpAvailable string | OpComplete string | OpAssemble string | OpReopen

datatype store_out =
    ODone | OPut "put_result res" | OBool bool | OData "bytes res" | OList "nat list"
  | OFile "string res" "bytes option"

fun store_step :: "crypto \<Rightarrow> store_op \<Rightarrow> chunk_store \<Rightarrow> store_out \<times> chunk_store" where
  "store_step C (OpRegister m r) st = (ODone, store_registerManifest m r st)"
| "store_step C (OpPut f i d h) st = (case putChunk C f i d h st of (r, st) \<Rightarrow> (OPut r, st))"
| "store_step C (OpHas f i) st = (OBool (hasChunk st f i), st)"
| "store_step C (OpGet f i) st = (OData (getChunk st f i), st)"
| "store_step C (OpAvailable f) st = (OList (availableChunks st f), st)"
| "store_step C (OpComplete f) st = (OBool (isComplete st f), st)"
| "store_step C (OpAssemble f) st = (case assemble C st f of (r, out) \<Rightarrow> (OFile r out, st))"
| "store_step C OpReopen st = (ODone, open_store (cs_disk st))"

fun spec_step :: "crypto \<Rightarrow> store_op \<Rightarrow> store_spec \<Rightarrow> store_out \<times> store_spec" where
  "spec_step C (OpRegister m r) A =
     (ODone, if A (mf_file_id m) = None then A(mf_file_id m \<mapsto> (mf_nb_chunks m, \<lambda>_. None)) else A)"
| "spec_step C (OpPut f i d h) A =
     (if h \<noteq> '''' \<and> hex_sha C d \<noteq> h then (OPut (Inr (HashMismatch (hex_sha C d))), A)
      else case A f of None \<Rightarrow> (OPut (Inl NoSuchFile), A)
      | Some (n, p) \<Rightarrow> (OPut (Inr (PutOk (hex_sha C d))), A(f \<mapsto> (n, p(i \<mapsto> d)))))"
| "spec_step C (OpHas f i) A =
     (OBool (case A f of None \<Rightarrow> False | Some (n, p) \<Rightarrow> p i \<noteq> None), A)"
| "spec_step C (OpGet f i) A =
     (OData (case A f of None \<Rightarrow> Inl NoSuchFile
             | Some (n, p) \<Rightarrow> (case p i of None \<Rightarrow> Inl NoSuchFile | Some d \<Rightarrow> Inr d)), A)"
| "spec_step C (OpAvailable f) A =
     (OList (case A f of None \<Rightarrow> [] | Some (n, p) \<Rightarrow> sorted_list_of_set (dom p)), A)"
| "spec_step C (OpComplete f) A =
     (OBool (case A f of None \<Rightarrow> False | Some (n, p) \<Rightarrow> card (dom p) = n), A)"
| "spec_step C (OpAssemble f) A =
     (case A f of None \<Rightarrow> OFile (Inl FileIncomplete) None
      | Some (n, p) \<Rightarrow>
          if card (dom p) \<noteq> n then OFile (Inl FileIncomplete) None
          else
            (let js = takeWhile (\<lambda>i. p i \<noteq> None) [0..<n]; out = concat (map (\<lambda>i. the (p i)) js) in
             OFile (if length js = n then Inr (hex_sha C out) else Inl NoSuchFile) (Some out)), A)"
| "spec_step C OpReopen A = (ODone, A)"

fun store_run :: "crypto \<Rightarrow> store_op list \<Rightarrow> chunk_store \<Rightarrow> store_out list \<times> chunk_store" where
  "store_run C [] st = ([], st)"
| "store_run C (x # ops) st =
     (case store_step C x st of (r, st) \<Rightarrow> case store_run C ops st of (rs, st) \<Rightarrow> (r # rs, st))"

fun spec_run :: "crypto \<Rightarrow> store_op list \<Rightarrow> store_spec \<Rightarrow> store_out list \<times> store_spec" where
  "spec_run C [] A = ([], A)"
| "spec_run C (x # ops) A =
     (case spec_step C x A of (r, A) \<Rightarrow> case spec_run C ops A of (rs, A) \<Rightarrow> (r # rs, A))"

definition abs_store :: "chunk_store \<Rightarrow> store_spec" where
  "abs_store st f =
     map_option (\<lambda>e. (fe_nb_chunks e, \<lambda>i. sd_chunk (cs_disk st) (f, i))) (jm_get (cs_files st) f)"

lemma dom_chunks:
  assumes "store_ok st" and "jm_get (cs_files st) f = Some e"
  shows "dom (\<lambda>i. sd_chunk (cs_disk st) (f, i)) = set (fe_chunks e)"
  using assms by (auto simp: store_ok_def hasChunk_def dom_def)

lemma entry_chunks:
  assumes "store_ok st" and "jm_get (cs_files st) f = Some e"
  shows "sorted (fe_chunks e)" and "distinct (fe_chunks e)"
  using assms by (auto simp: store_ok_def)

lemma unknown_get: "store_ok st \<Longrightarrow> jm_get (cs_files st) f = None \<Longrightarrow> getChunk st f i = Inl NoSuchFile"
  unfolding store_ok_def getChunk_def hasChunk_def by (metis option.exhaust option.simps(4))

lemma unknown_chunk: "store_ok st \<Longrightarrow> jm_get (cs_files st) f = None \<Longrightarrow> sd_chunk (cs_disk st) (f, i) = None"
  using unknown_get [of st f i] by (simp add: getChunk_def split: option.splits)

lemma abs_store_cong:
  assumes "\<And>g. map_option fe_nb_chunks (jm_get (cs_files s) g) = map_option fe_nb_chunks (jm_get (cs_files t) g)"
    and "\<And>g i. jm_get (cs_files t) g \<noteq> None \<Longrightarrow> sd_chunk (cs_disk s) (g, i) = sd_chunk (cs_disk t) (g, i)"
  shows "abs_store s = abs_store t"
proof
  fix g
  show "abs_store s g = abs_store t g"
    using assms(1) [of g] assms(2) [of g]
    by (cases "jm_get (cs_files s) g"; cases "jm_get (cs_files t) g") (auto simp: abs_store_def)
qed

lemma getChunk_eq: "getChunk s g i = getChunk t g i \<longleftrightarrow> sd_chunk (cs_disk s) (g, i) = sd_chunk (cs_disk t) (g, i)"
  by (auto simp: getChunk_def split: option.splits)

lemma chunk_of_get: "getChunk s g i = Inr d \<longleftrightarrow> sd_chunk (cs_disk s) (g, i) = Some d"
  by (auto simp: getChunk_def split: option.splits)

lemma refine_register:
  assumes "store_ok st"
  shows "spec_step C (OpRegister m r) (abs_store st) = (ODone, abs_store (store_registerManifest m r st))"
proof -
  let ?st = "store_registerManifest m r st" and ?f = "mf_file_id m"
  have d: "sd_chunk (cs_disk ?st) = sd_chunk (cs_disk st)"
    by (simp add: store_registerManifest_def save_index_def Let_def)
  have "abs_store ?st g = (if abs_store st ?f = None then (abs_store st)(?f \<mapsto> (mf_nb_chunks m, \<lambda>_. None))
      else abs_store st) g" for g
    using unknown_chunk [OF assms, of ?f]
    by (auto simp: abs_store_def entry_register d fun_eq_iff)
  then have "abs_store ?st = (if abs_store st ?f = None then (abs_store st)(?f \<mapsto> (mf_nb_chunks m, \<lambda>_. None))
      else abs_store st)" by (rule ext)
  then show ?thesis by simp
qed

lemma refine_put:
  assumes "store_ok st" and "putChunk C f i d h st = (r, st')"
  shows "spec_step C (OpPut f i d h) (abs_store st) = (OPut r, abs_store st')"
proof (rule putChunk_cases [OF assms(1), of h C d f i])
  assume a: "h = [] \<or> hex_sha C d = h" "jm_get (cs_files st) f = None" "putChunk C f i d h st = (Inl NoSuchFile, st)"
  then show ?thesis using assms(2) by (auto simp: abs_store_def)
next
  fix e s
  assume a: "h = [] \<or> hex_sha C d = h" "jm_get (cs_files st) f = Some e"
    "putChunk C f i d h st = (Inr (PutOk (hex_sha C d)), s)"
    and g: "\<And>g j. getChunk s g j = (if (g, j) = (f, i) then Inr d else getChunk st g j)"
    and n: "\<And>g. map_option fe_nb_chunks (jm_get (cs_files s) g) = map_option fe_nb_chunks (jm_get (cs_files st) g)"
  have r: "r = Inr (PutOk (hex_sha C d))" "st' = s" using a assms(2) by auto
  have c: "sd_chunk (cs_disk s) (k, j) = (if (k, j) = (f, i) then Some d else sd_chunk (cs_disk st) (k, j))" for k j
    using g [of k j] chunk_of_get [of s k j d] getChunk_eq [of s k j st] by (cases "(k, j) = (f, i)") auto
  have "abs_store s k = ((abs_store st)(f \<mapsto> (fe_nb_chunks e, (\<lambda>j. sd_chunk (cs_disk st) (f, j))(i \<mapsto> d)))) k" for k
    using n [of k] a(2) by (cases "jm_get (cs_files s) k"; cases "jm_get (cs_files st) k")
      (auto simp: abs_store_def c fun_eq_iff)
  then have "abs_store s = (abs_store st)(f \<mapsto> (fe_nb_chunks e, (\<lambda>j. sd_chunk (cs_disk st) (f, j))(i \<mapsto> d)))"
    by (rule ext)
  then show ?thesis using a r by (simp add: abs_store_def)
qed (use assms(2) in simp)

lemma refine_assemble:
  assumes "store_ok st" and "assemble C st f = (r, out)"
  shows "spec_step C (OpAssemble f) (abs_store st) = (OFile r out, abs_store st)"
proof (cases "jm_get (cs_files st) f")
  case None
  then show ?thesis using assms(2) by (auto simp: assemble_def abs_store_def)
next
  case (Some e)
  let ?p = "\<lambda>i. sd_chunk (cs_disk st) (f, i)"
  let ?js = "takeWhile (\<lambda>i. ?p i \<noteq> None) [0..<fe_nb_chunks e]"
  have c: "card (dom ?p) = length (fe_chunks e)"
    using dom_chunks [OF assms(1) Some] entry_chunks(2) [OF assms(1) Some] by (simp add: distinct_card)
  have t: "takeWhile (\<lambda>i. \<exists>d. getChunk st f i = Inr d) [0..<fe_nb_chunks e] = ?js"
    by (simp add: chunk_of_get)
  have m: "map (\<lambda>i. projr (getChunk st f i)) ?js = map (\<lambda>i. the (?p i)) ?js"
    by (auto dest!: set_takeWhileD simp: getChunk_def)
  have len: "length ?js = fe_nb_chunks e \<longleftrightarrow> ?js = [0..<fe_nb_chunks e]"
    by (metis diff_zero length_upt takeWhile_eq_take take_all_iff order_refl)
  show ?thesis
  proof (cases "length (fe_chunks e) = fe_nb_chunks e")
    case False
    then show ?thesis using assms(2) Some c by (auto simp: assemble_def abs_store_def)
  next
    case True
    have "?js \<noteq> [0..<fe_nb_chunks e] \<Longrightarrow> projl (getChunk st f ([0..<fe_nb_chunks e] ! length ?js)) = NoSuchFile"
    proof -
      assume "?js \<noteq> [0..<fe_nb_chunks e]"
      then have "length ?js < length [0..<fe_nb_chunks e]"
        using len length_takeWhile_le [of "\<lambda>i. ?p i \<noteq> None" "[0..<fe_nb_chunks e]"]
        by (metis diff_zero le_neq_implies_less length_upt)
      from nth_length_takeWhile [OF this] show ?thesis by (simp add: getChunk_def)
    qed
    then have "assemble_loop (getChunk st f) [0..<fe_nb_chunks e] [] =
        (if length ?js = fe_nb_chunks e then Inr () else Inl NoSuchFile, concat (map (\<lambda>i. the (?p i)) ?js))"
      unfolding assemble_loop_spec Let_def t m len by simp
    then show ?thesis using assms(2) Some c True by (auto simp: assemble_def abs_store_def Let_def split: if_splits)
  qed
qed

lemma store_step_refines:
  assumes "store_ok st" and "store_step C x st = (r, st')"
  shows "spec_step C x (abs_store st) = (r, abs_store st') \<and> store_ok st'"
proof (cases x)
  case (OpRegister m rep)
  then show ?thesis using assms refine_register store_ok_register by fastforce
next
  case (OpPut f i d h)
  then show ?thesis using assms refine_put store_ok_put by (fastforce split: prod.splits)
next
  case (OpHas f i)
  then show ?thesis using assms
    by (cases "jm_get (cs_files st) f") (auto simp: abs_store_def hasChunk_def store_ok_def)
next
  case (OpGet f i)
  then show ?thesis using assms unknown_get
    by (cases "jm_get (cs_files st) f") (auto simp: abs_store_def getChunk_def)
next
  case (OpAvailable f)
  then show ?thesis using assms dom_chunks entry_chunks
    by (cases "jm_get (cs_files st) f") (auto simp: abs_store_def availableChunks_def sorted_list_of_set.idem_if_sorted_distinct)
next
  case (OpComplete f)
  then show ?thesis using assms dom_chunks [OF assms(1), of f] entry_chunks [OF assms(1), of f]
    by (cases "jm_get (cs_files st) f") (auto simp: abs_store_def isComplete_def distinct_card)
next
  case (OpAssemble f)
  then show ?thesis using assms refine_assemble by (fastforce split: prod.splits)
next
  case OpReopen
  then show ?thesis using assms store_ok_reopen by simp
qed

lemma store_run_refines:
  assumes "store_ok st" and "store_run C ops st = (outs, st')"
  shows "spec_run C ops (abs_store st) = (outs, abs_store st') \<and> store_ok st'"
  using assms
proof (induction ops arbitrary: st outs)
  case (Cons x ops)
  obtain r s rs where 1: "store_step C x st = (r, s)" and 2: "store_run C ops s = (rs, st')" and o: "outs = r # rs"
    using Cons.prems(2) by (auto split: prod.splits)
  note step = store_step_refines [OF Cons.prems(1) 1]
  with Cons.IH [OF _ 2] o show ?case by simp
qed simp

section \<open>The bit field\<close>

lemma flag_at_set:
  assumes "i div 8 < length bf"
  shows "flag_at (set_flag bf i) j \<longleftrightarrow> j = i \<or> flag_at bf j"
proof -
  have b: "flag_at b k \<longleftrightarrow> k div 8 < length b \<and> bit (b ! (k div 8)) (7 - k mod 8)" for b k
    by (simp add: flag_at_def bit_iff_and_push_bit_not_eq_0)
  have k: "7 - i mod 8 < 8" by simp
  show ?thesis
  proof (cases "j div 8 = i div 8")
    case True
    have "j mod 8 < 8" "i mod 8 < 8" "j = j div 8 * 8 + j mod 8" "i = i div 8 * 8 + i mod 8" by simp_all
    with True have "7 - j mod 8 = 7 - i mod 8 \<longleftrightarrow> j = i" by linarith
    then show ?thesis using True assms k
      by (auto simp: b set_flag_def bit_or_iff bit_exp_iff)
  next
    case False
    then show ?thesis using assms by (auto simp: b set_flag_def)
  qed
qed

lemma length_set_flag [simp]: "length (set_flag bf i) = length bf"
  by (simp add: set_flag_def)

lemma flag_at_foldl:
  "\<forall>i \<in> set is. i div 8 < length bf \<Longrightarrow> flag_at (foldl set_flag bf is) j \<longleftrightarrow> j \<in> set is \<or> flag_at bf j"
  by (induction "is" arbitrary: bf) (auto simp: flag_at_set)

lemma flag_at_zero: "\<not> flag_at (replicate n 0) j"
  by (simp add: flag_at_def)

lemma sorted_filter_upt:
  assumes "sorted xs" and "distinct xs" and "\<forall>x \<in> set xs. x < n"
  shows "filter (\<lambda>i. i \<in> set xs) [0..<n] = xs"
  using assms sorted_filter [of id "[0..<n]"] by (intro sorted_distinct_set_unique) (auto simp: id_def)

section \<open>Properties\<close>

text \<open>C17. The store implements its specification: from a consistent store (in particular a new one), every
  sequence of registrations, writes, queries, assemblies and restarts of the process gives exactly the
  answers of a partial map from file identifiers to chunk contents, the sorted index list and the files on
  disk being a representation of it. In particular nothing is lost by a restart, and an assembled file is
  the concatenation of the chunks \<open>0, 1, ...\<close> in that order.\<close>

theorem store_refines:
  assumes "store_ok st" and "store_run C ops st = (outs, st')"
  shows "spec_run C ops (abs_store st) = (outs, abs_store st') \<and> store_ok st' \<and> open_store (cs_disk st') = st'"
  using store_run_refines [OF assms] store_ok_reopen by simp

theorem store_refines_witness:
  "\<exists>outs st'. store_run demo_crypto [OpPut ''f'' 0 [1] '''', OpComplete ''f'', OpReopen] (open_store empty_disk) = (outs, st') \<and>
    outs = [OPut (Inl NoSuchFile), OBool False, ODone]"
proof -
  obtain outs st' where r: "store_run demo_crypto [OpPut ''f'' 0 [1] '''', OpComplete ''f'', OpReopen]
      (open_store empty_disk) = (outs, st')" by fastforce
  from store_refines [OF store_ok_empty r]
  have "outs = [OPut (Inl NoSuchFile), OBool False, ODone]"
    by (simp add: abs_store_def open_store_def load_index_def empty_disk_def)
  with r show ?thesis by blast
qed

text \<open>The announced bit field means what the store holds: for a file whose chunk numbers are below
  its chunk count, parsing its bit field gives back the list of its chunks. Whatever bytes a peer
  announces, parsing yields increasing numbers below the given count, at most one per bit received.\<close>

theorem bitfield_roundtrip:
  assumes "store_ok st" and "jm_get (cs_files st) f = Some e" and "\<forall>i \<in> set (fe_chunks e). i < fe_nb_chunks e"
  shows "parseBitfield (bitfield st f) (fe_nb_chunks e) = availableChunks st f \<and>
    length (bitfield st f) = (fe_nb_chunks e + 7) div 8 \<and>
    sorted (parseBitfield b n) \<and> distinct (parseBitfield b n) \<and>
    (\<forall>i \<in> set (parseBitfield b n). i < n \<and> i < 8 * length b)"
proof -
  let ?n = "fe_nb_chunks e" and ?z = "replicate ((fe_nb_chunks e + 7) div 8) (0 :: byte)"
  have "\<forall>i \<in> set (fe_chunks e). i div 8 < length ?z" using assms(3) by auto
  then have fl: "flag_at (foldl set_flag ?z (fe_chunks e)) = (\<lambda>i. i \<in> set (fe_chunks e))"
    by (simp add: fun_eq_iff flag_at_foldl flag_at_zero)
  have "parseBitfield (bitfield st f) ?n = filter (\<lambda>i. i \<in> set (fe_chunks e)) [0..<?n]"
    using assms(2) by (simp add: parseBitfield_def bitfield_def fl)
  also have "\<dots> = fe_chunks e"
    using entry_chunks [OF assms(1,2)] assms(3) by (intro sorted_filter_upt)
  finally have 1: "parseBitfield (bitfield st f) ?n = availableChunks st f"
    using assms(2) by (simp add: availableChunks_def)
  have "length (foldl set_flag b is) = length b" for b "is"
    by (induction "is" arbitrary: b) simp_all
  then have 2: "length (bitfield st f) = (?n + 7) div 8" using assms(2) by (simp add: bitfield_def)
  have "sorted (parseBitfield b n)" "distinct (parseBitfield b n)"
    using sorted_filter [of id "[0..<n]"] by (simp_all add: parseBitfield_def id_def)
  moreover have "\<forall>i \<in> set (parseBitfield b n). i < n \<and> i < 8 * length b"
    by (auto simp: parseBitfield_def flag_at_def less_mult_imp_div_less div_less_iff_less_mult mult.commute)
  ultimately show ?thesis using 1 2 by simp
qed

definition demo_manifest :: manifest where
  "demo_manifest = \<lparr>mf_file_id = ''f'', mf_filename = ''a'', mf_size = 3, mf_chunk_size = 2, mf_nb_chunks = 2,
     mf_chunks = [\<lparr>ci_index = 0, ci_hash = hex_sha demo_crypto [1, 2], ci_size = 2\<rparr>,
                  \<lparr>ci_index = 1, ci_hash = hex_sha demo_crypto [3], ci_size = 1\<rparr>],
     mf_sender_id = '''', mf_signature = ''''\<rparr>"

theorem bitfield_roundtrip_witness:
  "parseBitfield (bitfield (store_registerManifest demo_manifest None (open_store empty_disk)) ''f'') 2 = []"
proof -
  let ?st = "store_registerManifest demo_manifest None (open_store empty_disk)"
  have g: "jm_get (cs_files ?st) ''f'' = Some \<lparr>fe_filename = ''a'', fe_size = 3, fe_chunk_size = 2,
      fe_nb_chunks = 2, fe_chunks = [], fe_replication = 1\<rparr>"
    by (simp add: entry_register) (simp add: demo_manifest_def open_store_def empty_disk_def load_index_def nat_or_def)
  from bitfield_roundtrip [OF store_ok_register [OF store_ok_empty] this]
  have "parseBitfield (bitfield ?st ''f'') 2 = availableChunks ?st ''f''" by simp
  then show ?thesis using g by (simp add: availableChunks_def)
qed

text \<open>Writing a chunk, on every branch: data whose hash is not the expected one is refused and changes
  nothing; a chunk of an unknown file throws and changes nothing; otherwise the chunk is there, reads back
  as written, and every other chunk of every file is as before, on disk as in the index.\<close>

theorem put_outcomes:
  assumes "store_ok st"
  shows "(h \<noteq> '''' \<and> hex_sha C d \<noteq> h \<longrightarrow> putChunk C f i d h st = (Inr (HashMismatch (hex_sha C d)), st)) \<and>
    ((h = '''' \<or> hex_sha C d = h) \<and> jm_get (cs_files st) f = None \<longrightarrow> putChunk C f i d h st = (Inl NoSuchFile, st)) \<and>
    ((h = '''' \<or> hex_sha C d = h) \<and> jm_get (cs_files st) f \<noteq> None \<longrightarrow>
      (\<exists>st'. putChunk C f i d h st = (Inr (PutOk (hex_sha C d)), st') \<and> store_ok st' \<and>
        hasChunk st' f i \<and> getChunk st' f i = Inr d \<and>
        (\<forall>g j. (g, j) \<noteq> (f, i) \<longrightarrow> hasChunk st' g j = hasChunk st g j \<and> getChunk st' g j = getChunk st g j)))"
  by (rule putChunk_cases [OF assms, of h C d f i]) (auto dest: store_ok_put [OF assms])

theorem put_outcomes_witness:
  "putChunk demo_crypto ''f'' 0 [1] '''' (open_store empty_disk) = (Inl NoSuchFile, open_store empty_disk)"
  using put_outcomes [OF store_ok_empty, of "''''" demo_crypto "[1]" "''f''" 0]
  by (simp add: open_store_def empty_disk_def load_index_def)

end
