(* ===== verification/FileProtocol.thy ===== *)
theory FileProtocol
  imports ChunkStore
begin

text \<open>
  \<open>src/file/protocol.js\<close>: the messages of the file transfer.

  A file identifier is the hexadecimal string of 32 bytes; \<open>idBuf\<close> turns it into bytes. \<open>JSON.parse\<close> of the
  text of a manifest is the argument \<open>J\<close>: the manifest, or the error it throws (texts of values that are no
  manifest are outside the model, see \<open>Manifest\<close>). What is used of it is the round trip
  \<open>J (text_bytes (manifest_text m)) = Inr m\<close>.
\<close>

section \<open>Messages\<close>

definition T_MANIFEST :: byte where "T_MANIFEST = 0x10"
definition T_CHUNK_REQ :: byte where "T_CHUNK_REQ = 0x11"
definition T_CHUNK_DATA :: byte where "T_CHUNK_DATA = 0x12"
definition T_ACK :: byte where "T_ACK = 0x13"
definition T_HAVE :: byte where "T_HAVE = 0x14"
definition T_HAVE_PIECE :: byte where "T_HAVE_PIECE = 0x15"

lemmas T_defs = T_MANIFEST_def T_CHUNK_REQ_def T_CHUNK_DATA_def T_ACK_def T_HAVE_def T_HAVE_PIECE_def

definition ACK_OK :: byte where "ACK_OK = 0x00"
definition ACK_HASH_MISMATCH :: byte where "ACK_HASH_MISMATCH = 0x01"
definition ACK_NOT_FOUND :: byte where "ACK_NOT_FOUND = 0x02"

datatype file_msg =
    MManifest manifest
  | MHave string bytes
  | MHavePiece string nat
  | MChunkReq string nat
  | MChunkData string nat bytes bytes bytes
  | MAck nat "byte option"

definition manifest_text :: "manifest \<Rightarrow> string" where
  "manifest_text m = butlast (manifest_json m) @
     '','' @ json_string ''signature'' @ '':'' @ json_string (mf_signature m) @ ''}''"

definition idBuf :: "string \<Rightarrow> bytes" where
  "idBuf fileId = bytes_of_hex fileId"

definition encManifest :: "manifest \<Rightarrow> bytes" where
  "encManifest m = [T_MANIFEST] @ text_bytes (manifest_text m)"

definition encHave :: "string \<Rightarrow> bytes \<Rightarrow> bytes" where
  "encHave fileId bits = [T_HAVE] @ idBuf fileId @ bits"

definition encHavePiece :: "string \<Rightarrow> nat \<Rightarrow> bytes res" where
  "encHavePiece fileId idx = bind_res (writeUInt32BE idx) (\<lambda>b. Inr ([T_HAVE_PIECE] @ idBuf fileId @ b))"

definition encChunkReq :: "string \<Rightarrow> nat \<Rightarrow> bytes res" where
  "encChunkReq fileId idx = bind_res (writeUInt32BE idx) (\<lambda>b. Inr ([T_CHUNK_REQ] @ idBuf fileId @ b))"

definition encChunkData :: "string \<Rightarrow> nat \<Rightarrow> bytes \<Rightarrow> bytes \<Rightarrow> bytes \<Rightarrow> bytes res" where
  "encChunkData fileId idx chunkHash signature data =
     bind_res (writeUInt32BE idx) (\<lambda>b. Inr ([T_CHUNK_DATA] @ idBuf fileId @ b @ chunkHash @ signature @ data))"

definition encAck :: "nat \<Rightarrow> byte \<Rightarrow> bytes res" where
  "encAck idx status = bind_res (writeUInt32BE idx) (\<lambda>b. Inr ([T_ACK] @ b @ [status]))"

definition decode :: "(bytes \<Rightarrow> manifest res) \<Rightarrow> bytes \<Rightarrow> file_msg res" where
  "decode J buf =
     (if length buf < 1 then Inl EmptyMessage
      else
        (let type = buf ! 0; p = drop 1 buf; fileId = hex_of_bytes (subarray p 0 32) in
         if type = T_MANIFEST then bind_res (J p) (\<lambda>m. Inr (MManifest m))
         else if type = T_HAVE then Inr (MHave fileId (drop 32 p))
         else if type = T_HAVE_PIECE then bind_res (readUInt32BE p 32) (\<lambda>i. Inr (MHavePiece fileId i))
         else if type = T_CHUNK_REQ then bind_res (readUInt32BE p 32) (\<lambda>i. Inr (MChunkReq fileId i))
         else if type = T_CHUNK_DATA then
           bind_res (readUInt32BE p 32) (\<lambda>i.
             Inr (MChunkData fileId i (subarray p 36 68) (subarray p 68 132) (drop 132 p)))
         else if type = T_ACK then
           bind_res (readUInt32BE p 0) (\<lambda>i. Inr (MAck i (if 4 < length p then Some (p ! 4) else None)))
         else Inl (UnknownFileMessage (unat type))))"

text \<open>What a sender writes for a message.\<close>

fun encode :: "file_msg \<Rightarrow> bytes res" where
  "encode (MManifest m) = Inr (encManifest m)"
| "encode (MHave f b) = Inr (encHave f b)"
| "encode (MHavePiece f i) = encHavePiece f i"
| "encode (MChunkReq f i) = encChunkReq f i"
| "encode (MChunkData f i h s d) = encChunkData f i h s d"
| "encode (MAck i st) = encAck i (case st of None \<Rightarrow> 0 | Some b \<Rightarrow> b)"

text \<open>The messages whose parts have the sizes that the layout fixes.\<close>

definition file_id_ok :: "string \<Rightarrow> bool" where
  "file_id_ok f \<longleftrightarrow> (\<exists>b. length b = 32 \<and> f = hex_of_bytes b)"

fun msg_ok :: "(bytes \<Rightarrow> manifest res) \<Rightarrow> file_msg \<Rightarrow> bool" where
  "msg_ok J (MManifest m) \<longleftrightarrow> J (text_bytes (manifest_text m)) = Inr m"
| "msg_ok J (MHave f b) \<longleftrightarrow> file_id_ok f"
| "msg_ok J (MHavePiece f i) \<longleftrightarrow> file_id_ok f \<and> i < 2 ^ 32"
| "msg_ok J (MChunkReq f i) \<longleftrightarrow> file_id_ok f \<and> i < 2 ^ 32"
| "msg_ok J (MChunkData f i h s d) \<longleftrightarrow> file_id_ok f \<and> i < 2 ^ 32 \<and> length h = 32 \<and> length s = 64"
| "msg_ok J (MAck i st) \<longleftrightarrow> i < 2 ^ 32 \<and> st \<noteq> None"

lemma file_id_okD: "file_id_ok f \<Longrightarrow> length (idBuf f) = 32 \<and> hex_of_bytes (idBuf f) = f"
  by (auto simp: file_id_ok_def idBuf_def)

lemma read_be32: "i < 2 ^ 32 \<Longrightarrow> length a = n \<Longrightarrow> readUInt32BE (a @ be_bytes 4 i @ b) n = Inr i"
  using read_write32 [of i "be_bytes 4 i" a b] by (auto simp: writeUInt32BE_def)

lemma read_be32_end: "i < 4294967296 \<Longrightarrow> length a = n \<Longrightarrow> readUInt32BE (a @ be_bytes 4 i) n = Inr i"
  using read_be32 [of i a n "[]"] by simp

lemma read_be32_start: "i < 4294967296 \<Longrightarrow> readUInt32BE (be_bytes 4 i @ b) 0 = Inr i"
  using read_be32 [of i "[]" 0 b] by simp

lemma write_be32: "i < 2 ^ 32 \<Longrightarrow> writeUInt32BE i = Inr (be_bytes 4 i)"
  by (simp add: writeUInt32BE_def)

lemma decode_encode: "msg_ok J m \<Longrightarrow> \<exists>w. encode m = Inr w \<and> decode J w = Inr m"
proof (cases m)
  case (MChunkData f i h s d)
  assume "msg_ok J m"
  then have f: "length (idBuf f) = 32" "hex_of_bytes (idBuf f) = f" and i: "i < 2 ^ 32"
    and l: "length h = 32" "length s = 64"
    using MChunkData file_id_okD by auto
  let ?p = "idBuf f @ be_bytes 4 i @ h @ s @ d"
  have "subarray ?p 36 68 = h" "subarray ?p 68 132 = s" "drop 132 ?p = d"
    using f l by (simp_all add: subarray_append_right subarray_append_left subarray_def)
  then show ?thesis
    using MChunkData f i read_be32 [OF i f(1), of "h @ s @ d"]
    by (simp add: encChunkData_def write_be32 decode_def T_defs Let_def)
qed (auto simp: encManifest_def encHave_def encHavePiece_def encChunkReq_def encAck_def write_be32 decode_def
    T_defs Let_def read_be32_end read_be32_start nth_append dest!: file_id_okD split: option.splits)

section \<open>Properties\<close>

text \<open>Every message of the transfer protocol round-trips: what one node writes for it, another reads as
  the same message, whatever the sizes of the bit field or of the chunk.\<close>

theorem file_message_roundtrip:
  assumes "msg_ok J m"
  shows "\<exists>w. encode m = Inr w \<and> decode J w = Inr m"
  using decode_encode [OF assms] .

theorem file_message_roundtrip_witness:
  "\<exists>w. encode (MManifest demo_manifest) = Inr w \<and>
    decode (\<lambda>b. if b = text_bytes (manifest_text demo_manifest) then Inr demo_manifest else Inl JsonSyntax) w =
      Inr (MManifest demo_manifest)"
  by (rule file_message_roundtrip) simp



end
