(* ===== verification/FileNode.thy ===== *)
theory FileNode
  imports FileProtocol
begin

text \<open>
  \<open>src/file/fileNode.js\<close>: serving chunks and downloading a file from several peers.

  A session object is the pair of its authenticated peer identity and of the key \<open>attachSession\<close> has given
  it (\<open>_peerHex\<close>). The node is the record \<open>file_node\<close>; what it sends, emits and resolves is appended to
  \<open>fn_out\<close>. A message is recorded by its content; the bytes on the wire are \<open>encode\<close> of it, and whether the
  session still accepts them does not matter to the node (\<open>_safeSend\<close>). Timers are operations of their own.
  The order in which equally rare chunks are requested is random in the code: \<open>mix f\<close> is the order in which
  one call looks at the candidates of \<open>f\<close> before the stable sort. A JavaScript \<open>Set\<close> is a list without
  duplicates.
\<close>

section \<open>State\<close>

record fsession =
  fs_peerId :: bytes
  fs_peerHex :: string

type_synonym mixer = "string \<Rightarrow> nat list \<Rightarrow> nat list"

record download =
  dl_manifest :: manifest
  dl_outPath :: string
  dl_needed :: "nat list"
  dl_inFlight :: "(nat, string) jsmap"
  dl_badPeers :: "(nat, string list) jsmap"
  dl_parallel :: nat
  dl_done :: bool
  dl_received :: int
  dl_tick :: bool

datatype fn_effect =
    FSend string file_msg
  | FManifest manifest | FProgress string nat int nat | FCorrupt string nat string | FPeerClose string
  | FError error
  | FWrote string string bytes       \<comment> \<open>for the download of a file: path and contents of the output\<close>
  | FResolved string string bool     \<comment> \<open>file, its hash, whether the hash is the identifier\<close>
  | FRejected string error

record file_node =
  fn_store :: chunk_store
  fn_parallel :: nat
  fn_sessions :: "(string, bytes) jsmap"
  fn_manifests :: "(string, manifest) jsmap"
  fn_downloads :: "(string, download) jsmap"
  fn_peerHave :: "(string, (string, nat list) jsmap) jsmap"
  fn_seq :: nat
  fn_out :: "fn_effect list"

definition new_file_node :: "chunk_store \<Rightarrow> nat \<Rightarrow> file_node" where
  "new_file_node st parallel =
     \<lparr>fn_store = st, fn_parallel = parallel, fn_sessions = [], fn_manifests = [], fn_downloads = [],
      fn_peerHave = [], fn_seq = 0, fn_out = []\<rparr>"

definition fn_emit :: "fn_effect list \<Rightarrow> file_node \<Rightarrow> file_node" where
  "fn_emit es n = n\<lparr>fn_out := fn_out n @ es\<rparr>"

definition to_all :: "file_node \<Rightarrow> file_msg list \<Rightarrow> fn_effect list" where
  "to_all n ms = concat (map (\<lambda>k. map (FSend k) ms) (jm_keys (fn_sessions n)))"

definition set_add :: "'a list \<Rightarrow> 'a \<Rightarrow> 'a list" where
  "set_add xs x = (if x \<in> set xs then xs else xs @ [x])"

definition chunkSigMessage :: "string \<Rightarrow> nat \<Rightarrow> bytes \<Rightarrow> bytes res" where
  "chunkSigMessage fileIdHex idx chunkHash =
     bind_res (writeUInt32BE idx) (\<lambda>b. Inr (bytes_of_hex fileIdHex @ b @ chunkHash))"

section \<open>Sessions, manifests, seeding\<close>

definition session_key :: "bytes \<Rightarrow> nat \<Rightarrow> string" where
  "session_key peerId n = hex_of_bytes peerId @ ''#'' @ decimal n"

definition announce_file :: "file_node \<Rightarrow> string \<Rightarrow> string \<Rightarrow> fn_effect list" where
  "announce_file n k f =
     (case jm_get (fn_manifests n) f of None \<Rightarrow> [] | Some m \<Rightarrow> [FSend k (MManifest m)]) @
     [FSend k (MHave f (bitfield (fn_store n) f))]"

definition attachSession :: "bytes \<Rightarrow> file_node \<Rightarrow> string \<times> file_node" where
  "attachSession peerId n =
     (let k = session_key peerId (fn_seq n + 1);
          n = n\<lparr>fn_seq := fn_seq n + 1, fn_sessions := jm_set (fn_sessions n) k peerId,
                fn_peerHave := jm_set (fn_peerHave n) k
                  (case jm_get (fn_peerHave n) k of None \<Rightarrow> [] | Some h \<Rightarrow> h)\<rparr>
      in (k, fn_emit (concat (map (announce_file n k) (jm_keys (cs_files (fn_store n))))) n))"

definition fn_registerManifest :: "manifest \<Rightarrow> file_node \<Rightarrow> file_node" where
  "fn_registerManifest m n =
     n\<lparr>fn_manifests := jm_set (fn_manifests n) (mf_file_id m) m,
       fn_store := store_registerManifest m None (fn_store n)\<rparr>"

text \<open>
  \<open>seed\<close>: one buffer of the chunk size is reused, so a read that comes up short leaves bytes of the chunk
  before it in place. A size that does not fit the buffer makes \<open>readSync\<close> throw.
\<close>

definition readSync :: "bytes \<Rightarrow> bytes \<Rightarrow> nat \<Rightarrow> nat \<Rightarrow> bytes res" where
  "readSync buf data len position =
     (if length buf < len then Inl RangeError
      else let r = take len (drop position data) in Inr (r @ drop (length r) buf))"

fun seed_loop :: "crypto \<Rightarrow> manifest \<Rightarrow> bytes \<Rightarrow> nat list \<Rightarrow> bytes \<Rightarrow> chunk_store \<Rightarrow> unit res \<times> chunk_store" where
  "seed_loop C m data [] buf st = (Inr (), st)"
| "seed_loop C m data (i # is) buf st =
     (if length (mf_chunks m) \<le> i then (Inl TypeError, st)
      else
        (let c = mf_chunks m ! i in
         if ci_size c < 0 then (Inl RangeError, st)
         else case readSync buf data (nat (ci_size c)) (i * nat (mf_chunk_size m)) of
                Inl e \<Rightarrow> (Inl e, st)
              | Inr buf \<Rightarrow>
                  (case putChunk C (mf_file_id m) i (take (nat (ci_size c)) buf) (ci_hash c) st of
                     (Inl e, st) \<Rightarrow> (Inl e, st)
                   | (Inr _, st) \<Rightarrow> seed_loop C m data is buf st)))"

definition seed :: "crypto \<Rightarrow> (string \<Rightarrow> bytes option) \<Rightarrow> manifest \<Rightarrow> string \<Rightarrow> file_node \<Rightarrow> unit res \<times> file_node" where
  "seed C fs m path n =
     (let n = fn_registerManifest m n in
      case fs path of
        None \<Rightarrow> (Inl NoSuchFile, n)
      | Some data \<Rightarrow>
          if mf_chunk_size m < 0 then (Inl RangeError, n)
          else case seed_loop C m data [0..<mf_nb_chunks m] (replicate (nat (mf_chunk_size m)) 0) (fn_store n) of
                 (Inl e, st) \<Rightarrow> (Inl e, n\<lparr>fn_store := st\<rparr>)
               | (Inr _, st) \<Rightarrow>
                   (let n = n\<lparr>fn_store := st\<rparr>
                    in (Inr (), fn_emit (to_all n [MManifest m, MHave (mf_file_id m) (bitfield st (mf_file_id m))]) n)))"

section \<open>Scheduling\<close>

definition peerFileSet :: "string \<Rightarrow> string \<Rightarrow> file_node \<Rightarrow> nat list" where
  "peerFileSet k f n =
     (case jm_get (fn_peerHave n) k of None \<Rightarrow> []
      | Some h \<Rightarrow> (case jm_get h f of None \<Rightarrow> [] | Some s \<Rightarrow> s))"

text \<open>The set of the peer, created when missing, with the numbers added one after the other.\<close>

definition add_have :: "string \<Rightarrow> string \<Rightarrow> nat list \<Rightarrow> file_node \<Rightarrow> file_node" where
  "add_have k f is n =
     (let h = (case jm_get (fn_peerHave n) k of None \<Rightarrow> [] | Some h \<Rightarrow> h) in
      n\<lparr>fn_peerHave := jm_set (fn_peerHave n) k (jm_set h f (foldl set_add (peerFileSet k f n) is))\<rparr>)"

definition announced :: "file_node \<Rightarrow> string \<Rightarrow> nat list list" where
  "announced n f = concat (map (\<lambda>(k, h). case jm_get h f of None \<Rightarrow> [] | Some s \<Rightarrow> [s]) (fn_peerHave n))"

definition count_one :: "download \<Rightarrow> (nat, nat) jsmap \<Rightarrow> nat \<Rightarrow> (nat, nat) jsmap" where
  "count_one d count idx =
     (if idx \<in> set (dl_needed d) \<and> \<not> jm_has (dl_inFlight d) idx
      then jm_set count idx (nat_or (jm_get count idx) 0 + 1) else count)"

definition availabilityCount :: "file_node \<Rightarrow> string \<Rightarrow> download \<Rightarrow> (nat, nat) jsmap" where
  "availabilityCount n f d = foldl (count_one d) [] (concat (announced n f))"

definition peersForChunk :: "file_node \<Rightarrow> string \<Rightarrow> download \<Rightarrow> nat \<Rightarrow> string list" where
  "peersForChunk n f d idx =
     (let bad = (case jm_get (dl_badPeers d) idx of None \<Rightarrow> [] | Some b \<Rightarrow> b) in
      filter (\<lambda>k. idx \<in> set (peerFileSet k f n) \<and> k \<notin> set bad \<and> jm_has (fn_sessions n) k) (jm_keys (fn_peerHave n)))"

definition inFlightForPeer :: "download \<Rightarrow> string \<Rightarrow> nat" where
  "inFlightForPeer d k = length (filter (\<lambda>(i, p). p = k) (dl_inFlight d))"

text \<open>The loop over the candidates; the requests it sends are collected in the second result.\<close>

fun sched_loop :: "file_node \<Rightarrow> string \<Rightarrow> nat list \<Rightarrow> download \<Rightarrow> download \<times> fn_effect list" where
  "sched_loop n f [] d = (d, [])"
| "sched_loop n f (idx # is) d =
     (if dl_parallel d \<le> jm_size (dl_inFlight d) then (d, [])
      else if jm_has (dl_inFlight d) idx then sched_loop n f is d
      else
        (let peers = peersForChunk n f d idx in
         if peers = [] then sched_loop n f is d
         else
           (let k = hd (sort_key (inFlightForPeer d) peers) in
            case sched_loop n f is (d\<lparr>dl_inFlight := jm_set (dl_inFlight d) idx k\<rparr>) of
              (d, es) \<Rightarrow> (d, FSend k (MChunkReq f idx) # es))))"

definition schedule :: "mixer \<Rightarrow> string \<Rightarrow> file_node \<Rightarrow> file_node" where
  "schedule mix f n =
     (case jm_get (fn_downloads n) f of None \<Rightarrow> n
      | Some d \<Rightarrow>
          if dl_done d then n
          else
            (let count = availabilityCount n f d;
                 candidates = sort_key (\<lambda>i. nat_or (jm_get count i) 0) (mix f (jm_keys count)) in
             case sched_loop n f candidates d of
               (d, es) \<Rightarrow> fn_emit es (n\<lparr>fn_downloads := jm_set (fn_downloads n) f d\<rparr>)))"

definition set_download :: "string \<Rightarrow> download \<Rightarrow> file_node \<Rightarrow> file_node" where
  "set_download f d n = n\<lparr>fn_downloads := jm_set (fn_downloads n) f d\<rparr>"

definition onTimeout :: "mixer \<Rightarrow> string \<Rightarrow> nat \<Rightarrow> file_node \<Rightarrow> file_node" where
  "onTimeout mix f idx n =
     (case jm_get (fn_downloads n) f of None \<Rightarrow> n
      | Some d \<Rightarrow>
          if \<not> jm_has (dl_inFlight d) idx then n
          else schedule mix f (set_download f (d\<lparr>dl_inFlight := jm_delete (dl_inFlight d) idx\<rparr>) n))"

section \<open>Completion and download\<close>

definition complete :: "crypto \<Rightarrow> string \<Rightarrow> file_node \<Rightarrow> file_node" where
  "complete C f n =
     (case jm_get (fn_downloads n) f of None \<Rightarrow> n
      | Some d \<Rightarrow>
          if dl_done d then n
          else
            (case assemble C (fn_store n) f of
               (r, out) \<Rightarrow>
                 fn_emit
                   ((case out of None \<Rightarrow> [] | Some b \<Rightarrow> [FWrote f (dl_outPath d) b]) @
                    [case r of Inl e \<Rightarrow> FRejected f e
                     | Inr sha \<Rightarrow> FResolved f sha (sha = mf_file_id (dl_manifest d))])
                   (n\<lparr>fn_downloads := jm_delete (fn_downloads n) f\<rparr>)))"

definition new_download :: "manifest \<Rightarrow> string \<Rightarrow> nat option \<Rightarrow> file_node \<Rightarrow> download" where
  "new_download m outPath parallel n =
     (let needed = filter (\<lambda>i. \<not> hasChunk (fn_store n) (mf_file_id m) i) [0..<mf_nb_chunks m] in
      \<lparr>dl_manifest = m, dl_outPath = outPath, dl_needed = needed, dl_inFlight = [], dl_badPeers = [],
       dl_parallel = nat_or parallel (fn_parallel n), dl_done = False,
       dl_received = int (mf_nb_chunks m) - int (length needed), dl_tick = False\<rparr>)"

definition fn_download :: "crypto \<Rightarrow> mixer \<Rightarrow> manifest \<Rightarrow> string \<Rightarrow> nat option \<Rightarrow> file_node \<Rightarrow> file_node" where
  "fn_download C mix m outPath parallel n =
     (let n = fn_registerManifest m n; f = mf_file_id m;
          d = new_download m outPath parallel n;
          n = set_download f d n;
          n = fn_emit (to_all n [MHave f (bitfield (fn_store n) f)]) n
      in if dl_needed d = [] then complete C f n
         else schedule mix f (set_download f (d\<lparr>dl_tick := True\<rparr>) n))"

section \<open>Messages\<close>

definition serveChunk :: "crypto \<Rightarrow> keystore \<Rightarrow> fsession \<Rightarrow> string \<Rightarrow> nat \<Rightarrow> file_node \<Rightarrow> unit res \<times> file_node" where
  "serveChunk C ks s f idx n =
     (if \<not> hasChunk (fn_store n) f idx
      then (Inr (), fn_emit [FSend (fs_peerHex s) (MAck idx (Some ACK_NOT_FOUND))] n)
      else case getChunk (fn_store n) f idx of
             Inl e \<Rightarrow> (Inl e, n)
           | Inr data \<Rightarrow>
               (let chunkHash = sha256 C data in
                case bind_res (chunkSigMessage f idx chunkHash) (sign C ks) of
                  Inl e \<Rightarrow> (Inl e, n)
                | Inr sig \<Rightarrow>
                    (Inr (), fn_emit [FSend (fs_peerHex s) (MChunkData f idx chunkHash sig data)] n)))"

definition expected_hash :: "manifest \<Rightarrow> nat \<Rightarrow> string" where
  "expected_hash m idx = (if idx < length (mf_chunks m) then ci_hash (mf_chunks m ! idx) else '''')"

text \<open>The verification of a received chunk: the sender's signature, and the two hashes.\<close>

definition chunk_good :: "crypto \<Rightarrow> manifest \<Rightarrow> bytes \<Rightarrow> string \<Rightarrow> nat \<Rightarrow> bytes \<Rightarrow> bytes \<Rightarrow> bytes \<Rightarrow> bool" where
  "chunk_good C m peerId f idx chunkHash signature data =
     ((case chunkSigMessage f idx chunkHash of Inl e \<Rightarrow> False
       | Inr msg \<Rightarrow> (case ed_verify C signature msg peerId of Inl e \<Rightarrow> False | Inr b \<Rightarrow> b)) \<and>
      expected_hash m idx \<noteq> '''' \<and> hex_sha C data = expected_hash m idx \<and>
      hex_of_bytes chunkHash = expected_hash m idx)"

definition mark_bad :: "nat \<Rightarrow> string \<Rightarrow> download \<Rightarrow> download" where
  "mark_bad idx k d =
     d\<lparr>dl_badPeers := jm_set (dl_badPeers d) idx
        (set_add (case jm_get (dl_badPeers d) idx of None \<Rightarrow> [] | Some b \<Rightarrow> b) k)\<rparr>"

text \<open>A chunk that has been verified: stored, counted, announced to every session.\<close>

definition accept_chunk ::
    "crypto \<Rightarrow> mixer \<Rightarrow> fsession \<Rightarrow> string \<Rightarrow> nat \<Rightarrow> bytes \<Rightarrow> download \<Rightarrow> file_node \<Rightarrow> unit res \<times> file_node" where
  "accept_chunk C mix s f idx data d n =
     (case putChunk C f idx data (expected_hash (dl_manifest d) idx) (fn_store n) of
        (Inl e, st) \<Rightarrow> (Inl e, n\<lparr>fn_store := st\<rparr>)
      | (Inr (HashMismatch h), st) \<Rightarrow> (Inr (), schedule mix f (n\<lparr>fn_store := st\<rparr>))
      | (Inr (PutOk h), st) \<Rightarrow>
          (let n = n\<lparr>fn_store := st\<rparr>;
               d = d\<lparr>dl_needed := filter (\<lambda>i. i \<noteq> idx) (dl_needed d), dl_received := dl_received d + 1\<rparr>;
               n = fn_emit ([FSend (fs_peerHex s) (MAck idx (Some ACK_OK))] @ to_all n [MHavePiece f idx] @
                     [FProgress f idx (dl_received d) (mf_nb_chunks (dl_manifest d))]) (set_download f d n)
           in (Inr (), if dl_needed d = [] then complete C f n else schedule mix f n)))"

definition onChunkData ::
    "crypto \<Rightarrow> mixer \<Rightarrow> fsession \<Rightarrow> string \<Rightarrow> nat \<Rightarrow> bytes \<Rightarrow> bytes \<Rightarrow> bytes \<Rightarrow> file_node \<Rightarrow> unit res \<times> file_node" where
  "onChunkData C mix s f idx chunkHash signature data n =
     (case jm_get (fn_downloads n) f of None \<Rightarrow> (Inr (), n)
      | Some d0 \<Rightarrow>
          (let good = chunk_good C (dl_manifest d0) (fs_peerId s) f idx chunkHash signature data;
               d = d0\<lparr>dl_inFlight := jm_delete (dl_inFlight d0) idx\<rparr> in
           if \<not> good then
             (Inr (), schedule mix f (fn_emit
                [FSend (fs_peerHex s) (MAck idx (Some ACK_HASH_MISMATCH)), FCorrupt f idx (fs_peerHex s)]
                (set_download f (mark_bad idx (fs_peerHex s) d) n)))
           else accept_chunk C mix s f idx data d (set_download f d n)))"

definition handleMsg ::
    "crypto \<Rightarrow> keystore \<Rightarrow> mixer \<Rightarrow> fsession \<Rightarrow> file_msg \<Rightarrow> file_node \<Rightarrow> unit res \<times> file_node" where
  "handleMsg C ks mix s msg n =
     (case msg of
        MManifest m \<Rightarrow>
          (Inr (), if verifyManifest C ks m then fn_emit [FManifest m] (fn_registerManifest m n) else n)
      | MHave f bits \<Rightarrow>
          (case (case jm_get (fn_manifests n) f of Some m \<Rightarrow> Some (mf_nb_chunks m)
                 | None \<Rightarrow> map_option fe_nb_chunks (jm_get (cs_files (fn_store n)) f)) of
             None \<Rightarrow> (Inr (), n)
           | Some nb \<Rightarrow> (Inr (), schedule mix f (add_have (fs_peerHex s) f (parseBitfield bits nb) n)))
      | MHavePiece f idx \<Rightarrow> (Inr (), schedule mix f (add_have (fs_peerHex s) f [idx] n))
      | MChunkReq f idx \<Rightarrow> serveChunk C ks s f idx n
      | MChunkData f idx chunkHash signature data \<Rightarrow> onChunkData C mix s f idx chunkHash signature data n
      | MAck idx status \<Rightarrow> (Inr (), n))"

definition handleMessage ::
    "crypto \<Rightarrow> keystore \<Rightarrow> (bytes \<Rightarrow> manifest res) \<Rightarrow> mixer \<Rightarrow> fsession \<Rightarrow> bytes \<Rightarrow> file_node \<Rightarrow> unit res \<times> file_node" where
  "handleMessage C ks J mix s buf n =
     (case decode J buf of
        Inl e \<Rightarrow> (Inr (), fn_emit [FError e] n)
      | Inr msg \<Rightarrow> handleMsg C ks mix s msg n)"

text \<open>\<open>_onClose\<close>: each download of the snapshot loses the requests to the peer and is scheduled again.\<close>

definition drop_peer :: "string \<Rightarrow> download \<Rightarrow> download" where
  "drop_peer k d = d\<lparr>dl_inFlight := filter (\<lambda>(i, p). p \<noteq> k) (dl_inFlight d)\<rparr>"

fun close_loop :: "mixer \<Rightarrow> string \<Rightarrow> string list \<Rightarrow> file_node \<Rightarrow> file_node" where
  "close_loop mix k [] n = n"
| "close_loop mix k (f # fs) n =
     close_loop mix k fs
       (case jm_get (fn_downloads n) f of None \<Rightarrow> n
        | Some d \<Rightarrow> schedule mix f (set_download f (drop_peer k d) n))"

definition onClose :: "mixer \<Rightarrow> string \<Rightarrow> file_node \<Rightarrow> file_node" where
  "onClose mix k n =
     (let n = n\<lparr>fn_sessions := jm_delete (fn_sessions n) k, fn_peerHave := jm_delete (fn_peerHave n) k\<rparr>
      in fn_emit [FPeerClose k] (close_loop mix k (jm_keys (fn_downloads n)) n))"

end
