(* ===== verification/FileTransfer.thy ===== *)
theory FileTransfer
  imports FileNode "HOL-Library.Multiset"
begin

text \<open>
  The invariant of the transfer node over any sequence of messages, closings, timers, seedings and
  downloads: what is requested is needed, announced and asked of a connected peer that is not known to be
  bad, within the limit of parallel requests; and no request that could be made is missing.
\<close>

section \<open>Runs\<close>

datatype fn_op =
    FAttach bytes
  | FMsg fsession bytes
  | FTimeout string nat
  | FTick string
  | FClosed string
  | FDownload manifest string "nat option"
  | FSeed manifest string

text \<open>
  What surrounds the node: libsodium, its keys, \<open>JSON.parse\<close> and the files that \<open>seed\<close> reads. An error
  that an operation throws ends it; the caller, a session, reports it.
\<close>

record fn_world =
  fw_crypto :: crypto
  fw_keys :: keystore
  fw_json :: "bytes \<Rightarrow> manifest res"
  fw_files :: "string \<Rightarrow> bytes option"

fun fn_apply :: "fn_world \<Rightarrow> mixer \<Rightarrow> fn_op \<Rightarrow> file_node \<Rightarrow> file_node" where
  "fn_apply W mix (FAttach peerId) n = snd (attachSession peerId n)"
| "fn_apply W mix (FMsg s buf) n = snd (handleMessage (fw_crypto W) (fw_keys W) (fw_json W) mix s buf n)"
| "fn_apply W mix (FTimeout f i) n = onTimeout mix f i n"
| "fn_apply W mix (FTick f) n = schedule mix f n"
| "fn_apply W mix (FClosed k) n = onClose mix k n"
| "fn_apply W mix (FDownload m path parallel) n = fn_download (fw_crypto W) mix m path parallel n"
| "fn_apply W mix (FSeed m path) n = snd (seed (fw_crypto W) (fw_files W) m path n)"

fun fn_run :: "fn_world \<Rightarrow> (mixer \<times> fn_op) list \<Rightarrow> file_node \<Rightarrow> file_node" where
  "fn_run W [] n = n"
| "fn_run W ((mix, x) # ops) n = fn_run W ops (fn_apply W mix x n)"

lemma fn_run_append: "fn_run W (xs @ ys) n = fn_run W ys (fn_run W xs n)"
  by (induction xs arbitrary: n) auto

definition mixer_ok :: "mixer \<Rightarrow> bool" where
  "mixer_ok mix \<longleftrightarrow> (\<forall>f xs. mset (mix f xs) = mset xs)"

text \<open>A session key that has been given out.\<close>

definition known_key :: "nat \<Rightarrow> string \<Rightarrow> bool" where
  "known_key n k \<longleftrightarrow> (\<exists>id j. k = session_key id j \<and> j \<le> n)"

text \<open>Messages come from sessions that are or were attached, and \<open>Math.random\<close> only reorders.\<close>

fun op_ok :: "nat \<Rightarrow> mixer \<times> fn_op \<Rightarrow> bool" where
  "op_ok n (mix, FMsg s buf) \<longleftrightarrow> mixer_ok mix \<and> known_key n (fs_peerHex s)"
| "op_ok n (mix, x) \<longleftrightarrow> mixer_ok mix"

fun ops_ok :: "fn_world \<Rightarrow> (mixer \<times> fn_op) list \<Rightarrow> file_node \<Rightarrow> bool" where
  "ops_ok W [] n \<longleftrightarrow> True"
| "ops_ok W ((mix, x) # ops) n \<longleftrightarrow> op_ok (fn_seq n) (mix, x) \<and> ops_ok W ops (fn_apply W mix x n)"

section \<open>Scheduling one download\<close>

definition sched_dl :: "mixer \<Rightarrow> file_node \<Rightarrow> string \<Rightarrow> download \<Rightarrow> download \<times> fn_effect list" where
  "sched_dl mix n f d =
     (let count = availabilityCount n f d in
      sched_loop n f (sort_key (\<lambda>i. nat_or (jm_get count i) 0) (mix f (jm_keys count))) d)"

lemma schedule_eq:
  "schedule mix f n =
     (case jm_get (fn_downloads n) f of None \<Rightarrow> n
      | Some d \<Rightarrow> if dl_done d then n
                  else fn_emit (snd (sched_dl mix n f d)) (set_download f (fst (sched_dl mix n f d)) n))"
  by (simp add: schedule_def sched_dl_def set_download_def Let_def split: option.splits prod.splits)

definition pipe_ok :: "file_node \<Rightarrow> string \<Rightarrow> download \<Rightarrow> bool" where
  "pipe_ok n f d \<longleftrightarrow>
     jm_ok (dl_inFlight d) \<and> jm_size (dl_inFlight d) \<le> dl_parallel d \<and>
     (\<forall>i k. jm_get (dl_inFlight d) i = Some k \<longrightarrow> i \<in> set (dl_needed d) \<and> k \<in> set (peersForChunk n f d i))"

definition saturated :: "file_node \<Rightarrow> string \<Rightarrow> download \<Rightarrow> bool" where
  "saturated n f d \<longleftrightarrow>
     (jm_size (dl_inFlight d) < dl_parallel d \<longrightarrow>
      (\<forall>i \<in> set (dl_needed d). jm_has (dl_inFlight d) i \<or> peersForChunk n f d i = []))"

lemma peersForChunk_inFlight [simp]: "peersForChunk n f (d\<lparr>dl_inFlight := x\<rparr>) i = peersForChunk n f d i"
  by (simp add: peersForChunk_def)

lemma jm_size_set: "jm_size (jm_set m k v) = (if jm_has m k then jm_size m else Suc (jm_size m))"
  by (simp add: jm_size_keys jm_keys_set jm_has_keys)

lemma hd_sort_key_in: "xs \<noteq> [] \<Longrightarrow> hd (sort_key g xs) \<in> set xs"
  by (metis hd_in_set set_sort length_0_conv length_sort)

text \<open>Only the requests of the download change.\<close>

lemma sched_loop_same: "\<exists>y. fst (sched_loop n f is d) = d\<lparr>dl_inFlight := y\<rparr>"
proof (induction "is" arbitrary: d)
  case Nil
  show ?case by (intro exI [of _ "dl_inFlight d"]) simp
next
  case (Cons i "is")
  have stay: "\<exists>y. d = d\<lparr>dl_inFlight := y\<rparr>" by (intro exI [of _ "dl_inFlight d"]) simp
  define e where "e = d\<lparr>dl_inFlight := jm_set (dl_inFlight d) i
    (hd (sort_key (inFlightForPeer d) (peersForChunk n f d i)))\<rparr>"
  obtain y where "fst (sched_loop n f is e) = e\<lparr>dl_inFlight := y\<rparr>" using Cons.IH by blast
  then have "fst (sched_loop n f is e) = d\<lparr>dl_inFlight := y\<rparr>" by (simp add: e_def)
  then show ?case using Cons.IH [of d] stay
    by (auto simp: Let_def e_def [symmetric] split: prod.splits)
qed

lemma sched_dl_same: "\<exists>y. fst (sched_dl mix n f d) = d\<lparr>dl_inFlight := y\<rparr>"
  by (simp add: sched_dl_def Let_def sched_loop_same)

lemma sched_loop_pipe:
  assumes "pipe_ok n f d" and "\<forall>i \<in> set is. i \<in> set (dl_needed d)" and "sched_loop n f is d = (d', es)"
  shows "pipe_ok n f d' \<and> d' = d\<lparr>dl_inFlight := dl_inFlight d'\<rparr> \<and>
    (\<forall>i. jm_has (dl_inFlight d) i \<longrightarrow> jm_has (dl_inFlight d') i) \<and>
    (jm_size (dl_inFlight d') < dl_parallel d \<longrightarrow>
      (\<forall>i \<in> set is. jm_has (dl_inFlight d') i \<or> peersForChunk n f d i = []))"
  using assms
proof (induction "is" arbitrary: d es)
  case (Cons i "is")
  show ?case
  proof (cases "dl_parallel d \<le> jm_size (dl_inFlight d)")
    case True
    then show ?thesis using Cons.prems by auto
  next
    case room: False
    show ?thesis
    proof (cases "jm_has (dl_inFlight d) i \<or> peersForChunk n f d i = []")
      case True
      then have "sched_loop n f is d = (d', es)" using Cons.prems(3) room by (auto simp: Let_def split: if_splits)
      from Cons.IH [OF Cons.prems(1) _ this] Cons.prems(2) True show ?thesis by auto
    next
      case False
      define k where "k = hd (sort_key (inFlightForPeer d) (peersForChunk n f d i))"
      define e where "e = d\<lparr>dl_inFlight := jm_set (dl_inFlight d) i k\<rparr>"
      have k: "k \<in> set (peersForChunk n f d i)" using False unfolding k_def by (intro hd_sort_key_in) simp
      obtain es' where l: "sched_loop n f is e = (d', es')"
        using Cons.prems(3) room False by (auto simp: e_def k_def Let_def split: prod.splits)
      have "pipe_ok n f e"
        using Cons.prems(1,2) room False k by (auto simp: pipe_ok_def e_def jm_size_set jm_ok_set)
      moreover have "\<forall>j \<in> set is. j \<in> set (dl_needed e)" using Cons.prems(2) by (simp add: e_def)
      ultimately have h: "pipe_ok n f d' \<and> d' = e\<lparr>dl_inFlight := dl_inFlight d'\<rparr> \<and>
          (\<forall>j. jm_has (dl_inFlight e) j \<longrightarrow> jm_has (dl_inFlight d') j) \<and>
          (jm_size (dl_inFlight d') < dl_parallel e \<longrightarrow>
            (\<forall>j \<in> set is. jm_has (dl_inFlight d') j \<or> peersForChunk n f e j = []))"
        using Cons.IH l by blast
      then show ?thesis by (auto simp: e_def)
    qed
  qed
qed auto

text \<open>The candidates are exactly the needed, unrequested chunks that somebody announced.\<close>

lemma count_keys:
  "set (jm_keys (foldl (count_one d) c xs)) =
     set (jm_keys c) \<union> {i \<in> set xs. i \<in> set (dl_needed d) \<and> \<not> jm_has (dl_inFlight d) i}"
  by (induction xs arbitrary: c) (auto simp: count_one_def jm_keys_set)

lemma set_announced: "i \<in> set (concat (announced n f)) \<longleftrightarrow>
    (\<exists>kh \<in> set (fn_peerHave n). \<exists>s. jm_get (snd kh) f = Some s \<and> i \<in> set s)"
proof -
  have "i \<in> set (concat (concat (map (\<lambda>(k, h). case jm_get h f of None \<Rightarrow> [] | Some s \<Rightarrow> [s]) l))) \<longleftrightarrow>
      (\<exists>kh \<in> set l. \<exists>s. jm_get (snd kh) f = Some s \<and> i \<in> set s)" for l :: "(string \<times> (string, nat list) jsmap) list"
  proof (induction l)
    case (Cons a l)
    then show ?case by (cases a; cases "jm_get (snd a) f") simp_all
  qed simp
  then show ?thesis unfolding announced_def .
qed

lemma peerFileSet_iff: "i \<in> set (peerFileSet k f n) \<longleftrightarrow>
    (\<exists>h s. jm_get (fn_peerHave n) k = Some h \<and> jm_get h f = Some s \<and> i \<in> set s)"
  by (cases "jm_get (fn_peerHave n) k"; cases "jm_get (the (jm_get (fn_peerHave n) k)) f")
    (simp_all add: peerFileSet_def)

lemma peers_announced:
  assumes "peersForChunk n f d i \<noteq> []"
  shows "i \<in> set (concat (announced n f))"
proof -
  obtain k where "i \<in> set (peerFileSet k f n)"
    using assms by (auto simp: peersForChunk_def Let_def filter_empty_conv)
  then obtain h s where h: "jm_get (fn_peerHave n) k = Some h" "jm_get h f = Some s" "i \<in> set s"
    unfolding peerFileSet_iff by blast
  have "(k, h) \<in> set (fn_peerHave n)" using h(1) unfolding jm_get_def by (rule map_of_SomeD)
  then show ?thesis unfolding set_announced using h by (intro bexI [of _ "(k, h)"]) auto
qed

lemma mixer_set: "mixer_ok mix \<Longrightarrow> set (mix f xs) = set xs"
  unfolding mixer_ok_def by (metis set_mset_mset)

lemma sched_dl_ok:
  assumes "mixer_ok mix" and "pipe_ok n f d" and "sched_dl mix n f d = (d', es)"
  shows "pipe_ok n f d' \<and> saturated n f d' \<and> d' = d\<lparr>dl_inFlight := dl_inFlight d'\<rparr>"
proof -
  let ?is = "sort_key (\<lambda>i. nat_or (jm_get (availabilityCount n f d) i) 0) (mix f (jm_keys (availabilityCount n f d)))"
  have s: "set ?is = {i \<in> set (concat (announced n f)). i \<in> set (dl_needed d) \<and> \<not> jm_has (dl_inFlight d) i}"
    using count_keys [of d "[]"] by (simp add: mixer_set [OF assms(1)] availabilityCount_def)
  have h: "pipe_ok n f d' \<and> d' = d\<lparr>dl_inFlight := dl_inFlight d'\<rparr> \<and>
    (\<forall>i. jm_has (dl_inFlight d) i \<longrightarrow> jm_has (dl_inFlight d') i) \<and>
    (jm_size (dl_inFlight d') < dl_parallel d \<longrightarrow>
      (\<forall>i \<in> set ?is. jm_has (dl_inFlight d') i \<or> peersForChunk n f d i = []))"
    using sched_loop_pipe [OF assms(2), of ?is d' es] assms(3) s by (simp add: sched_dl_def Let_def)
  moreover obtain y where y: "d' = d\<lparr>dl_inFlight := y\<rparr>" using h by blast
  have "saturated n f d'"
  proof (unfold saturated_def, intro impI ballI)
    fix i assume a: "jm_size (dl_inFlight d') < dl_parallel d'" "i \<in> set (dl_needed d')"
    show "jm_has (dl_inFlight d') i \<or> peersForChunk n f d' i = []"
      using a h s peers_announced [of n f d i] unfolding y by auto
  qed
  ultimately show ?thesis by blast
qed

section \<open>The invariant\<close>

definition bad_peers :: "download \<Rightarrow> nat \<Rightarrow> string list" where
  "bad_peers d i = (case jm_get (dl_badPeers d) i of None \<Rightarrow> [] | Some b \<Rightarrow> b)"

lemma peers_iff:
  "k \<in> set (peersForChunk n f d i) \<longleftrightarrow>
     i \<in> set (peerFileSet k f n) \<and> k \<notin> set (bad_peers d i) \<and> jm_has (fn_sessions n) k"
proof -
  have "i \<in> set (peerFileSet k f n) \<Longrightarrow> k \<in> set (jm_keys (fn_peerHave n))"
    unfolding peerFileSet_iff using jm_get_iff_keys [of "fn_peerHave n" k] by auto
  then show ?thesis by (auto simp: peersForChunk_def bad_peers_def Let_def)
qed

lemma no_peers_iff:
  "peersForChunk n f d i = [] \<longleftrightarrow> (\<forall>k. k \<notin> set (peersForChunk n f d i))"
  by auto

definition base_ok :: "chunk_store \<Rightarrow> string \<Rightarrow> download \<Rightarrow> bool" where
  "base_ok st f d \<longleftrightarrow>
     mf_file_id (dl_manifest d) = f \<and> \<not> dl_done d \<and> dl_needed d \<noteq> [] \<and> jm_get (cs_files st) f \<noteq> None \<and>
     (\<forall>i \<in> set (dl_needed d). i < mf_nb_chunks (dl_manifest d)) \<and>
     (\<forall>i < mf_nb_chunks (dl_manifest d). \<not> hasChunk st f i \<longrightarrow> i \<in> set (dl_needed d))"

text \<open>The invariant up to a set \<open>F\<close> of files whose download still has to be scheduled.\<close>

definition node_upto :: "string set \<Rightarrow> file_node \<Rightarrow> bool" where
  "node_upto F n \<longleftrightarrow>
     store_ok (fn_store n) \<and> jm_ok (fn_downloads n) \<and>
     (\<forall>k. jm_has (fn_sessions n) k \<or> jm_has (fn_peerHave n) k \<longrightarrow> known_key (fn_seq n) k) \<and>
     (\<forall>f d. jm_get (fn_downloads n) f = Some d \<longrightarrow>
        base_ok (fn_store n) f d \<and> pipe_ok n f d \<and> (f \<notin> F \<longrightarrow> saturated n f d))"

abbreviation node_ok :: "file_node \<Rightarrow> bool" where
  "node_ok \<equiv> node_upto {}"

text \<open>Who is asked depends on the sessions and the announcements only.\<close>

lemma same_peers:
  assumes "fn_sessions n' = fn_sessions n" and "fn_peerHave n' = fn_peerHave n"
  shows "peersForChunk n' = peersForChunk n" and "pipe_ok n' = pipe_ok n" and "saturated n' = saturated n"
proof -
  show 1: "peersForChunk n' = peersForChunk n"
    by (intro ext) (simp add: peersForChunk_def peerFileSet_def assms)
  show "pipe_ok n' = pipe_ok n" "saturated n' = saturated n"
    by (intro ext, simp add: pipe_ok_def saturated_def 1)+
qed

lemma fn_emit_fields [simp]:
  "fn_store (fn_emit es n) = fn_store n" "fn_sessions (fn_emit es n) = fn_sessions n"
  "fn_manifests (fn_emit es n) = fn_manifests n" "fn_downloads (fn_emit es n) = fn_downloads n"
  "fn_peerHave (fn_emit es n) = fn_peerHave n" "fn_seq (fn_emit es n) = fn_seq n"
  "fn_out (fn_emit es n) = fn_out n @ es" "fn_parallel (fn_emit es n) = fn_parallel n"
  by (simp_all add: fn_emit_def)

lemma set_download_fields [simp]:
  "fn_store (set_download f d n) = fn_store n" "fn_sessions (set_download f d n) = fn_sessions n"
  "fn_manifests (set_download f d n) = fn_manifests n" "fn_peerHave (set_download f d n) = fn_peerHave n"
  "fn_seq (set_download f d n) = fn_seq n" "fn_out (set_download f d n) = fn_out n"
  "fn_downloads (set_download f d n) = jm_set (fn_downloads n) f d"
  by (simp_all add: set_download_def)

lemmas same_peers_simps [simp] =
  same_peers [of "fn_emit es n" n for es n, simplified]
  same_peers [of "set_download f d n" n for f d n, simplified]

lemma upto_frame:
  assumes "node_upto F n" and "fn_sessions n' = fn_sessions n" and "fn_peerHave n' = fn_peerHave n"
    and "fn_seq n' = fn_seq n" and "fn_downloads n' = fn_downloads n" and "store_ok (fn_store n')"
    and "\<And>f i. hasChunk (fn_store n) f i \<Longrightarrow> hasChunk (fn_store n') f i"
    and "\<And>f. jm_get (cs_files (fn_store n)) f \<noteq> None \<Longrightarrow> jm_get (cs_files (fn_store n')) f \<noteq> None"
  shows "node_upto F n'"
proof -
  have "base_ok (fn_store n) f d \<Longrightarrow> base_ok (fn_store n') f d" for f d
    using assms(7,8) unfolding base_ok_def by blast
  then show ?thesis
    using assms(1-6) same_peers [OF assms(2,3)] by (auto simp: node_upto_def)
qed

lemma upto_emit [simp]: "node_upto F (fn_emit es n) = node_upto F n"
  by (simp add: node_upto_def)

lemma upto_register: "node_upto F n \<Longrightarrow> node_upto F (fn_registerManifest m n)"
  by (rule upto_frame [of F n])
    (auto simp: fn_registerManifest_def entry_register store_ok_register node_upto_def)

lemma upto_store:
  assumes "node_upto F n" and "putChunk C f i d h (fn_store n) = (r, st)"
  shows "node_upto F (n\<lparr>fn_store := st\<rparr>)"
proof -
  have s: "store_ok (fn_store n)" using assms(1) by (simp add: node_upto_def)
  have e: "jm_get (cs_files (fn_store n)) g \<noteq> None \<Longrightarrow> jm_get (cs_files st) g \<noteq> None" for g
    using putChunk_nb [OF s assms(2), of g] by (metis map_option_is_None)
  show ?thesis
    by (rule upto_frame [OF assms(1)]) (use e repo.put_mono [OF s assms(2)] store_ok_put [OF s assms(2)] in auto)
qed

lemma upto_set:
  assumes "node_upto F n" and "base_ok (fn_store n) f d" and "pipe_ok n f d"
  shows "node_upto (insert f F) (set_download f d n)"
  using assms
  by (auto simp: node_upto_def jm_ok_set split: if_splits)

lemma upto_schedule:
  assumes "node_upto F n" and "mixer_ok mix"
  shows "node_upto (F - {f}) (schedule mix f n)"
proof (cases "jm_get (fn_downloads n) f")
  case None
  then show ?thesis using assms(1) by (auto simp: schedule_eq node_upto_def)
next
  case (Some d)
  then have d: "base_ok (fn_store n) f d" "pipe_ok n f d" using assms(1) by (auto simp: node_upto_def)
  obtain e es where e: "sched_dl mix n f d = (e, es)" by fastforce
  note ok = sched_dl_ok [OF assms(2) d(2) e]
  then obtain y where y: "e = d\<lparr>dl_inFlight := y\<rparr>" by blast
  have "base_ok (fn_store n) f e" using d(1) by (simp add: base_ok_def y)
  moreover have "\<not> dl_done d" using d(1) by (simp add: base_ok_def)
  ultimately show ?thesis
    using Some ok e assms(1)
    by (auto simp: schedule_eq node_upto_def jm_ok_set split: if_splits)
qed

lemma upto_schedule_only: "node_upto {f} n \<Longrightarrow> mixer_ok mix \<Longrightarrow> node_ok (schedule mix f n)"
  using upto_schedule [of "{f}" n mix f] by simp

lemma upto_more: "node_upto F n \<Longrightarrow> F \<subseteq> G \<Longrightarrow> node_upto G n"
  unfolding node_upto_def by blast

section \<open>Every operation keeps it\<close>

lemma pipe_delete: "pipe_ok n f d \<Longrightarrow> pipe_ok n f (d\<lparr>dl_inFlight := jm_delete (dl_inFlight d) i\<rparr>)"
proof -
  have "jm_size (jm_delete m i) \<le> jm_size m" for m :: "(nat, string) jsmap"
    by (simp add: jm_size_def jm_delete_def)
  then show "pipe_ok n f d \<Longrightarrow> pipe_ok n f (d\<lparr>dl_inFlight := jm_delete (dl_inFlight d) i\<rparr>)"
    unfolding pipe_ok_def using jsm.ok_del by (auto split: if_splits intro: order_trans)
qed

lemma base_inFlight [simp]: "base_ok st f (d\<lparr>dl_inFlight := x\<rparr>) = base_ok st f d"
  by (simp add: base_ok_def)

lemma base_mark [simp]: "base_ok st f (mark_bad i k d) = base_ok st f d"
  by (simp add: base_ok_def mark_bad_def)

lemma bad_peers_mark: "bad_peers (mark_bad i k d) j = (if j = i then set_add (bad_peers d i) k else bad_peers d j)"
  by (simp add: bad_peers_def mark_bad_def)

lemma set_set_add [simp]: "set (set_add xs x) = insert x (set xs)"
  by (auto simp: set_add_def)

lemma pipe_mark:
  assumes "pipe_ok n f d" and "\<not> jm_has (dl_inFlight d) i"
  shows "pipe_ok n f (mark_bad i k d)"
proof -
  have p: "p \<in> set (peersForChunk n f (mark_bad i k d) j) \<longleftrightarrow>
      p \<in> set (peersForChunk n f d j) \<and> (j = i \<longrightarrow> p \<noteq> k)" for p j
    by (auto simp: peers_iff bad_peers_mark)
  have f: "dl_inFlight (mark_bad i k d) = dl_inFlight d" "dl_needed (mark_bad i k d) = dl_needed d"
    "dl_parallel (mark_bad i k d) = dl_parallel d" by (simp_all add: mark_bad_def)
  show ?thesis using assms unfolding pipe_ok_def p f by (auto simp: jm_has_def)
qed

text \<open>Announcements only add willing peers, and only for their own file.\<close>

lemma set_foldl_add: "set (foldl set_add xs ys) = set xs \<union> set ys"
  by (induction ys arbitrary: xs) auto

lemma peerFileSet_add:
  "set (peerFileSet k' g (add_have k f is n)) =
     (if k' = k \<and> g = f then set (peerFileSet k f n) \<union> set is else set (peerFileSet k' g n))"
  by (auto simp: peerFileSet_def add_have_def set_foldl_add split: option.splits)

lemma add_have_fields [simp]:
  "fn_store (add_have k f is n) = fn_store n" "fn_sessions (add_have k f is n) = fn_sessions n"
  "fn_downloads (add_have k f is n) = fn_downloads n" "fn_seq (add_have k f is n) = fn_seq n"
  "fn_out (add_have k f is n) = fn_out n" "jm_has (fn_peerHave (add_have k f is n)) j = (j = k \<or> jm_has (fn_peerHave n) j)"
  by (simp_all add: add_have_def Let_def)

lemma upto_add_have:
  assumes "node_upto F n" and "known_key (fn_seq n) k"
  shows "node_upto (insert f F) (add_have k f is n)"
proof -
  let ?n = "add_have k f is n"
  have sub: "p \<in> set (peersForChunk n g d i) \<Longrightarrow> p \<in> set (peersForChunk ?n g d i)" for p g d i
    by (auto simp: peers_iff peerFileSet_add)
  have eq: "g \<noteq> f \<Longrightarrow> set (peersForChunk ?n g d i) = set (peersForChunk n g d i)" for g d i
    by (auto simp: peers_iff peerFileSet_add)
  have "pipe_ok n g d \<Longrightarrow> pipe_ok ?n g d" for g d using sub unfolding pipe_ok_def by blast
  moreover have "g \<noteq> f \<Longrightarrow> saturated n g d \<Longrightarrow> saturated ?n g d" for g d
    using eq [of g d] unfolding saturated_def no_peers_iff by blast
  ultimately show ?thesis using assms by (auto simp: node_upto_def)
qed

text \<open>A new session has a key of its own and has announced nothing yet.\<close>

lemma session_key_inj: "session_key a i = session_key b j \<Longrightarrow> i = j"
proof -
  assume "session_key a i = session_key b j"
  have nohash: "CHR ''#'' \<notin> set (hex_of_bytes x)" for x
  proof (induction x)
    case (Cons b x)
    have "n < 16 \<Longrightarrow> hex_of_nibble n \<noteq> CHR ''#''" for n
      by (drule all_nibbles) (auto simp: hex_of_nibble_def hex_digits_def)
    then have "hex_of_nibble (unat b div 16) \<noteq> CHR ''#''" "hex_of_nibble (unat b mod 16) \<noteq> CHR ''#''"
      using unat_byte_less [of b] by simp_all
    then show ?case using Cons.IH by auto
  qed simp
  have "dropWhile (\<lambda>c. c \<noteq> CHR ''#'') (session_key x m) = ''#'' @ decimal m" for x m
    using nohash [of x] by (auto simp: session_key_def dropWhile_append2 intro: dropWhile_append2 [THEN trans])
  then have "decimal i = decimal j" using \<open>session_key a i = session_key b j\<close> by (metis append_Cons append_Nil list.inject)
  then show "i = j" by (metis undecimal_decimal)
qed

lemma upto_attach:
  assumes "node_upto F n"
  shows "node_upto F (snd (attachSession peerId n))"
proof -
  let ?k = "session_key peerId (fn_seq n + 1)" and ?n = "snd (attachSession peerId n)"
  have "\<not> known_key (fn_seq n) ?k" using session_key_inj by (fastforce simp: known_key_def)
  then have new: "\<not> jm_has (fn_sessions n) ?k" "\<not> jm_has (fn_peerHave n) ?k"
    using assms by (auto simp: node_upto_def)
  have f: "fn_store ?n = fn_store n" "fn_downloads ?n = fn_downloads n" "fn_seq ?n = fn_seq n + 1"
    "fn_sessions ?n = jm_set (fn_sessions n) ?k peerId" "fn_peerHave ?n = jm_set (fn_peerHave n) ?k []"
    using new by (simp_all add: attachSession_def Let_def jm_has_def split: option.splits)
  have none: "\<not> jm_get (fn_peerHave n) ?k \<noteq> None" using new(2) by (simp add: jm_has_def)
  have same: "peerFileSet p g ?n = peerFileSet p g n" for p g
    using none by (auto simp: peerFileSet_def f)
  have no: "i \<notin> set (peerFileSet ?k g n)" for i g using none unfolding peerFileSet_iff by auto
  have p: "set (peersForChunk ?n g d i) = set (peersForChunk n g d i)" for g d i
  proof (rule set_eqI)
    fix q
    show "q \<in> set (peersForChunk ?n g d i) \<longleftrightarrow> q \<in> set (peersForChunk n g d i)"
      unfolding peers_iff same f jm_has_set using no [of i g] by (cases "q = ?k") blast+
  qed
  have "pipe_ok ?n g d = pipe_ok n g d" "saturated ?n g d = saturated n g d" for g d
    unfolding pipe_ok_def saturated_def no_peers_iff p by (rule refl)+
  moreover have "known_key (fn_seq n) k \<Longrightarrow> known_key (fn_seq n + 1) k" for k
    unfolding known_key_def by (metis le_add1 le_trans)
  moreover have "known_key (fn_seq n + 1) ?k" unfolding known_key_def by blast
  ultimately show ?thesis using assms unfolding node_upto_def f jm_has_set by metis
qed

lemma upto_complete:
  assumes "node_upto F (n\<lparr>fn_downloads := jm_delete (fn_downloads n) f\<rparr>)"
    and "jm_get (fn_downloads n) f = Some d" and "\<not> dl_done d"
  shows "node_upto F (complete C f n)"
  using assms by (simp add: complete_def split: prod.splits)

text \<open>Whatever is done to the download that completes, the others are as before.\<close>

lemma jm_delete_set [simp]: "jm_delete (jm_set m k v) k = jm_delete m k"
  by (induction m) (auto simp: jm_delete_def)

lemma upto_delete: "node_upto F n \<Longrightarrow> node_upto F (n\<lparr>fn_downloads := jm_delete (fn_downloads n) f\<rparr>)"
  using same_peers [of "n\<lparr>fn_downloads := jm_delete (fn_downloads n) f\<rparr>" n]
  by (auto simp: node_upto_def jsm.ok_del split: if_splits)

lemma upto_complete_set:
  assumes "node_upto F n" and "\<not> dl_done d"
  shows "node_upto F (complete C f (fn_emit es (set_download f d n)))"
proof (rule upto_complete [where d = d])
  have "(fn_emit es (set_download f d n))\<lparr>fn_downloads := jm_delete (fn_downloads (fn_emit es (set_download f d n))) f\<rparr> =
      fn_emit es (n\<lparr>fn_downloads := jm_delete (fn_downloads n) f\<rparr>)"
    by (simp add: fn_emit_def set_download_def)
  then show "node_upto F ((fn_emit es (set_download f d n))
      \<lparr>fn_downloads := jm_delete (fn_downloads (fn_emit es (set_download f d n))) f\<rparr>)"
    using upto_delete [OF assms(1), of f] by simp
qed (simp_all add: assms(2))

lemma upto_gone:
  assumes "node_upto {f} n" and "jm_get (fn_downloads n) f = None"
  shows "node_ok n"
proof -
  have "jm_get (fn_downloads n) g = Some d \<Longrightarrow> g \<notin> {f}" for g d using assms(2) by auto
  then show ?thesis using assms(1) unfolding node_upto_def by blast
qed

lemma same_store [simp]: "n\<lparr>fn_store := fn_store n\<rparr> = n"
  by simp

lemma upto_timeout:
  assumes "node_upto {} n" and "mixer_ok mix"
  shows "node_ok (onTimeout mix f i n)"
proof (cases "jm_get (fn_downloads n) f")
  case None
  then show ?thesis using assms(1) by (simp add: onTimeout_def)
next
  case (Some d)
  then have "base_ok (fn_store n) f d" "pipe_ok n f d" using assms(1) by (simp_all add: node_upto_def)
  then have "node_upto {f} (set_download f (d\<lparr>dl_inFlight := jm_delete (dl_inFlight d) i\<rparr>) n)"
    using upto_set [OF assms(1)] pipe_delete by simp
  from upto_schedule_only [OF this assms(2)] show ?thesis using Some assms(1) by (simp add: onTimeout_def)
qed

text \<open>A verified chunk of a registered file is always stored; \<open>accepted\<close> is the download afterwards.\<close>

definition accepted :: "nat \<Rightarrow> download \<Rightarrow> download" where
  "accepted idx d = d\<lparr>dl_needed := filter (\<lambda>i. i \<noteq> idx) (dl_needed d), dl_received := dl_received d + 1\<rparr>"

lemma accepted_fields [simp]:
  "dl_needed (accepted i d) = filter (\<lambda>j. j \<noteq> i) (dl_needed d)" "dl_inFlight (accepted i d) = dl_inFlight d"
  "dl_manifest (accepted i d) = dl_manifest d" "dl_badPeers (accepted i d) = dl_badPeers d"
  "dl_parallel (accepted i d) = dl_parallel d" "dl_done (accepted i d) = dl_done d"
  by (simp_all add: accepted_def)

lemma accept_chunk_eq:
  assumes "store_ok (fn_store n)" and "jm_get (cs_files (fn_store n)) f \<noteq> None"
    and "hex_sha C data = expected_hash (dl_manifest d) idx"
  obtains h t es n2 where
    "putChunk C f idx data (expected_hash (dl_manifest d) idx) (fn_store n) = (Inr (PutOk h), t)"
    "es = [FSend (fs_peerHex s) (MAck idx (Some ACK_OK))] @ to_all (n\<lparr>fn_store := t\<rparr>) [MHavePiece f idx] @
      [FProgress f idx (dl_received d + 1) (mf_nb_chunks (dl_manifest d))]"
    "n2 = fn_emit es (set_download f (accepted idx d) (n\<lparr>fn_store := t\<rparr>))"
    "accept_chunk C mix s f idx data d n =
      (Inr (), if dl_needed (accepted idx d) = [] then complete C f n2 else schedule mix f n2)"
proof -
  obtain h t where put: "putChunk C f idx data (expected_hash (dl_manifest d) idx) (fn_store n) = (Inr (PutOk h), t)"
    using putChunk_cases [OF assms(1), of "expected_hash (dl_manifest d) idx" C data f idx] assms(2,3) by fastforce
  show ?thesis
    by (rule that [OF put refl refl]) (simp add: accept_chunk_def put accepted_def Let_def)
qed

lemma base_accepted:
  assumes "base_ok st f d" and "dl_needed (accepted idx d) \<noteq> []" and "hasChunk st f idx"
  shows "base_ok st f (accepted idx d)"
  using assms by (auto simp: base_ok_def)

lemma pipe_accepted:
  assumes "pipe_ok n f d" and "\<not> jm_has (dl_inFlight d) idx"
  shows "pipe_ok n f (accepted idx d)"
  using assms by (auto simp: pipe_ok_def peersForChunk_def jm_has_def)

lemma upto_accept:
  assumes "node_upto {f} (set_download f d n)" and "mixer_ok mix" and "\<not> jm_has (dl_inFlight d) idx"
    and "hex_sha C data = expected_hash (dl_manifest d) idx"
    and "accept_chunk C mix s f idx data d (set_download f d n) = (r, n')"
  shows "node_ok n' \<and> r = Inr ()"
proof -
  let ?n = "set_download f d n"
  have st: "store_ok (fn_store n)" and b: "base_ok (fn_store n) f d" and p: "pipe_ok ?n f d"
    using assms(1) by (auto simp: node_upto_def)
  have e: "jm_get (cs_files (fn_store ?n)) f \<noteq> None" and st': "store_ok (fn_store ?n)"
    using b st by (simp_all add: base_ok_def)
  obtain h t es n2 where put: "putChunk C f idx data (expected_hash (dl_manifest d) idx) (fn_store ?n) = (Inr (PutOk h), t)"
    and es: "es = [FSend (fs_peerHex s) (MAck idx (Some ACK_OK))] @ to_all (?n\<lparr>fn_store := t\<rparr>) [MHavePiece f idx] @
      [FProgress f idx (dl_received d + 1) (mf_nb_chunks (dl_manifest d))]"
    and n2: "n2 = fn_emit es (set_download f (accepted idx d) (?n\<lparr>fn_store := t\<rparr>))"
    and a: "accept_chunk C mix s f idx data d ?n =
      (Inr (), if dl_needed (accepted idx d) = [] then complete C f n2 else schedule mix f n2)"
    by (rule accept_chunk_eq [where s = s and mix = mix, OF st' e assms(4)])
  have t: "node_upto {f} (?n\<lparr>fn_store := t\<rparr>)" by (rule upto_store [OF assms(1) put])
  have has: "hasChunk t f idx" using repo.put_done [OF _ put] st by simp
  have n': "r = Inr ()" "n' = (if dl_needed (accepted idx d) = [] then complete C f n2 else schedule mix f n2)"
    using assms(5) a by simp_all
  have tb: "base_ok t f d" "pipe_ok (?n\<lparr>fn_store := t\<rparr>) f d" using t by (simp_all add: node_upto_def)
  show ?thesis
  proof (cases "dl_needed (accepted idx d) = []")
    case False
    have "node_upto {f} (set_download f (accepted idx d) (?n\<lparr>fn_store := t\<rparr>))"
      using upto_set [OF t, of f "accepted idx d"] base_accepted [OF tb(1) False has] pipe_accepted [OF tb(2) assms(3)] by simp
    then have "node_upto {f} n2" by (simp add: n2)
    from upto_schedule_only [OF this assms(2)] show ?thesis using n' False by simp
  next
    case True
    have "node_upto {f} (complete C f n2)"
      unfolding n2 using upto_complete_set [OF t] b by (simp add: base_ok_def)
    moreover have "jm_get (fn_downloads (complete C f n2)) f = None"
      using b by (simp add: complete_def n2 base_ok_def split: prod.splits)
    ultimately have "node_ok (complete C f n2)" by (rule upto_gone)
    then show ?thesis using n' True by simp
  qed
qed

lemma upto_chunk_data:
  assumes "node_ok n" and "mixer_ok mix" and "onChunkData C mix s f idx h sg data n = (r, n')"
  shows "node_ok n' \<and> r = Inr ()"
proof (cases "jm_get (fn_downloads n) f")
  case None
  then show ?thesis using assms by (simp add: onChunkData_def)
next
  case (Some d0)
  then have b: "base_ok (fn_store n) f d0" "pipe_ok n f d0" using assms(1) by (simp_all add: node_upto_def)
  define d where "d = d0\<lparr>dl_inFlight := jm_delete (dl_inFlight d0) idx\<rparr>"
  have d: "base_ok (fn_store n) f d" "pipe_ok n f d" "\<not> jm_has (dl_inFlight d) idx" "dl_manifest d = dl_manifest d0"
    using b pipe_delete by (simp_all add: d_def)
  note o = assms(3) [unfolded onChunkData_def Some option.case Let_def, folded d_def]
  show ?thesis
  proof (cases "chunk_good C (dl_manifest d0) (fs_peerId s) f idx h sg data")
    case True
    have "node_upto {f} (set_download f d n)" using upto_set [OF assms(1) d(1,2)] by simp
    moreover have "hex_sha C data = expected_hash (dl_manifest d) idx" using True d(4) by (simp add: chunk_good_def)
    ultimately show ?thesis using upto_accept [OF _ assms(2) d(3)] o True by simp
  next
    case False
    have "node_upto {f} (set_download f (mark_bad idx (fs_peerHex s) d) n)"
      using upto_set [OF assms(1), of f "mark_bad idx (fs_peerHex s) d"] d(1) pipe_mark [OF d(2,3)] by simp
    then have "node_ok n'" using o False upto_schedule_only [OF _ assms(2)] by auto
    then show ?thesis using o False by simp
  qed
qed

lemma upto_seed_loop:
  assumes "node_upto F n" and "seed_loop C m data is buf (fn_store n) = (r, st)"
  shows "node_upto F (n\<lparr>fn_store := st\<rparr>)"
  using assms
proof (induction "is" arbitrary: n buf)
  case Nil
  then show ?case by auto
next
  case (Cons i "is")
  let ?c = "mf_chunks m ! i"
  show ?case
  proof (cases "length (mf_chunks m) \<le> i \<or> ci_size ?c < 0")
    case True
    then have "st = fn_store n" using Cons.prems(2) by (auto simp: Let_def split: if_splits)
    then show ?thesis using Cons.prems(1) by simp
  next
    case False
    show ?thesis
    proof (cases "readSync buf data (nat (ci_size ?c)) (i * nat (mf_chunk_size m))")
      case (Inl e)
      then have "st = fn_store n" using Cons.prems(2) False by (simp add: Let_def)
      then show ?thesis using Cons.prems(1) by simp
    next
      case (Inr b)
      obtain x t where put: "putChunk C (mf_file_id m) i (take (nat (ci_size ?c)) b) (ci_hash ?c) (fn_store n) = (x, t)"
        by fastforce
      note t = upto_store [OF Cons.prems(1) put]
      show ?thesis
        using Cons.prems(2) False Inr put t Cons.IH [OF t, of b] by (cases x) (auto simp: Let_def)
    qed
  qed
qed

lemma upto_seed: "node_upto F n \<Longrightarrow> seed C fs m path n = (r, n') \<Longrightarrow> node_upto F n'"
  using upto_seed_loop [OF upto_register [of F n m]]
  by (fastforce simp: seed_def Let_def split: option.splits if_splits sum.splits prod.splits intro: upto_register)

text \<open>Closing: while the loop runs, the downloads not yet visited still count requests to the gone peer.\<close>

definition closing :: "string \<Rightarrow> string list \<Rightarrow> file_node \<Rightarrow> bool" where
  "closing k fs n \<longleftrightarrow>
     store_ok (fn_store n) \<and> jm_ok (fn_downloads n) \<and>
     (\<forall>j. jm_has (fn_sessions n) j \<or> jm_has (fn_peerHave n) j \<longrightarrow> known_key (fn_seq n) j) \<and>
     (\<forall>f d. jm_get (fn_downloads n) f = Some d \<longrightarrow>
        base_ok (fn_store n) f d \<and>
        (if f \<in> set fs then pipe_ok n f (drop_peer k d) else pipe_ok n f d \<and> saturated n f d))"

lemma base_drop [simp]: "base_ok st f (drop_peer k d) = base_ok st f d"
  by (simp add: drop_peer_def)

lemma schedule_frame [simp]:
  "fn_store (schedule mix f n) = fn_store n" "fn_sessions (schedule mix f n) = fn_sessions n"
  "fn_peerHave (schedule mix f n) = fn_peerHave n" "fn_seq (schedule mix f n) = fn_seq n"
  "fn_manifests (schedule mix f n) = fn_manifests n"
  by (simp_all add: schedule_eq split: option.splits)

lemma schedule_downloads:
  "jm_get (fn_downloads (schedule mix f n)) g =
     (if g = f then map_option (\<lambda>d. if dl_done d then d else fst (sched_dl mix n f d)) (jm_get (fn_downloads n) f)
      else jm_get (fn_downloads n) g)"
  by (simp add: schedule_eq split: option.splits)

lemma schedule_ok: "jm_ok (fn_downloads n) \<Longrightarrow> jm_ok (fn_downloads (schedule mix f n))"
  by (simp add: schedule_eq jm_ok_set split: option.splits)

lemma closing_step:
  assumes "closing k (f # fs) n" and "f \<notin> set fs" and "mixer_ok mix"
  shows "closing k fs (case jm_get (fn_downloads n) f of None \<Rightarrow> n
    | Some d \<Rightarrow> schedule mix f (set_download f (drop_peer k d) n))"
proof (cases "jm_get (fn_downloads n) f")
  case None
  then have "jm_get (fn_downloads n) g = Some d \<Longrightarrow> g \<in> set (f # fs) \<longleftrightarrow> g \<in> set fs" for g d by auto
  then show ?thesis using assms(1) None unfolding closing_def by (metis option.simps(4))
next
  case (Some d)
  let ?m = "set_download f (drop_peer k d) n"
  let ?n = "schedule mix f ?m"
  have d: "base_ok (fn_store n) f d" "pipe_ok n f (drop_peer k d)" using assms(1) Some by (auto simp: closing_def)
  then have nd: "\<not> dl_done (drop_peer k d)" by (simp add: base_ok_def drop_peer_def)
  obtain e es where e: "sched_dl mix ?m f (drop_peer k d) = (e, es)" by fastforce
  have "pipe_ok ?m f (drop_peer k d)" using d(2) by simp
  note ok = sched_dl_ok [OF assms(3) this e]
  then obtain y where y: "e = (drop_peer k d)\<lparr>dl_inFlight := y\<rparr>" by blast
  have eb: "base_ok (fn_store n) f e" using d(1) by (simp add: y)
  note sm = same_peers [of ?n n, simplified]
  have g: "jm_get (fn_downloads ?n) g = (if g = f then Some e else jm_get (fn_downloads n) g)" for g
    using nd e by (simp add: schedule_downloads)
  have ep: "pipe_ok n f e" "saturated n f e" using ok by simp_all
  have "closing k fs ?n"
    using assms(1,2) eb ep unfolding closing_def g sm
    by (auto simp: schedule_ok jm_ok_set)
  then show ?thesis using Some by simp
qed

lemma closing_loop:
  "closing k fs n \<Longrightarrow> distinct fs \<Longrightarrow> mixer_ok mix \<Longrightarrow> closing k [] (close_loop mix k fs n)"
proof (induction fs arbitrary: n)
  case (Cons f fs)
  then show ?case using closing_step [of k f fs n mix] by simp
qed simp

lemma filter_alist: "filter (\<lambda>(i, p). p \<noteq> k) m = jm_delete_if (\<lambda>i p. p = k) m"
  by (auto simp: jm_delete_if_def intro!: filter_cong)

lemma upto_close:
  assumes "node_ok n" and "mixer_ok mix"
  shows "node_ok (onClose mix k n)"
proof -
  let ?n = "n\<lparr>fn_sessions := jm_delete (fn_sessions n) k, fn_peerHave := jm_delete (fn_peerHave n) k\<rparr>"
  have w: "p \<in> set (peersForChunk ?n f d i) \<longleftrightarrow> p \<noteq> k \<and> p \<in> set (peersForChunk n f d i)" for p f d i
    by (auto simp: peers_iff peerFileSet_iff split: if_splits)
  have pd: "pipe_ok ?n f (drop_peer k d)" if "pipe_ok n f d" for f d
  proof -
    have i: "dl_inFlight (drop_peer k d) = jm_delete_if (\<lambda>i p. p = k) (dl_inFlight d)"
      "dl_needed (drop_peer k d) = dl_needed d" "dl_parallel (drop_peer k d) = dl_parallel d"
      "peersForChunk ?n f (drop_peer k d) = peersForChunk ?n f d"
      by (simp_all add: drop_peer_def filter_alist fun_eq_iff)
    have "jm_size (jm_delete_if (\<lambda>i p. p = k) (dl_inFlight d)) \<le> jm_size (dl_inFlight d)"
      by (simp add: jm_size_def jm_delete_if_def)
    then show ?thesis using that unfolding pipe_ok_def i w
      by (auto simp: jm_ok_delete_if jm_get_delete_if split: option.splits if_splits)
  qed
  have "f \<in> set (jm_keys (fn_downloads n))" if "jm_get (fn_downloads n) f = Some d" for f d
    using that jm_get_iff_keys [of "fn_downloads n" f] by auto
  then have "closing k (jm_keys (fn_downloads n)) ?n"
    using assms(1) pd by (auto simp: closing_def node_upto_def)
  moreover have "distinct (jm_keys (fn_downloads n))" using assms(1) by (simp add: node_upto_def jm_ok_def)
  ultimately have "closing k [] (close_loop mix k (jm_keys (fn_downloads n)) ?n)"
    using closing_loop assms(2) by blast
  then show ?thesis by (simp add: onClose_def Let_def closing_def node_upto_def)
qed

lemma upto_download:
  assumes "node_ok n" and "mixer_ok mix"
  shows "node_ok (fn_download C mix m path parallel n)"
proof -
  let ?n = "fn_registerManifest m n" and ?f = "mf_file_id m"
  let ?d = "new_download m path parallel ?n"
  have r: "node_ok ?n" by (rule upto_register [OF assms(1)])
  have nd: "\<not> dl_done ?d" by (simp add: new_download_def Let_def)
  let ?es = "to_all (set_download ?f ?d ?n) [MHave ?f (bitfield (fn_store (set_download ?f ?d ?n)) ?f)]"
  show ?thesis
  proof (cases "dl_needed ?d = []")
    case True
    then show ?thesis using upto_complete_set [OF r nd, of C ?f ?es] by (simp add: fn_download_def Let_def)
  next
    case False
    let ?e = "?d\<lparr>dl_tick := True\<rparr>"
    have "base_ok (fn_store ?n) ?f ?e"
      using False by (auto simp: base_ok_def new_download_def Let_def fn_registerManifest_def entry_register)
    moreover have p: "pipe_ok ?n ?f ?e" by (simp add: pipe_ok_def new_download_def Let_def)
    moreover have "base_ok (fn_store ?n) ?f ?d"
      using False by (auto simp: base_ok_def new_download_def Let_def fn_registerManifest_def entry_register)
    moreover have "pipe_ok ?n ?f ?d" by (simp add: pipe_ok_def new_download_def Let_def)
    ultimately have "node_upto {?f} (set_download ?f ?e (fn_emit ?es (set_download ?f ?d ?n)))"
      using upto_set [of "{?f}" "fn_emit ?es (set_download ?f ?d ?n)" ?f ?e] upto_set [OF r, of ?f ?d] by simp
    from upto_schedule_only [OF this assms(2)] False show ?thesis by (simp add: fn_download_def Let_def)
  qed
qed

lemma serve_state:
  "serveChunk C ks s f i n = (r, n') \<Longrightarrow> \<exists>es. n' = fn_emit es n"
proof -
  have e: "\<exists>es. m = fn_emit es m" for m :: file_node by (intro exI [of _ "[]"]) (simp add: fn_emit_def)
  show "serveChunk C ks s f i n = (r, n') \<Longrightarrow> \<exists>es. n' = fn_emit es n"
    by (auto simp: serveChunk_def Let_def e split: if_splits sum.splits)
qed

lemma upto_msg:
  assumes "node_ok n" and "mixer_ok mix" and "known_key (fn_seq n) (fs_peerHex s)"
    and "handleMsg C ks mix s msg n = (r, n')"
  shows "node_ok n'"
proof (cases msg)
  case (MHave f bits)
  then show ?thesis
    using assms(4) assms(1) upto_schedule_only [OF upto_add_have [OF assms(1,3)] assms(2)]
    by (auto simp: handleMsg_def split: option.splits)
next
  case (MHavePiece f i)
  then show ?thesis
    using assms(4) upto_schedule_only [OF upto_add_have [OF assms(1,3)] assms(2)]
    by (auto simp: handleMsg_def)
next
  case (MChunkReq f i)
  then show ?thesis using assms(1,4) serve_state by (fastforce simp: handleMsg_def)
next
  case (MChunkData f i h sg d)
  then show ?thesis using assms(4) upto_chunk_data [OF assms(1,2)] by (simp add: handleMsg_def)
qed (use assms(1,4) upto_register in \<open>auto simp: handleMsg_def\<close>)

lemma upto_apply:
  assumes "node_ok n" and "op_ok (fn_seq n) (mix, x)"
  shows "node_ok (fn_apply W mix x n)"
proof (cases x)
  case (FMsg s buf)
  then show ?thesis
    using assms upto_msg [OF assms(1), of mix s] by (auto simp: handleMessage_def split: sum.splits) (metis prod.collapse)
next
  case (FSeed m path)
  then show ?thesis using upto_seed [OF assms(1)] by (metis fn_apply.simps(7) prod.collapse)
qed (use assms upto_attach upto_timeout upto_close upto_download upto_schedule [of "{}" n mix] in auto)

lemma upto_run: "node_ok n \<Longrightarrow> ops_ok W ops n \<Longrightarrow> node_ok (fn_run W ops n)"
proof (induction ops arbitrary: n)
  case (Cons a ops)
  obtain mix x where a: "a = (mix, x)" by fastforce
  with Cons show ?case using upto_apply [of n mix x W] by simp
qed simp

lemma node_ok_new: "store_ok st \<Longrightarrow> node_ok (new_file_node st parallel)"
  by (simp add: node_upto_def new_file_node_def)

section \<open>Properties\<close>

text \<open>C15. The request pipeline. In every state a node reaches, whatever its peers send and whenever they
  disconnect, each download in progress has at most its limit of requests in flight, no chunk is requested
  twice at once, and every request in flight is for a chunk that is still needed, to a session that is
  open, has announced that chunk, and has not delivered a corrupt copy of it.\<close>

theorem download_pipeline:
  assumes "store_ok st" and "ops_ok W ops (new_file_node st parallel)"
    and "n = fn_run W ops (new_file_node st parallel)" and "jm_get (fn_downloads n) f = Some d"
  shows "jm_size (dl_inFlight d) \<le> dl_parallel d \<and> distinct (jm_keys (dl_inFlight d)) \<and>
    (\<forall>i k. jm_get (dl_inFlight d) i = Some k \<longrightarrow>
       i \<in> set (dl_needed d) \<and> i < mf_nb_chunks (dl_manifest d) \<and>
       jm_has (fn_sessions n) k \<and> i \<in> set (peerFileSet k f n) \<and> k \<notin> set (bad_peers d i))"
proof -
  have "node_ok n" using upto_run [OF node_ok_new [OF assms(1)] assms(2)] assms(3) by simp
  then have "base_ok (fn_store n) f d" "pipe_ok n f d" using assms(4) by (simp_all add: node_upto_def)
  then show ?thesis by (auto simp: pipe_ok_def base_ok_def peers_iff jm_ok_def)
qed

text \<open>C16. No stall: in every such state, if a download still has room for a request, then every chunk it needs
  is requested or cannot be, because no open session that has not corrupted it has announced it; and every
  missing chunk is needed. So the node never waits for a timer to ask for what it could ask now.\<close>

theorem download_saturated:
  assumes "store_ok st" and "ops_ok W ops (new_file_node st parallel)"
    and "n = fn_run W ops (new_file_node st parallel)" and "jm_get (fn_downloads n) f = Some d"
  shows "dl_needed d \<noteq> [] \<and>
    (\<forall>i < mf_nb_chunks (dl_manifest d). hasChunk (fn_store n) f i \<or> i \<in> set (dl_needed d)) \<and>
    (jm_size (dl_inFlight d) < dl_parallel d \<longrightarrow>
      (\<forall>i k. i \<in> set (dl_needed d) \<and> jm_has (fn_sessions n) k \<and> i \<in> set (peerFileSet k f n) \<and>
         k \<notin> set (bad_peers d i) \<longrightarrow> jm_has (dl_inFlight d) i))"
proof -
  have "node_ok n" using upto_run [OF node_ok_new [OF assms(1)] assms(2)] assms(3) by simp
  then have "base_ok (fn_store n) f d" "saturated n f d" using assms(4) by (simp_all add: node_upto_def)
  then show ?thesis by (auto simp: saturated_def base_ok_def no_peers_iff peers_iff)
qed

section \<open>A concrete run\<close>

text \<open>A node that downloads a file of two chunks and hears that one peer has the second chunk.\<close>

definition demo_id :: string where
  "demo_id = hex_of_bytes (replicate 32 5)"

definition demo_file :: manifest where
  "demo_file = demo_manifest\<lparr>mf_file_id := demo_id\<rparr>"

definition demo_peer :: fsession where
  "demo_peer = \<lparr>fs_peerId = replicate 32 7, fs_peerHex = session_key (replicate 32 7) 1\<rparr>"

definition demo_world :: fn_world where
  "demo_world = \<lparr>fw_crypto = demo_crypto, fw_keys = keystore_of demo_crypto (replicate 32 1),
     fw_json = (\<lambda>b. Inl JsonSyntax), fw_files = (\<lambda>p. None)\<rparr>"

definition demo_ops :: "(mixer \<times> fn_op) list" where
  "demo_ops = map (Pair (\<lambda>f xs. xs))
     [FAttach (replicate 32 7), FDownload demo_file ''out'' None,
      FMsg demo_peer (case encHavePiece demo_id 1 of Inl e \<Rightarrow> [] | Inr w \<Rightarrow> w)]"

lemma demo_id_ok: "file_id_ok demo_id"
  unfolding file_id_ok_def demo_id_def by (intro exI [of _ "replicate 32 5"]) simp

lemma demo_decode: "decode J (case encHavePiece demo_id 1 of Inl e \<Rightarrow> [] | Inr w \<Rightarrow> w) = Inr (MHavePiece demo_id 1)"
  using decode_encode [of J "MHavePiece demo_id 1"] demo_id_ok by auto

lemma demo_file_id: "mf_file_id demo_file = demo_id"
  by (simp add: demo_file_def)

lemma register_fields [simp]:
  "fn_sessions (fn_registerManifest m n) = fn_sessions n" "fn_peerHave (fn_registerManifest m n) = fn_peerHave n"
  "fn_downloads (fn_registerManifest m n) = fn_downloads n" "fn_seq (fn_registerManifest m n) = fn_seq n"
  "fn_out (fn_registerManifest m n) = fn_out n"
  "fn_store (fn_registerManifest m n) = store_registerManifest m None (fn_store n)"
  by (simp_all add: fn_registerManifest_def)

lemma mixer_id: "mixer_ok (\<lambda>f xs. xs)"
  by (simp add: mixer_ok_def)

lemma demo_run:
  "ops_ok demo_world demo_ops (new_file_node (open_store empty_disk) 8) \<and>
   (\<exists>d. jm_get (fn_downloads (fn_run demo_world demo_ops (new_file_node (open_store empty_disk) 8))) demo_id = Some d \<and>
     dl_inFlight d = [(1, fs_peerHex demo_peer)] \<and> dl_needed d = [0, 1])"
proof -
  let ?k = "session_key (replicate 32 7) 1"
  let ?n0 = "new_file_node (open_store empty_disk) 8"
  have known: "known_key 1 ?k" unfolding known_key_def by blast
  define n1 where "n1 = snd (attachSession (replicate 32 7) ?n0)"
  have n1: "fn_sessions n1 = [(?k, replicate 32 7)]" "fn_peerHave n1 = [(?k, [])]" "fn_downloads n1 = []"
    "fn_seq n1 = 1" "fn_parallel n1 = 8" "fn_store n1 = open_store empty_disk"
    by (simp_all add: n1_def attachSession_def new_file_node_def Let_def open_store_def load_index_def empty_disk_def)
  define n2 where "n2 = fn_download demo_crypto (\<lambda>f xs. xs) demo_file ''out'' None n1"
  have st: "hasChunk (open_store empty_disk) f i = False" for f i
    by (simp add: hasChunk_def open_store_def load_index_def empty_disk_def)
  have nd: "new_download demo_file ''out'' None (fn_registerManifest demo_file n1) =
      \<lparr>dl_manifest = demo_file, dl_outPath = ''out'', dl_needed = [0, 1], dl_inFlight = [], dl_badPeers = [],
       dl_parallel = 8, dl_done = False, dl_received = 0, dl_tick = False\<rparr>"
    by (simp add: new_download_def fn_registerManifest_def n1 st demo_file_def demo_manifest_def nat_or_def upt_rec)
  have n2: "fn_sessions n2 = fn_sessions n1" "fn_peerHave n2 = fn_peerHave n1" "fn_seq n2 = 1"
    "fn_downloads n2 = [(demo_id, \<lparr>dl_manifest = demo_file, dl_outPath = ''out'', dl_needed = [0, 1],
       dl_inFlight = [], dl_badPeers = [], dl_parallel = 8, dl_done = False, dl_received = 0, dl_tick = True\<rparr>)]"
    by (simp_all add: n2_def fn_download_def nd Let_def schedule_eq set_download_def fn_emit_def sched_dl_def
        availabilityCount_def announced_def n1 jm_get_def demo_file_id)
  have run: "fn_run demo_world demo_ops ?n0 = schedule (\<lambda>f xs. xs) demo_id (add_have ?k demo_id [1] n2)"
    by (simp add: demo_ops_def demo_world_def n1_def n2_def handleMessage_def demo_decode [simplified] handleMsg_def demo_peer_def)
  have "ops_ok demo_world demo_ops ?n0"
    using known n1(4) n2(3) by (simp add: demo_ops_def mixer_id demo_world_def n1_def n2_def demo_peer_def)
  moreover have "sched_dl (\<lambda>f xs. xs) (add_have ?k demo_id [1] n2) demo_id
      \<lparr>dl_manifest = demo_file, dl_outPath = ''out'', dl_needed = [0, 1],
       dl_inFlight = [], dl_badPeers = [], dl_parallel = 8, dl_done = False, dl_received = 0, dl_tick = True\<rparr> =
    (\<lparr>dl_manifest = demo_file, dl_outPath = ''out'', dl_needed = [0, 1],
       dl_inFlight = [(1, ?k)], dl_badPeers = [], dl_parallel = 8, dl_done = False, dl_received = 0, dl_tick = True\<rparr>,
     [FSend ?k (MChunkReq demo_id 1)])"
    by (simp add: sched_dl_def availabilityCount_def announced_def add_have_def n2 n1 jm_get_def count_one_def jm_has_def
        jm_keys_def nat_or_def peersForChunk_def peerFileSet_def set_add_def jm_size_def Let_def)
  moreover have "jm_get (fn_downloads n2) demo_id = Some \<lparr>dl_manifest = demo_file, dl_outPath = ''out'',
      dl_needed = [0, 1], dl_inFlight = [], dl_badPeers = [], dl_parallel = 8, dl_done = False, dl_received = 0,
      dl_tick = True\<rparr>" by (simp add: n2 jm_get_def)
  ultimately show ?thesis by (simp add: run schedule_downloads demo_peer_def)
qed

theorem download_pipeline_witness:
  "\<exists>d. jm_get (fn_downloads (fn_run demo_world demo_ops (new_file_node (open_store empty_disk) 8))) demo_id = Some d \<and>
    dl_inFlight d = [(1, fs_peerHex demo_peer)] \<and> fs_peerHex demo_peer \<notin> set (bad_peers d 1)"
proof -
  obtain d where d: "jm_get (fn_downloads (fn_run demo_world demo_ops (new_file_node (open_store empty_disk) 8))) demo_id = Some d"
    "dl_inFlight d = [(1, fs_peerHex demo_peer)]" using demo_run by blast
  from download_pipeline [OF store_ok_empty _ refl d(1)] demo_run d show ?thesis by (simp add: jm_get_def)
qed

theorem download_saturated_witness:
  "\<exists>d. jm_get (fn_downloads (fn_run demo_world demo_ops (new_file_node (open_store empty_disk) 8))) demo_id = Some d \<and>
    1 \<in> set (jm_keys (dl_inFlight d)) \<and> dl_needed d \<noteq> []"
proof -
  obtain d where d: "jm_get (fn_downloads (fn_run demo_world demo_ops (new_file_node (open_store empty_disk) 8))) demo_id = Some d"
    "dl_inFlight d = [(1, fs_peerHex demo_peer)]" using demo_run by blast
  from download_saturated [OF store_ok_empty _ refl d(1)] demo_run d show ?thesis by (simp add: jm_keys_def)
qed

end
