(* ===== verification/DownloadCorrect.thy ===== *)
theory DownloadCorrect
  imports FileTransfer
begin

text \<open>
  A download ends well. The file is described by an honest manifest, so chunk \<open>i\<close> of it hashes to the
  manifest's entry \<open>i\<close>; peers are arbitrary, except that none finds a second input with the hash of a chunk
  (\<open>genuine\<close>, a condition on the messages of the run).
\<close>

section \<open>A file and its manifest\<close>

text \<open>\<open>describes C m P\<close>: the manifest \<open>m\<close> is that of the file with the chunks \<open>P 0\<close>, \<open>P 1\<close>, ...\<close>

definition describes :: "crypto \<Rightarrow> manifest \<Rightarrow> (nat \<Rightarrow> bytes) \<Rightarrow> bool" where
  "describes C m P \<longleftrightarrow>
     length (mf_chunks m) = mf_nb_chunks m \<and>
     (\<forall>i < mf_nb_chunks m. ci_hash (mf_chunks m ! i) = hex_sha C (P i)) \<and>
     mf_file_id m = hex_sha C (concat (map P [0..<mf_nb_chunks m]))"

definition whole :: "manifest \<Rightarrow> (nat \<Rightarrow> bytes) \<Rightarrow> bytes" where
  "whole m P = concat (map P [0..<mf_nb_chunks m])"

fun genuine :: "fn_world \<Rightarrow> manifest \<Rightarrow> (nat \<Rightarrow> bytes) \<Rightarrow> fn_op \<Rightarrow> bool" where
  "genuine W m P (FMsg s buf) \<longleftrightarrow>
     (\<forall>i h sg d. decode (fw_json W) buf = Inr (MChunkData (mf_file_id m) i h sg d) \<and> i < mf_nb_chunks m \<and>
        hex_sha (fw_crypto W) d = hex_sha (fw_crypto W) (P i) \<longrightarrow> d = P i)"
| "genuine W m P (FDownload m' path par) \<longleftrightarrow> mf_file_id m' \<noteq> mf_file_id m"
| "genuine W m P (FSeed m' path) \<longleftrightarrow> mf_file_id m' \<noteq> mf_file_id m"
| "genuine W m P x \<longleftrightarrow> True"

text \<open>What the node knows of the file while it downloads it.\<close>

definition transfer_ok :: "manifest \<Rightarrow> (nat \<Rightarrow> bytes) \<Rightarrow> file_node \<Rightarrow> bool" where
  "transfer_ok m P n \<longleftrightarrow>
     (\<exists>e. jm_get (cs_files (fn_store n)) (mf_file_id m) = Some e \<and> fe_nb_chunks e = mf_nb_chunks m) \<and>
     (\<forall>i. hasChunk (fn_store n) (mf_file_id m) i \<longrightarrow> i < mf_nb_chunks m) \<and>
     repo.valid (\<lambda>i d. d = P i) (fn_store n) (mf_file_id m) \<and>
     (\<forall>d. jm_get (fn_downloads n) (mf_file_id m) = Some d \<longrightarrow> dl_manifest d = m)"

fun good_effect :: "manifest \<Rightarrow> (nat \<Rightarrow> bytes) \<Rightarrow> fn_effect \<Rightarrow> bool" where
  "good_effect m P (FRejected f e) \<longleftrightarrow> f \<noteq> mf_file_id m"
| "good_effect m P (FResolved f sha ok) \<longleftrightarrow> (f = mf_file_id m \<longrightarrow> sha = f \<and> ok)"
| "good_effect m P (FWrote f path b) \<longleftrightarrow> (f = mf_file_id m \<longrightarrow> b = whole m P)"
| "good_effect m P x \<longleftrightarrow> True"

definition pending :: "manifest \<Rightarrow> file_node \<Rightarrow> bool" where
  "pending m n \<longleftrightarrow> jm_has (fn_downloads n) (mf_file_id m)"

text \<open>A step that keeps this, and resolves the download when it ends it.\<close>

definition fair :: "manifest \<Rightarrow> (nat \<Rightarrow> bytes) \<Rightarrow> file_node \<Rightarrow> file_node \<Rightarrow> bool" where
  "fair m P n n' \<longleftrightarrow>
     (transfer_ok m P n \<longrightarrow> transfer_ok m P n' \<and>
       (\<exists>es. fn_out n' = fn_out n @ es \<and> (\<forall>x \<in> set es. good_effect m P x) \<and>
         (pending m n' \<longrightarrow> pending m n) \<and>
         (pending m n \<and> \<not> pending m n' \<longrightarrow> FResolved (mf_file_id m) (mf_file_id m) True \<in> set es \<and>
            (\<exists>path. FWrote (mf_file_id m) path (whole m P) \<in> set es))))"

lemma fair_refl [intro]: "fair m P n n"
  by (auto simp: fair_def)

lemma fairE:
  assumes "fair m P n n'" and "transfer_ok m P n"
  obtains es where "transfer_ok m P n'" "fn_out n' = fn_out n @ es" "\<forall>x \<in> set es. good_effect m P x"
    "pending m n' \<longrightarrow> pending m n"
    "pending m n \<and> \<not> pending m n' \<longrightarrow> FResolved (mf_file_id m) (mf_file_id m) True \<in> set es \<and>
      (\<exists>path. FWrote (mf_file_id m) path (whole m P) \<in> set es)"
  using assms unfolding fair_def by blast

lemma fair_trans:
  assumes "fair m P a b" and "fair m P b c"
  shows "fair m P a c"
  unfolding fair_def
proof (intro impI)
  assume t: "transfer_ok m P a"
  obtain es where 1: "transfer_ok m P b" "fn_out b = fn_out a @ es" "\<forall>x \<in> set es. good_effect m P x"
    "pending m b \<longrightarrow> pending m a"
    "pending m a \<and> \<not> pending m b \<longrightarrow> FResolved (mf_file_id m) (mf_file_id m) True \<in> set es \<and>
      (\<exists>path. FWrote (mf_file_id m) path (whole m P) \<in> set es)"
    by (rule fairE [OF assms(1) t])
  obtain es' where 2: "transfer_ok m P c" "fn_out c = fn_out b @ es'" "\<forall>x \<in> set es'. good_effect m P x"
    "pending m c \<longrightarrow> pending m b"
    "pending m b \<and> \<not> pending m c \<longrightarrow> FResolved (mf_file_id m) (mf_file_id m) True \<in> set es' \<and>
      (\<exists>path. FWrote (mf_file_id m) path (whole m P) \<in> set es')"
    by (rule fairE [OF assms(2) 1(1)])
  have "fn_out c = fn_out a @ (es @ es')" "\<forall>x \<in> set (es @ es'). good_effect m P x"
    using 1(2,3) 2(2,3) by auto
  moreover have "pending m a \<and> \<not> pending m c \<longrightarrow> FResolved (mf_file_id m) (mf_file_id m) True \<in> set (es @ es') \<and>
      (\<exists>path. FWrote (mf_file_id m) path (whole m P) \<in> set (es @ es'))"
    using 1(5) 2(5) by (cases "pending m b") auto
  ultimately show "transfer_ok m P c \<and> (\<exists>es. fn_out c = fn_out a @ es \<and> (\<forall>x \<in> set es. good_effect m P x) \<and>
      (pending m c \<longrightarrow> pending m a) \<and>
      (pending m a \<and> \<not> pending m c \<longrightarrow> FResolved (mf_file_id m) (mf_file_id m) True \<in> set es \<and>
        (\<exists>path. FWrote (mf_file_id m) path (whole m P) \<in> set es)))"
    using 1(4) 2(1,4) by blast
qed

lemma fair_emit: "\<forall>x \<in> set es. good_effect m P x \<Longrightarrow> fair m P n (fn_emit es n)"
  by (auto simp: fair_def transfer_ok_def pending_def)

text \<open>Steps that leave the file's download and chunks alone.\<close>

lemma fair_frame:
  assumes "fn_out n' = fn_out n" and "fn_store n' = fn_store n"
    and "map_option dl_manifest (jm_get (fn_downloads n') (mf_file_id m)) =
      map_option dl_manifest (jm_get (fn_downloads n) (mf_file_id m))"
  shows "fair m P n n'"
  using assms unfolding fair_def transfer_ok_def pending_def jm_has_def
  by (cases "jm_get (fn_downloads n) (mf_file_id m)"; cases "jm_get (fn_downloads n') (mf_file_id m)") auto

lemma fair_register: "fair m P n (fn_registerManifest m' n)"
  by (auto simp: fair_def transfer_ok_def pending_def repo.valid_def entry_register)

lemma fair_set_other: "f \<noteq> mf_file_id m \<Longrightarrow> fair m P n (set_download f d n)"
  by (rule fair_frame) simp_all

lemma fair_set:
  "jm_get (fn_downloads n) f = Some d \<Longrightarrow> dl_manifest d' = dl_manifest d \<Longrightarrow> fair m P n (set_download f d' n)"
  by (rule fair_frame) auto

lemma fair_have: "fair m P n (add_have k f is n)"
  by (rule fair_frame) simp_all

lemma sched_loop_out:
  "sched_loop n f is d = (d', es) \<Longrightarrow> (\<forall>x \<in> set es. good_effect m P x) \<and> dl_manifest d' = dl_manifest d"
proof (induction "is" arbitrary: d es)
  case (Cons i "is")
  consider "dl_parallel d \<le> jm_size (dl_inFlight d)"
    | "\<not> dl_parallel d \<le> jm_size (dl_inFlight d)" "jm_has (dl_inFlight d) i \<or> peersForChunk n f d i = []"
    | "\<not> dl_parallel d \<le> jm_size (dl_inFlight d)" "\<not> (jm_has (dl_inFlight d) i \<or> peersForChunk n f d i = [])"
    by blast
  then show ?case
  proof cases
    case 1
    then show ?thesis using Cons.prems by simp
  next
    case 2
    then have "sched_loop n f is d = (d', es)" using Cons.prems by (auto simp: Let_def split: if_splits)
    then show ?thesis by (rule Cons.IH)
  next
    case 3
    let ?e = "d\<lparr>dl_inFlight := jm_set (dl_inFlight d) i (hd (sort_key (inFlightForPeer d) (peersForChunk n f d i)))\<rparr>"
    obtain d2 es2 where l: "sched_loop n f is ?e = (d2, es2)" by fastforce
    have "d' = d2" "es = FSend (hd (sort_key (inFlightForPeer d) (peersForChunk n f d i))) (MChunkReq f i) # es2"
      using Cons.prems 3 l by (simp_all add: Let_def)
    moreover have "sched_loop n f is ?e = (d', es2)" using l \<open>d' = d2\<close> by simp
    ultimately show ?thesis using Cons.IH [of ?e es2] by simp
  qed
qed simp

lemma fair_schedule: "fair m P n (schedule mix f n)"
proof (cases "jm_get (fn_downloads n) f")
  case None
  then show ?thesis by (auto simp: schedule_eq)
next
  case (Some d)
  obtain e es where e: "sched_dl mix n f d = (e, es)" by fastforce
  then have o: "\<forall>x \<in> set es. good_effect m P x" "dl_manifest e = dl_manifest d"
    using sched_loop_out by (auto simp: sched_dl_def Let_def)
  show ?thesis
    using Some e fair_trans [OF fair_set [OF Some o(2)] fair_emit [OF o(1)]] by (auto simp: schedule_eq)
qed

lemma fair_put:
  assumes "store_ok (fn_store n)" and "putChunk C f i d h (fn_store n) = (r, st)"
    and "f = mf_file_id m \<Longrightarrow> i < mf_nb_chunks m \<and> d = P i"
  shows "fair m P n (n\<lparr>fn_store := st\<rparr>)"
proof -
  let ?f = "mf_file_id m"
  have v: "repo.valid (\<lambda>i d. d = P i) (fn_store n) ?f \<Longrightarrow> repo.valid (\<lambda>i d. d = P i) st ?f"
    using assms(3) by (intro repo.valid_put [OF assms(1,2)]) auto
  have h: "hasChunk st ?f j \<Longrightarrow> hasChunk (fn_store n) ?f j \<or> j < mf_nb_chunks m" for j
    using repo.put_has [OF assms(1,2), of ?f j] assms(3) by auto
  have "\<exists>e. jm_get (cs_files st) ?f = Some e \<and> fe_nb_chunks e = mf_nb_chunks m"
    if "\<exists>e. jm_get (cs_files (fn_store n)) ?f = Some e \<and> fe_nb_chunks e = mf_nb_chunks m"
    using that putChunk_nb [OF assms(1,2), of ?f] by (cases "jm_get (cs_files st) ?f") auto
  moreover have "fn_store (n\<lparr>fn_store := st\<rparr>) = st" "fn_downloads (n\<lparr>fn_store := st\<rparr>) = fn_downloads n"
    "fn_out (n\<lparr>fn_store := st\<rparr>) = fn_out n @ []" by simp_all
  ultimately show ?thesis unfolding fair_def transfer_ok_def pending_def using v h by (metis empty_iff list.set(1))
qed

lemma fair_complete_other: "f \<noteq> mf_file_id m \<Longrightarrow> fair m P n (complete C f n)"
proof -
  assume f: "f \<noteq> mf_file_id m"
  have g: "\<forall>x \<in> set ((case out of None \<Rightarrow> [] | Some b \<Rightarrow> [FWrote f p b]) @
      [case r of Inl e \<Rightarrow> FRejected f e | Inr sha \<Rightarrow> FResolved f sha (sha = i)]). good_effect m P x" for out r p i
    using f by (auto split: option.splits sum.splits)
  have d: "fair m P n (n\<lparr>fn_downloads := jm_delete (fn_downloads n) f\<rparr>)"
    using f by (intro fair_frame) auto
  show "fair m P n (complete C f n)"
  proof (cases "jm_get (fn_downloads n) f")
    case (Some x)
    obtain r out where "assemble C (fn_store n) f = (r, out)" by fastforce
    then have "complete C f n = (if dl_done x then n else
        fn_emit ((case out of None \<Rightarrow> [] | Some b \<Rightarrow> [FWrote f (dl_outPath x) b]) @
          [case r of Inl e \<Rightarrow> FRejected f e | Inr sha \<Rightarrow> FResolved f sha (sha = mf_file_id (dl_manifest x))])
        (n\<lparr>fn_downloads := jm_delete (fn_downloads n) f\<rparr>))"
      using Some by (simp add: complete_def)
    then show ?thesis using fair_trans [OF d fair_emit [OF g]] by (simp only: fair_refl simp_thms split: if_split)
  qed (simp add: complete_def fair_refl)
qed

text \<open>The download itself completes when no chunk is missing.\<close>

lemma assemble_transfer:
  assumes "store_ok st" and "jm_get (cs_files st) f = Some e" and "fe_nb_chunks e = k"
    and "\<forall>i. hasChunk st f i \<longleftrightarrow> i < k" and "repo.valid (\<lambda>i d. d = P i) st f"
  shows "assemble C st f = (Inr (hex_sha C (concat (map P [0..<k]))), Some (concat (map P [0..<k])))"
proof -
  have h: "hasChunk st f i \<longleftrightarrow> i \<in> set (fe_chunks e)" for i using assms(2) by (simp add: hasChunk_def)
  have "set (fe_chunks e) = {0..<k}"
  proof (rule set_eqI)
    fix i
    show "i \<in> set (fe_chunks e) \<longleftrightarrow> i \<in> {0..<k}" using assms(4) h [of i] by simp
  qed
  then have l: "length (fe_chunks e) = k"
    using distinct_card [OF entry_chunks(2) [OF assms(1,2)]] by simp
  have "getChunk st f i = Inr (P i)" if "i < k" for i
    using that assms(4,5) hasChunk_get [OF assms(1), of f i] by (auto simp: repo.valid_def)
  then show ?thesis using assemble_all [OF assms(2), of P C] l assms(3) by simp
qed

lemma fair_complete:
  assumes "describes C m P" and "store_ok (fn_store n)" and "jm_get (fn_downloads n) (mf_file_id m) = Some d"
    and "\<not> dl_done d" and "\<forall>i < mf_nb_chunks m. hasChunk (fn_store n) (mf_file_id m) i"
  shows "fair m P n (complete C (mf_file_id m) n)"
  unfolding fair_def
proof (intro impI)
  let ?f = "mf_file_id m" and ?n = "complete C (mf_file_id m) n"
  assume t: "transfer_ok m P n"
  then obtain e where e: "jm_get (cs_files (fn_store n)) ?f = Some e" "fe_nb_chunks e = mf_nb_chunks m"
    and h: "\<forall>i. hasChunk (fn_store n) ?f i \<longleftrightarrow> i < mf_nb_chunks m"
    and v: "repo.valid (\<lambda>i d. d = P i) (fn_store n) ?f" and dm: "dl_manifest d = m"
    using assms(3,5) by (auto simp: transfer_ok_def)
  have "assemble C (fn_store n) ?f = (Inr ?f, Some (whole m P))"
    using assemble_transfer [OF assms(2) e h v] assms(1) by (simp add: describes_def whole_def)
  then have n': "?n = fn_emit [FWrote ?f (dl_outPath d) (whole m P), FResolved ?f ?f True]
      (n\<lparr>fn_downloads := jm_delete (fn_downloads n) ?f\<rparr>)"
    using assms(3,4) dm by (simp add: complete_def)
  have "transfer_ok m P ?n" using t unfolding n' by (auto simp: transfer_ok_def)
  then show "transfer_ok m P ?n \<and> (\<exists>es. fn_out ?n = fn_out n @ es \<and> (\<forall>x \<in> set es. good_effect m P x) \<and>
      (pending m ?n \<longrightarrow> pending m n) \<and>
      (pending m n \<and> \<not> pending m ?n \<longrightarrow> FResolved ?f ?f True \<in> set es \<and>
        (\<exists>path. FWrote ?f path (whole m P) \<in> set es)))"
    unfolding n' by (auto simp: pending_def)
qed

section \<open>Every operation is fair\<close>

lemma fair_to_all: "\<forall>x \<in> set (to_all n ms). good_effect m P x"
  by (auto simp: to_all_def)

lemma expected_describes:
  assumes "describes C m P" and "expected_hash m i \<noteq> ''''"
  shows "i < mf_nb_chunks m \<and> expected_hash m i = hex_sha C (P i)"
  using assms by (auto simp: describes_def expected_hash_def split: if_splits)

lemma complete_dl:
  "jm_get (fn_downloads n) f = Some d \<Longrightarrow> dl_manifest d' = dl_manifest d \<Longrightarrow>
    \<forall>x \<in> set es. good_effect m P x \<Longrightarrow> fair m P n (fn_emit es (set_download f d' n))"
  using fair_trans [OF fair_set fair_emit] by blast

lemma fair_accept:
  assumes "describes C m P" and "node_upto {f} n" and "jm_get (fn_downloads n) f = Some d"
    and "chunk_good C (dl_manifest d) pid f idx h sg data"
    and "f = mf_file_id m \<Longrightarrow> dl_manifest d = m \<Longrightarrow> idx < mf_nb_chunks m \<Longrightarrow> hex_sha C data = hex_sha C (P idx) \<Longrightarrow>
      data = P idx"
    and "transfer_ok m P n" and "accept_chunk C mix s f idx data d n = (r, n')"
  shows "fair m P n n'"
proof -
  have st: "store_ok (fn_store n)" and b: "base_ok (fn_store n) f d"
    using assms(2,3) by (auto simp: node_upto_def)
  have x: "expected_hash (dl_manifest d) idx \<noteq> ''''" "hex_sha C data = expected_hash (dl_manifest d) idx"
    using assms(4) by (simp_all add: chunk_good_def)
  have dm: "f = mf_file_id m \<Longrightarrow> dl_manifest d = m" using assms(3,6) by (auto simp: transfer_ok_def)
  have e: "jm_get (cs_files (fn_store n)) f \<noteq> None" using b by (simp add: base_ok_def)
  obtain hh t es n2 where put: "putChunk C f idx data (expected_hash (dl_manifest d) idx) (fn_store n) = (Inr (PutOk hh), t)"
    and es: "es = [FSend (fs_peerHex s) (MAck idx (Some ACK_OK))] @ to_all (n\<lparr>fn_store := t\<rparr>) [MHavePiece f idx] @
      [FProgress f idx (dl_received d + 1) (mf_nb_chunks (dl_manifest d))]"
    and n2: "n2 = fn_emit es (set_download f (accepted idx d) (n\<lparr>fn_store := t\<rparr>))"
    and acc: "accept_chunk C mix s f idx data d n =
      (Inr (), if dl_needed (accepted idx d) = [] then complete C f n2 else schedule mix f n2)"
    by (rule accept_chunk_eq [where s = s and mix = mix, OF st e x(2)])
  have pidx: "f = mf_file_id m \<Longrightarrow> idx < mf_nb_chunks m \<and> data = P idx"
    using dm x expected_describes [OF assms(1)] assms(5) by metis
  have f1: "fair m P n (n\<lparr>fn_store := t\<rparr>)" by (rule fair_put [OF st put]) (rule pidx)
  have n': "n' = (if dl_needed (accepted idx d) = [] then complete C f n2 else schedule mix f n2)"
    using assms(7) acc by simp
  have "\<forall>x \<in> set es. good_effect m P x"
    using fair_to_all [of "n\<lparr>fn_store := t\<rparr>" "[MHavePiece f idx]" m P] by (auto simp: es)
  then have "fair m P (n\<lparr>fn_store := t\<rparr>) n2"
    unfolding n2 using assms(3) by (intro complete_dl [of _ _ d]) simp_all
  with f1 have f2: "fair m P n n2" by (rule fair_trans)
  show ?thesis
  proof (cases "dl_needed (accepted idx d) = [] \<and> f = mf_file_id m")
    case False
    then have "fair m P n2 n'" using n' fair_schedule fair_complete_other by (cases "dl_needed (accepted idx d) = []") simp_all
    then show ?thesis using fair_trans [OF f2] by blast
  next
    case True
    have has: "hasChunk t f i" if "i < mf_nb_chunks m" for i
    proof (cases "hasChunk (fn_store n) f i")
      case True
      then show ?thesis by (rule repo.put_mono [OF st put])
    next
      case no: False
      have "i \<in> set (dl_needed d)" using that no b dm True by (auto simp: base_ok_def)
      then have "i = idx" using True by (auto simp: filter_empty_conv)
      then show ?thesis using repo.put_done [OF st put] by simp
    qed
    have "fair m P n2 (complete C f n2)"
      using fair_complete [OF assms(1), of n2 "accepted idx d"] has True store_ok_put [OF st put] b
      by (simp add: n2 base_ok_def)
    then show ?thesis using fair_trans [OF f2] n' True by simp
  qed
qed

lemma fair_chunk_data:
  assumes "describes C m P" and "node_ok n" and "transfer_ok m P n"
    and "f = mf_file_id m \<Longrightarrow> idx < mf_nb_chunks m \<Longrightarrow> hex_sha C data = hex_sha C (P idx) \<Longrightarrow> data = P idx"
    and "onChunkData C mix s f idx h sg data n = (r, n')"
  shows "fair m P n n'"
proof (cases "jm_get (fn_downloads n) f")
  case None
  then show ?thesis using assms(5) by (auto simp: onChunkData_def)
next
  case (Some d0)
  then have b: "base_ok (fn_store n) f d0" "pipe_ok n f d0" using assms(2) by (simp_all add: node_upto_def)
  define d where "d = d0\<lparr>dl_inFlight := jm_delete (dl_inFlight d0) idx\<rparr>"
  have d: "base_ok (fn_store n) f d" "pipe_ok n f d" "dl_manifest d = dl_manifest d0"
    using b pipe_delete by (simp_all add: d_def)
  note o = assms(5) [unfolded onChunkData_def Some option.case Let_def, folded d_def]
  have s1: "fair m P n (set_download f d n)" by (rule fair_set [OF Some d(3)])
  show ?thesis
  proof (cases "chunk_good C (dl_manifest d0) (fs_peerId s) f idx h sg data")
    case True
    have u: "node_upto {f} (set_download f d n)" using upto_set [OF assms(2) d(1,2)] by simp
    have t: "transfer_ok m P (set_download f d n)" using s1 assms(3) by (auto simp: fair_def)
    have a: "accept_chunk C mix s f idx data d (set_download f d n) = (r, n')" using o True by simp
    have "fair m P (set_download f d n) n'"
      by (rule fair_accept [OF assms(1) u _ _ _ t a]) (use True d(3) assms(4) in auto)
    with s1 show ?thesis by (rule fair_trans)
  next
    case False
    let ?d = "mark_bad idx (fs_peerHex s) d"
    let ?es = "[FSend (fs_peerHex s) (MAck idx (Some ACK_HASH_MISMATCH)), FCorrupt f idx (fs_peerHex s)]"
    have "dl_manifest ?d = dl_manifest d0" by (simp add: mark_bad_def d(3))
    then have "fair m P n (fn_emit ?es (set_download f ?d n))" by (intro complete_dl [OF Some]) auto
    moreover have "n' = schedule mix f (fn_emit ?es (set_download f ?d n))" using o False by simp
    ultimately show ?thesis using fair_trans [OF _ fair_schedule] by simp
  qed
qed

lemma fair_serve:
  assumes "serveChunk C ks s f i n = (r, n')"
  shows "fair m P n n'"
proof -
  have "fair m P n (fn_emit [FSend k x] n)" for k x by (rule fair_emit) simp
  then show ?thesis using assms
    by (auto simp: serveChunk_def Let_def split: if_splits sum.splits)
qed

lemma fair_msg:
  assumes "describes (fw_crypto W) m P" and "node_ok n" and "transfer_ok m P n" and "genuine W m P (FMsg s buf)"
    and "handleMessage (fw_crypto W) (fw_keys W) (fw_json W) mix s buf n = (r, n')"
  shows "fair m P n n'"
proof (cases "decode (fw_json W) buf")
  case (Inl e)
  then show ?thesis using assms(5) fair_emit [of "[FError e]" m P n] by (simp add: handleMessage_def)
next
  case (Inr msg)
  then have h: "handleMsg (fw_crypto W) (fw_keys W) mix s msg n = (r, n')" using assms(5) by (simp add: handleMessage_def)
  show ?thesis
  proof (cases msg)
    case (MManifest m')
    have "fair m P n (fn_emit [FManifest m'] (fn_registerManifest m' n))"
      by (rule fair_trans [OF fair_register fair_emit]) simp
    then show ?thesis using h MManifest by (auto simp: handleMsg_def split: if_splits)
  next
    case (MHave f bits)
    then show ?thesis using h fair_trans [OF fair_have fair_schedule] by (auto simp: handleMsg_def split: option.splits)
  next
    case (MHavePiece f i)
    then show ?thesis using h fair_trans [OF fair_have fair_schedule] by (auto simp: handleMsg_def)
  next
    case (MChunkReq f i)
    then show ?thesis using h fair_serve by (simp add: handleMsg_def)
  next
    case (MChunkData f i hh sg d)
    have o: "onChunkData (fw_crypto W) mix s f i hh sg d n = (r, n')" using h MChunkData by (simp add: handleMsg_def)
    show ?thesis
      by (rule fair_chunk_data [OF assms(1-3) _ o]) (use assms(4) Inr MChunkData in simp)
  next
    case (MAck i st)
    then show ?thesis using h by (auto simp: handleMsg_def)
  qed
qed

lemma fair_timeout: "fair m P n (onTimeout mix f i n)"
proof (cases "jm_get (fn_downloads n) f")
  case (Some d)
  have "fair m P n (set_download f (d\<lparr>dl_inFlight := jm_delete (dl_inFlight d) i\<rparr>) n)"
    by (rule fair_set [OF Some]) simp
  then show ?thesis using Some fair_trans [OF _ fair_schedule] by (simp add: onTimeout_def fair_refl)
qed (simp add: onTimeout_def fair_refl)

lemma fair_attach: "fair m P n (snd (attachSession peerId n))"
proof -
  let ?k = "session_key peerId (fn_seq n + 1)"
  let ?n = "n\<lparr>fn_seq := fn_seq n + 1, fn_sessions := jm_set (fn_sessions n) ?k peerId,
    fn_peerHave := jm_set (fn_peerHave n) ?k (case jm_get (fn_peerHave n) ?k of None \<Rightarrow> [] | Some h \<Rightarrow> h)\<rparr>"
  have "\<forall>x \<in> set (concat (map (announce_file ?n ?k) fs)). good_effect m P x" for fs
    by (auto simp: announce_file_def split: option.splits)
  then have "fair m P ?n (fn_emit (concat (map (announce_file ?n ?k) (jm_keys (cs_files (fn_store ?n))))) ?n)"
    by (rule fair_emit)
  moreover have "fair m P n ?n" by (rule fair_frame) simp_all
  ultimately have "fair m P n (fn_emit (concat (map (announce_file ?n ?k) (jm_keys (cs_files (fn_store ?n))))) ?n)"
    using fair_trans by blast
  then show ?thesis unfolding attachSession_def Let_def snd_conv .
qed

lemma fair_close_loop: "fair m P n (close_loop mix k fs n)"
proof (induction fs arbitrary: n)
  case (Cons f fs)
  have "fair m P n (case jm_get (fn_downloads n) f of None \<Rightarrow> n
      | Some d \<Rightarrow> schedule mix f (set_download f (drop_peer k d) n))"
  proof (cases "jm_get (fn_downloads n) f")
    case (Some d)
    have "fair m P n (set_download f (drop_peer k d) n)" by (rule fair_set [OF Some]) (simp add: drop_peer_def)
    then show ?thesis using Some fair_trans [OF _ fair_schedule] by simp
  qed (simp add: fair_refl)
  then show ?case using Cons.IH fair_trans by fastforce
qed (simp add: fair_refl)

lemma fair_close: "fair m P n (onClose mix k n)"
proof -
  let ?n = "n\<lparr>fn_sessions := jm_delete (fn_sessions n) k, fn_peerHave := jm_delete (fn_peerHave n) k\<rparr>"
  have "fair m P n ?n" by (rule fair_frame) simp_all
  moreover have "fair m P ?n (fn_emit [FPeerClose k] (close_loop mix k (jm_keys (fn_downloads n)) ?n))"
    by (rule fair_trans [OF fair_close_loop fair_emit]) simp
  ultimately show ?thesis unfolding onClose_def Let_def using fair_trans by simp
qed

lemma fair_seed_loop:
  assumes "mf_file_id m' \<noteq> mf_file_id m" and "store_ok (fn_store n)"
    and "seed_loop C m' data is buf (fn_store n) = (r, st)"
  shows "fair m P n (n\<lparr>fn_store := st\<rparr>)"
  using assms(2,3)
proof (induction "is" arbitrary: n buf)
  case (Cons i "is")
  let ?c = "mf_chunks m' ! i"
  have stop: "st = fn_store n \<Longrightarrow> ?case" by (simp add: fair_refl)
  show ?case
  proof (cases "length (mf_chunks m') \<le> i \<or> ci_size ?c < 0")
    case True
    then show ?thesis using Cons.prems(2) by (intro stop) (auto simp: Let_def split: if_splits)
  next
    case False
    show ?thesis
    proof (cases "readSync buf data (nat (ci_size ?c)) (i * nat (mf_chunk_size m'))")
      case (Inl e)
      then show ?thesis using Cons.prems(2) False by (intro stop) (simp add: Let_def)
    next
      case (Inr b)
      obtain x t where put: "putChunk C (mf_file_id m') i (take (nat (ci_size ?c)) b) (ci_hash ?c) (fn_store n) = (x, t)"
        by fastforce
      let ?n = "n\<lparr>fn_store := t\<rparr>"
      have f: "fair m P n ?n" by (rule fair_put [OF Cons.prems(1) put]) (use assms(1) in simp)
      have s: "store_ok (fn_store ?n)" using store_ok_put [OF Cons.prems(1) put] by simp
      show ?thesis
      proof (cases x)
        case (Inl e)
        then have "st = t" using Cons.prems(2) False Inr put by (simp add: Let_def)
        then show ?thesis using f by simp
      next
        case (Inr y)
        then have "seed_loop C m' data is b (fn_store ?n) = (r, st)"
          using Cons.prems(2) False \<open>readSync _ _ _ _ = _\<close> put by (simp add: Let_def)
        from Cons.IH [OF s this] f show ?thesis using fair_trans by fastforce
      qed
    qed
  qed
qed (auto simp: fair_refl)

lemma fair_seed:
  assumes "mf_file_id m' \<noteq> mf_file_id m" and "store_ok (fn_store n)" and "seed C fs m' path n = (r, n')"
  shows "fair m P n n'"
proof -
  let ?n = "fn_registerManifest m' n"
  have r: "fair m P n ?n" by (rule fair_register)
  have s: "store_ok (fn_store ?n)" using store_ok_register [OF assms(2)] by simp
  have l: "fair m P n (?n\<lparr>fn_store := st\<rparr>)" if "seed_loop C m' data is buf (fn_store ?n) = (x, st)" for data "is" buf x st
    by (rule fair_trans [OF r fair_seed_loop [OF assms(1) s that]])
  have e: "fair m P n (fn_emit (to_all k ms) (?n\<lparr>fn_store := st\<rparr>))"
    if "seed_loop C m' data is buf (fn_store ?n) = (x, st)" for data "is" buf x st k ms
    by (rule fair_trans [OF l [OF that] fair_emit [OF fair_to_all]])
  show ?thesis using assms(3) r
    by (auto simp: seed_def Let_def split: option.splits if_splits prod.splits sum.splits intro: l e)
qed

lemma fair_download:
  assumes "mf_file_id m' \<noteq> mf_file_id m"
  shows "fair m P n (fn_download C mix m' path par n)"
proof -
  let ?n = "fn_registerManifest m' n" and ?f = "mf_file_id m'"
  let ?d = "new_download m' path par ?n"
  let ?es = "to_all (set_download ?f ?d ?n) [MHave ?f (bitfield (fn_store (set_download ?f ?d ?n)) ?f)]"
  have 1: "fair m P n (fn_emit ?es (set_download ?f ?d ?n))"
    by (rule fair_trans [OF fair_register fair_trans [OF fair_set_other [OF assms] fair_emit [OF fair_to_all]]])
  have 2: "fair m P k (complete C ?f k)" for k by (rule fair_complete_other [OF assms])
  have 3: "fair m P k (schedule mix ?f (set_download ?f d k))" for d k
    by (rule fair_trans [OF fair_set_other [OF assms] fair_schedule])
  show ?thesis unfolding fn_download_def Let_def
    using fair_trans [OF 1 2] fair_trans [OF 1 3] by (simp only: simp_thms split: if_split)
qed

lemma fair_apply:
  assumes "describes (fw_crypto W) m P" and "node_ok n" and "transfer_ok m P n" and "genuine W m P x"
  shows "fair m P n (fn_apply W mix x n)"
proof -
  have st: "store_ok (fn_store n)" using assms(2) by (simp add: node_upto_def)
  show ?thesis
  proof (cases x)
    case (FMsg s buf)
    then have "genuine W m P (FMsg s buf)" using assms(4) by (simp only:)
    from fair_msg [OF assms(1-3) this, of mix "fst (handleMessage (fw_crypto W) (fw_keys W) (fw_json W) mix s buf n)"
        "snd (handleMessage (fw_crypto W) (fw_keys W) (fw_json W) mix s buf n)"] FMsg
    show ?thesis by simp
  next
    case (FSeed m' path)
    then have "mf_file_id m' \<noteq> mf_file_id m" using assms(4) by simp
    from fair_seed [OF this st, of "fw_crypto W" "fw_files W" path "fst (seed (fw_crypto W) (fw_files W) m' path n)"
        "snd (seed (fw_crypto W) (fw_files W) m' path n)"] FSeed
    show ?thesis by simp
  qed (use assms(4) fair_attach fair_timeout fair_schedule fair_close fair_download in auto)
qed

lemma fair_run:
  assumes "describes (fw_crypto W) m P"
  shows "node_ok n \<Longrightarrow> transfer_ok m P n \<Longrightarrow> ops_ok W ops n \<Longrightarrow> \<forall>x \<in> set ops. genuine W m P (snd x) \<Longrightarrow>
    fair m P n (fn_run W ops n)"
proof (induction ops arbitrary: n)
  case (Cons a ops)
  obtain mix x where a: "a = (mix, x)" by fastforce
  have f: "fair m P n (fn_apply W mix x n)" using fair_apply [OF assms Cons.prems(1,2)] Cons.prems(4) a by simp
  have "node_ok (fn_apply W mix x n)" using upto_apply [OF Cons.prems(1)] Cons.prems(3) a by simp
  moreover have "transfer_ok m P (fn_apply W mix x n)" using f Cons.prems(2) by (simp add: fair_def)
  ultimately have "fair m P (fn_apply W mix x n) (fn_run W ops (fn_apply W mix x n))"
    using Cons.IH Cons.prems(3,4) a by simp
  then show ?case using fair_trans [OF f] a by simp
qed (simp add: fair_refl)

section \<open>Properties\<close>

lemma built_describes:
  assumes "crypto_sizes C" and "sign_correct C" and "length s = 32" and "fs p = Some data"
    and "buildManifest C (keystore_of C s) fs chunkSize filename None p = Inr m"
  shows "describes C m (chunk_data (nat_or chunkSize DEFAULT_CHUNK_SIZE) data) \<and>
    whole m (chunk_data (nat_or chunkSize DEFAULT_CHUNK_SIZE) data) = data"
proof -
  let ?cs = "nat_or chunkSize DEFAULT_CHUNK_SIZE"
  have pos: "0 < ?cs" by (rule nat_or_pos) (simp add: DEFAULT_CHUNK_SIZE_def)
  have m: "mf_file_id m = hex_sha C data" "mf_nb_chunks m = chunk_count (length data) ?cs"
      "mf_chunks m = map (chunk_entry C ?cs data) [0..<chunk_count (length data) ?cs]"
    using assms(4,5) by (auto simp: buildManifest_def Let_def)
  show ?thesis
    using m chunk_entry_at(1) [OF pos] concat_all_chunks [OF pos, of data]
    by (simp add: describes_def whole_def)
qed

lemma download_start:
  assumes "describes C m P" and "node_ok n" and "jm_get (cs_files (fn_store n)) (mf_file_id m) = None"
  shows "\<exists>s. fn_out s = fn_out n \<and> pending m s \<and> transfer_ok m P s \<and> fair m P s (fn_download C mix m path par n)"
proof -
  let ?n = "fn_registerManifest m n" and ?f = "mf_file_id m"
  let ?d = "new_download m path par ?n"
  let ?s = "set_download ?f ?d ?n"
  have no: "\<not> hasChunk (fn_store n) ?f i" for i using assms(3) by (simp add: hasChunk_def)
  have t: "transfer_ok m P ?s"
    using assms(3) no by (simp add: transfer_ok_def entry_register repo.valid_def new_download_def Let_def)
  let ?es = "to_all ?s [MHave ?f (bitfield (fn_store ?s) ?f)]"
  have 1: "fair m P ?s (fn_emit ?es ?s)" by (rule fair_emit [OF fair_to_all])
  have ok: "store_ok (fn_store ?n)" using assms(2) store_ok_register by (simp add: node_upto_def)
  have g: "jm_get (fn_downloads (fn_emit ?es ?s)) ?f = Some ?d" by simp
  have nd: "\<not> dl_done ?d" by (simp add: new_download_def Let_def)
  have 2: "fair m P (fn_emit ?es ?s) (complete C ?f (fn_emit ?es ?s))" if "dl_needed ?d = []"
  proof (rule fair_complete [OF assms(1) _ g nd])
    have "mf_nb_chunks m = 0" using that no by (simp add: new_download_def Let_def filter_empty_conv)
    then show "\<forall>i < mf_nb_chunks m. hasChunk (fn_store (fn_emit ?es ?s)) ?f i" by simp
  qed (use ok in simp)
  have 3: "fair m P (fn_emit ?es ?s) (schedule mix ?f (set_download ?f (?d\<lparr>dl_tick := True\<rparr>) (fn_emit ?es ?s)))"
    by (rule fair_trans [OF fair_set [OF g] fair_schedule]) simp
  have "fair m P ?s (fn_download C mix m path par n)"
    unfolding fn_download_def Let_def
    using fair_trans [OF 1 2] fair_trans [OF 1 3] by (cases "dl_needed ?d = []") (simp_all only: if_True if_False simp_thms)
  moreover have "pending m ?s" by (simp add: pending_def)
  ultimately show ?thesis using t by (intro exI [of _ ?s]) simp
qed



end
