(* ===== verification/DownloadLive.thy ===== *)
theory DownloadLive
  imports DownloadCorrect
begin

text \<open>
  A download with one honest, connected peer that has the whole file always has a request in flight, and
  ends once that peer has answered as many requests as there were chunks missing. The rest of the theory
  shows what the transfer does not guarantee.
\<close>

section \<open>The honest answer\<close>

definition honest_chunk :: "crypto \<Rightarrow> bytes \<Rightarrow> manifest \<Rightarrow> (nat \<Rightarrow> bytes) \<Rightarrow> nat \<Rightarrow> file_msg" where
  "honest_chunk C sd m P i =
     (let h = sha256 C (P i) in
      MChunkData (mf_file_id m) i h
        (ed_sign C (ed_private C sd) (bytes_of_hex (mf_file_id m) @ be_bytes 4 i @ h)) (P i))"

text \<open>It is what \<open>_serveChunk\<close> of a node with that chunk sends.\<close>

lemma serve_honest:
  assumes "hasChunk (fn_store n) (mf_file_id m) i" and "getChunk (fn_store n) (mf_file_id m) i = Inr (P i)"
    and "i < 2 ^ 32"
  shows "serveChunk C (keystore_of C sd) s (mf_file_id m) i n =
    (Inr (), fn_emit [FSend (fs_peerHex s) (honest_chunk C sd m P i)] n)"
  using assms by (simp add: serveChunk_def honest_chunk_def chunkSigMessage_def write_be32 Let_def)

lemma honest_good:
  assumes "describes C m P" and "crypto_sizes C" and "sign_correct C" and "length sd = 32"
    and "i < mf_nb_chunks m" and "i < 2 ^ 32"
  shows "chunk_good C m (ed_public C sd) (mf_file_id m) i (sha256 C (P i))
    (ed_sign C (ed_private C sd) (bytes_of_hex (mf_file_id m) @ be_bytes 4 i @ sha256 C (P i))) (P i)"
proof -
  have "expected_hash m i = hex_sha C (P i)" using assms(1,5) by (simp add: describes_def expected_hash_def)
  moreover have "hex_sha C (P i) \<noteq> ''''"
    using crypto_sizesD(1) [OF assms(2), of "P i"] by (metis length_hex_of_bytes list.size(3) mult_is_0 zero_neq_numeral)
  ultimately show ?thesis
    using assms(6) sign_correctD [OF assms(3,4)] by (simp add: chunk_good_def chunkSigMessage_def write_be32)
qed

section \<open>What an answer does\<close>

lemma complete_frame [simp]:
  "fn_sessions (complete C f n) = fn_sessions n" "fn_peerHave (complete C f n) = fn_peerHave n"
  "fn_seq (complete C f n) = fn_seq n"
  by (simp_all add: complete_def split: option.splits prod.splits)

lemma peerFileSet_same: "fn_peerHave n' = fn_peerHave n \<Longrightarrow> peerFileSet k f n' = peerFileSet k f n"
  by (simp add: peerFileSet_def)

lemma schedule_out: "\<exists>es. fn_out (schedule mix f n) = fn_out n @ es"
  by (simp add: schedule_eq split: option.splits)

lemma good_chunk_eq:
  assumes "node_ok n" and "jm_get (fn_downloads n) f = Some d0"
    and "chunk_good C (dl_manifest d0) (fs_peerId s) f i h sg data"
    and "onChunkData C mix s f i h sg data n = (r, n')"
  obtains d hh t es n2 where
    "dl_manifest d = dl_manifest d0" "dl_needed d = dl_needed d0" "dl_badPeers d = dl_badPeers d0"
    "dl_parallel d = dl_parallel d0" "\<not> dl_done d" "dl_received d = dl_received d0"
    "putChunk C f i data (expected_hash (dl_manifest d0) i) (fn_store n) = (Inr (PutOk hh), t)"
    "fn_sessions n2 = fn_sessions n" "fn_peerHave n2 = fn_peerHave n" "fn_seq n2 = fn_seq n" "fn_store n2 = t"
    "jm_get (fn_downloads n2) f = Some (accepted i d)" "fn_out n2 = fn_out n @ es"
    "FProgress f i (dl_received d0 + 1) (mf_nb_chunks (dl_manifest d0)) \<in> set es" "\<forall>g p b. FWrote g p b \<notin> set es"
    "n' = (if dl_needed (accepted i d) = [] then complete C f n2 else schedule mix f n2)"
proof -
  have b: "base_ok (fn_store n) f d0" "store_ok (fn_store n)"
    using assms(1,2) by (simp_all add: node_upto_def)
  define d where "d = d0\<lparr>dl_inFlight := jm_delete (dl_inFlight d0) i\<rparr>"
  have d: "dl_manifest d = dl_manifest d0" "dl_needed d = dl_needed d0" "dl_badPeers d = dl_badPeers d0"
    "dl_parallel d = dl_parallel d0" "\<not> dl_done d" "dl_received d = dl_received d0"
    using b(1) by (simp_all add: d_def base_ok_def)
  let ?n = "set_download f d n"
  have a: "accept_chunk C mix s f i data d ?n = (r, n')"
    using assms(2-4) unfolding onChunkData_def by (simp add: Let_def d_def)
  have e: "jm_get (cs_files (fn_store ?n)) f \<noteq> None" and st: "store_ok (fn_store ?n)"
    using b by (simp_all add: base_ok_def)
  have x: "hex_sha C data = expected_hash (dl_manifest d) i" using assms(3) d(1) by (simp add: chunk_good_def)
  obtain hh t es n2 where put: "putChunk C f i data (expected_hash (dl_manifest d) i) (fn_store ?n) = (Inr (PutOk hh), t)"
    and es: "es = [FSend (fs_peerHex s) (MAck i (Some ACK_OK))] @ to_all (?n\<lparr>fn_store := t\<rparr>) [MHavePiece f i] @
      [FProgress f i (dl_received d + 1) (mf_nb_chunks (dl_manifest d))]"
    and n2: "n2 = fn_emit es (set_download f (accepted i d) (?n\<lparr>fn_store := t\<rparr>))"
    and acc: "accept_chunk C mix s f i data d ?n =
      (Inr (), if dl_needed (accepted i d) = [] then complete C f n2 else schedule mix f n2)"
    by (rule accept_chunk_eq [where s = s and mix = mix, OF st e x])
  have n': "n' = (if dl_needed (accepted i d) = [] then complete C f n2 else schedule mix f n2)"
    using a acc by simp
  show ?thesis
    by (rule that [OF d _ _ _ _ _ _ _ _ _ n', of hh t es]) (use put es n2 d in \<open>auto simp: to_all_def\<close>)
qed

lemma good_answer:
  assumes "node_ok n" and "jm_get (fn_downloads n) f = Some d0"
    and "chunk_good C (dl_manifest d0) (fs_peerId s) f i h sg data"
    and "onChunkData C mix s f i h sg data n = (r, n')"
  shows "fn_sessions n' = fn_sessions n \<and> fn_peerHave n' = fn_peerHave n \<and> fn_seq n' = fn_seq n \<and>
    (case jm_get (fn_downloads n') f of None \<Rightarrow> dl_needed (accepted i d0) = []
     | Some d \<Rightarrow> dl_needed d = filter (\<lambda>j. j \<noteq> i) (dl_needed d0) \<and> dl_badPeers d = dl_badPeers d0 \<and>
         dl_parallel d = dl_parallel d0 \<and> dl_manifest d = dl_manifest d0 \<and> dl_received d = dl_received d0 + 1)"
proof -
  obtain d hh t es n2 where
    d: "dl_manifest d = dl_manifest d0" "dl_needed d = dl_needed d0" "dl_badPeers d = dl_badPeers d0"
    "dl_parallel d = dl_parallel d0" "\<not> dl_done d" "dl_received d = dl_received d0"
    and put: "putChunk C f i data (expected_hash (dl_manifest d0) i) (fn_store n) = (Inr (PutOk hh), t)"
    and n2: "fn_sessions n2 = fn_sessions n" "fn_peerHave n2 = fn_peerHave n" "fn_seq n2 = fn_seq n" "fn_store n2 = t"
    and g: "jm_get (fn_downloads n2) f = Some (accepted i d)" and o: "fn_out n2 = fn_out n @ es"
    "FProgress f i (dl_received d0 + 1) (mf_nb_chunks (dl_manifest d0)) \<in> set es" "\<forall>g p b. FWrote g p b \<notin> set es"
    and n': "n' = (if dl_needed (accepted i d) = [] then complete C f n2 else schedule mix f n2)"
    by (rule good_chunk_eq [OF assms])
  show ?thesis
  proof (cases "dl_needed (accepted i d) = []")
    case True
    have "jm_get (fn_downloads (complete C f n2)) f = None"
      using g d(5) by (simp add: complete_def split: prod.splits)
    then show ?thesis using n' True d by (simp add: n2)
  next
    case False
    obtain y where y: "fst (sched_dl mix n2 f (accepted i d)) = (accepted i d)\<lparr>dl_inFlight := y\<rparr>"
      using sched_dl_same by blast
    have "jm_get (fn_downloads (schedule mix f n2)) f = Some ((accepted i d)\<lparr>dl_inFlight := y\<rparr>)"
      using g d(5) y by (simp add: schedule_downloads)
    then show ?thesis using n' False d by (simp add: n2 accepted_def)
  qed
qed

section \<open>Answering requests\<close>

definition message_bytes :: "file_msg \<Rightarrow> bytes" where
  "message_bytes msg = (case encode msg of Inl e \<Rightarrow> [] | Inr w \<Rightarrow> w)"

text \<open>The honest session \<open>s\<close> answers the oldest request in flight.\<close>

definition answer_first ::
    "fn_world \<Rightarrow> mixer \<Rightarrow> fsession \<Rightarrow> bytes \<Rightarrow> manifest \<Rightarrow> (nat \<Rightarrow> bytes) \<Rightarrow> file_node \<Rightarrow> file_node" where
  "answer_first W mix s sd m P n =
     (case jm_get (fn_downloads n) (mf_file_id m) of None \<Rightarrow> n
      | Some d \<Rightarrow>
          (case dl_inFlight d of [] \<Rightarrow> n
           | (i, k) # _ \<Rightarrow> fn_apply W mix (FMsg s (message_bytes (honest_chunk (fw_crypto W) sd m P i))) n))"

definition helped :: "fn_world \<Rightarrow> fsession \<Rightarrow> bytes \<Rightarrow> manifest \<Rightarrow> (nat \<Rightarrow> bytes) \<Rightarrow> file_node \<Rightarrow> bool" where
  "helped W s sd m P n \<longleftrightarrow>
     node_ok n \<and> transfer_ok m P n \<and> known_key (fn_seq n) (fs_peerHex s) \<and> jm_has (fn_sessions n) (fs_peerHex s) \<and>
     (\<forall>d. jm_get (fn_downloads n) (mf_file_id m) = Some d \<longrightarrow> 0 < dl_parallel d \<and>
        (\<forall>i \<in> set (dl_needed d). i \<in> set (peerFileSet (fs_peerHex s) (mf_file_id m) n) \<and>
           fs_peerHex s \<notin> set (bad_peers d i)))"

lemma helped_request:
  assumes "helped W s sd m P n" and "jm_get (fn_downloads n) (mf_file_id m) = Some d"
  shows "dl_inFlight d \<noteq> []"
proof
  assume e: "dl_inFlight d = []"
  have b: "base_ok (fn_store n) (mf_file_id m) d" "saturated n (mf_file_id m) d"
    using assms by (simp_all add: helped_def node_upto_def)
  have "0 < dl_parallel d" using assms by (simp add: helped_def)
  then have "\<forall>i \<in> set (dl_needed d). peersForChunk n (mf_file_id m) d i = []"
    using b(2) e by (simp add: saturated_def)
  moreover have "dl_needed d \<noteq> []" using b(1) by (simp add: base_ok_def)
  ultimately obtain i where i: "i \<in> set (dl_needed d)" "peersForChunk n (mf_file_id m) d i = []"
    by (cases "dl_needed d") auto
  have "fs_peerHex s \<in> set (peersForChunk n (mf_file_id m) d i)"
    unfolding peers_iff using assms i(1) by (simp add: helped_def)
  with i(2) show False by simp
qed

lemma describes_id: "describes C m P \<Longrightarrow> crypto_sizes C \<Longrightarrow> file_id_ok (mf_file_id m)"
  unfolding describes_def file_id_ok_def using crypto_sizesD(1) by blast

lemma honest_bytes:
  assumes "describes C m P" and "crypto_sizes C" and "length sd = 32" and "i < 2 ^ 32"
  shows "decode J (message_bytes (honest_chunk C sd m P i)) = Inr (honest_chunk C sd m P i)"
proof -
  have "msg_ok J (honest_chunk C sd m P i)"
    using describes_id [OF assms(1,2)] crypto_sizesD(1,5) [OF assms(2)] assms(3,4)
    by (simp add: honest_chunk_def Let_def)
  from decode_encode [OF this] show ?thesis by (auto simp: message_bytes_def)
qed

lemma answer_step:
  assumes "describes (fw_crypto W) m P" and "crypto_sizes (fw_crypto W)" and "sign_correct (fw_crypto W)"
    and "length sd = 32" and "fs_peerId s = ed_public (fw_crypto W) sd" and "mf_nb_chunks m \<le> 2 ^ 32"
    and "mixer_ok mix" and "helped W s sd m P n" and "jm_get (fn_downloads n) (mf_file_id m) = Some d"
    and "n' = answer_first W mix s sd m P n"
  shows "helped W s sd m P n' \<and> fair m P n n' \<and>
    (\<forall>d'. jm_get (fn_downloads n') (mf_file_id m) = Some d' \<longrightarrow> length (dl_needed d') < length (dl_needed d))"
proof -
  let ?f = "mf_file_id m" and ?C = "fw_crypto W"
  have ok: "node_ok n" and t: "transfer_ok m P n" and key: "known_key (fn_seq n) (fs_peerHex s)"
    using assms(8) by (simp_all add: helped_def)
  have b: "base_ok (fn_store n) ?f d" "pipe_ok n ?f d" and dm: "dl_manifest d = m"
    using ok t assms(9) by (simp_all add: node_upto_def transfer_ok_def)
  obtain i k r where fl: "dl_inFlight d = (i, k) # r"
    using helped_request [OF assms(8,9)] by (cases "dl_inFlight d") auto
  have i: "i \<in> set (dl_needed d)" using b(2) fl by (simp add: pipe_ok_def jm_get_def)
  then have ib: "i < mf_nb_chunks m" "i < 2 ^ 32" using b(1) dm assms(6) by (auto simp: base_ok_def)
  let ?w = "message_bytes (honest_chunk ?C sd m P i)"
  have n': "n' = fn_apply W mix (FMsg s ?w) n" using assms(9,10) fl by (simp add: answer_first_def)
  have dec: "decode (fw_json W) ?w = Inr (honest_chunk ?C sd m P i)"
    by (rule honest_bytes [OF assms(1,2,4) ib(2)])
  have gen: "genuine W m P (FMsg s ?w)" unfolding genuine.simps dec by (simp add: honest_chunk_def Let_def)
  have f: "fair m P n n'" unfolding n' by (rule fair_apply [OF assms(1) ok t gen])
  have ok': "node_ok n'" unfolding n' by (rule upto_apply [OF ok]) (simp add: assms(7) key)
  let ?sig = "ed_sign ?C (ed_private ?C sd) (bytes_of_hex ?f @ be_bytes 4 i @ sha256 ?C (P i))"
  have oc: "onChunkData ?C mix s ?f i (sha256 ?C (P i)) ?sig (P i) n =
      (fst (onChunkData ?C mix s ?f i (sha256 ?C (P i)) ?sig (P i) n), n')"
    unfolding n' unfolding fn_apply.simps handleMessage_def dec by (simp add: handleMsg_def honest_chunk_def Let_def)
  have good: "chunk_good ?C (dl_manifest d) (fs_peerId s) ?f i (sha256 ?C (P i)) ?sig (P i)"
    using honest_good [OF assms(1-4) ib] dm assms(5) by simp
  note a = good_answer [OF ok assms(9) good oc]
  have "length (dl_needed d') < length (dl_needed d)" if "jm_get (fn_downloads n') ?f = Some d'" for d'
    using a that i by (auto intro: length_filter_less)
  moreover have "helped W s sd m P n'"
    using a assms(8,9) ok' f t key peerFileSet_same [of n' n "fs_peerHex s" ?f]
    by (auto simp: helped_def fair_def bad_peers_def split: option.splits)
  ultimately show ?thesis using f by blast
qed

lemma answers_end:
  assumes "describes (fw_crypto W) m P" and "crypto_sizes (fw_crypto W)" and "sign_correct (fw_crypto W)"
    and "length sd = 32" and "fs_peerId s = ed_public (fw_crypto W) sd" and "mf_nb_chunks m \<le> 2 ^ 32"
    and "mixer_ok mix"
  shows "helped W s sd m P n \<Longrightarrow>
    (\<forall>d. jm_get (fn_downloads n) (mf_file_id m) = Some d \<longrightarrow> length (dl_needed d) \<le> j) \<Longrightarrow>
    fair m P n ((answer_first W mix s sd m P ^^ j) n) \<and> \<not> pending m ((answer_first W mix s sd m P ^^ j) n)"
proof (induction j arbitrary: n)
  case 0
  have "jm_get (fn_downloads n) (mf_file_id m) = Some d \<Longrightarrow> dl_needed d \<noteq> []" for d
    using 0(1) by (simp add: helped_def node_upto_def base_ok_def)
  then have "\<not> pending m n" using 0(2) by (auto simp: pending_def jm_has_def)
  then show ?case by (simp add: fair_refl)
next
  case (Suc j)
  let ?n = "answer_first W mix s sd m P n"
  show ?case
  proof (cases "jm_get (fn_downloads n) (mf_file_id m)")
    case None
    then have "answer_first W mix s sd m P n = n" by (simp add: answer_first_def)
    then have "(answer_first W mix s sd m P ^^ Suc j) n = n" by (induction j) simp_all
    then show ?thesis using None by (simp only: fair_refl pending_def jm_has_def simp_thms)
  next
    case (Some d)
    note st = answer_step [OF assms Suc.prems(1) Some refl]
    have "\<forall>d. jm_get (fn_downloads ?n) (mf_file_id m) = Some d \<longrightarrow> length (dl_needed d) \<le> j"
      using st Suc.prems(2) Some by fastforce
    with Suc.IH [of ?n] st have "fair m P ?n ((answer_first W mix s sd m P ^^ j) ?n)"
      "\<not> pending m ((answer_first W mix s sd m P ^^ j) ?n)" by blast+
    then show ?thesis using st fair_trans by (simp only: funpow_Suc_right comp_apply) blast
  qed
qed

section \<open>Properties\<close>


text \<open>A node that downloads a file of one chunk from the node that announced it.\<close>

lemma one_chunk_run:
  fixes m :: manifest and k :: string
  defines "k \<equiv> session_key (replicate 32 7) 1" and "f \<equiv> mf_file_id m"
  assumes "mf_nb_chunks m = 1" and "file_id_ok f"
  defines "n0 \<equiv> fn_run demo_world [(\<lambda>f xs. xs, FAttach (replicate 32 7))] (new_file_node (open_store empty_disk) 8)"
  defines "n1 \<equiv> fn_download demo_crypto (\<lambda>f xs. xs) m ''o'' None n0"
  defines "ops \<equiv> [((\<lambda>f xs. xs) :: mixer, FMsg \<lparr>fs_peerId = replicate 32 7, fs_peerHex = k\<rparr>
      (message_bytes (MHavePiece f 0)))]"
  shows "jm_get (cs_files (fn_store n0)) f = None \<and> ops_ok demo_world ops n1 \<and>
    jm_has (fn_sessions (fn_run demo_world ops n1)) k \<and>
    peerFileSet k f (fn_run demo_world ops n1) = [0] \<and>
    (\<exists>d. jm_get (fn_downloads (fn_run demo_world ops n1)) f = Some d \<and> dl_parallel d = 8 \<and> dl_needed d = [0] \<and>
      dl_badPeers d = [])"
proof -
  have n0: "fn_sessions n0 = [(k, replicate 32 7)]" "fn_peerHave n0 = [(k, [])]" "fn_downloads n0 = []"
    "fn_seq n0 = 1" "fn_parallel n0 = 8" "fn_store n0 = open_store empty_disk"
    by (simp_all add: n0_def k_def attachSession_def new_file_node_def Let_def open_store_def load_index_def empty_disk_def)
  have st: "hasChunk (open_store empty_disk) g i = False" for g i
    by (simp add: hasChunk_def open_store_def load_index_def empty_disk_def)
  have nd: "new_download m ''o'' None (fn_registerManifest m n0) =
      \<lparr>dl_manifest = m, dl_outPath = ''o'', dl_needed = [0], dl_inFlight = [], dl_badPeers = [],
       dl_parallel = 8, dl_done = False, dl_received = 0, dl_tick = False\<rparr>"
    using assms(3) by (simp add: new_download_def fn_registerManifest_def n0 st nat_or_def)
  have n1: "fn_sessions n1 = fn_sessions n0" "fn_peerHave n1 = fn_peerHave n0" "fn_seq n1 = 1"
    "fn_downloads n1 = [(f, \<lparr>dl_manifest = m, dl_outPath = ''o'', dl_needed = [0],
       dl_inFlight = [], dl_badPeers = [], dl_parallel = 8, dl_done = False, dl_received = 0, dl_tick = True\<rparr>)]"
    by (simp_all add: n1_def fn_download_def nd Let_def schedule_eq set_download_def fn_emit_def sched_dl_def
        availabilityCount_def announced_def n0 jm_get_def f_def)
  have dec: "decode J (message_bytes (MHavePiece f 0)) = Inr (MHavePiece f 0)" for J
    using decode_encode [of J "MHavePiece f 0"] assms(4) by (auto simp: message_bytes_def)
  have run: "fn_run demo_world ops n1 = schedule (\<lambda>f xs. xs) f (add_have k f [0] n1)"
    by (simp add: ops_def demo_world_def handleMessage_def dec handleMsg_def)
  have known: "known_key 1 k" unfolding known_key_def k_def by blast
  obtain y where "fst (sched_dl (\<lambda>f xs. xs) (add_have k f [0] n1) f (snd (hd (fn_downloads n1)))) =
      (snd (hd (fn_downloads n1)))\<lparr>dl_inFlight := y\<rparr>" using sched_dl_same by blast
  moreover have "jm_get (fn_downloads n1) f = Some (snd (hd (fn_downloads n1)))"
    "\<not> dl_done (snd (hd (fn_downloads n1)))" by (simp_all add: n1 jm_get_def)
  ultimately have d: "jm_get (fn_downloads (fn_run demo_world ops n1)) f = Some ((snd (hd (fn_downloads n1)))\<lparr>dl_inFlight := y\<rparr>)"
    unfolding run by (simp add: schedule_downloads)
  have "peerFileSet k f (fn_run demo_world ops n1) = [0]"
    unfolding run by (simp add: peerFileSet_def add_have_def n1 n0 jm_get_def set_add_def)
  moreover have "jm_get (cs_files (fn_store n0)) f = None"
    by (simp add: n0 open_store_def load_index_def empty_disk_def)
  moreover have "jm_has (fn_sessions (fn_run demo_world ops n1)) k"
    unfolding run by (simp add: n1 n0 jm_has_def jm_get_def)
  ultimately show ?thesis using d known by (simp add: ops_def n1 mixer_id)
qed


section \<open>What the transfer does not guarantee\<close>

text \<open>An announced manifest can block a later download. The store keeps the entry of the first manifest it is
  shown under an identifier, whoever signed it and whether or not the identifier is the hash of anything;
  registering the true manifest changes nothing. If that entry has a different number of chunks than the true
  manifest, then the download of the true file goes well until the last missing chunk arrives, and is then
  rejected as incomplete, with every chunk of the file in the store and without an output file.\<close>

theorem manifest_poisoning:
  assumes "node_ok n" and "jm_get (fn_downloads n) f = Some d" and "dl_needed d = [i]"
    and "jm_get (cs_files (fn_store n)) f = Some e" and "fe_nb_chunks e \<noteq> mf_nb_chunks (dl_manifest d)"
    and "\<forall>j. hasChunk (fn_store n) f j \<longrightarrow> j < mf_nb_chunks (dl_manifest d)"
    and "chunk_good C (dl_manifest d) (fs_peerId s) f i h sg data"
    and "onChunkData C mix s f i h sg data n = (r, n')"
  shows "jm_get (cs_files (fn_store (fn_registerManifest m n))) f = Some e \<and>
    FRejected f FileIncomplete \<in> set (drop (length (fn_out n)) (fn_out n')) \<and>
    \<not> jm_has (fn_downloads n') f \<and> (\<forall>j < mf_nb_chunks (dl_manifest d). hasChunk (fn_store n') f j) \<and>
    (\<forall>p b. FWrote f p b \<notin> set (drop (length (fn_out n)) (fn_out n')))"
proof -
  obtain d1 hh t es n2 where
    d: "dl_manifest d1 = dl_manifest d" "dl_needed d1 = dl_needed d" "dl_badPeers d1 = dl_badPeers d"
    "dl_parallel d1 = dl_parallel d" "\<not> dl_done d1" "dl_received d1 = dl_received d"
    and put: "putChunk C f i data (expected_hash (dl_manifest d) i) (fn_store n) = (Inr (PutOk hh), t)"
    and n2: "fn_sessions n2 = fn_sessions n" "fn_peerHave n2 = fn_peerHave n" "fn_seq n2 = fn_seq n" "fn_store n2 = t"
    and g: "jm_get (fn_downloads n2) f = Some (accepted i d1)" and o: "fn_out n2 = fn_out n @ es"
    "FProgress f i (dl_received d + 1) (mf_nb_chunks (dl_manifest d)) \<in> set es" "\<forall>g p b. FWrote g p b \<notin> set es"
    and n': "n' = (if dl_needed (accepted i d1) = [] then complete C f n2 else schedule mix f n2)"
    by (rule good_chunk_eq [OF assms(1,2,7,8)])
  have st: "store_ok (fn_store n)" and b: "base_ok (fn_store n) f d" using assms(1,2) by (simp_all add: node_upto_def)
  let ?k = "mf_nb_chunks (dl_manifest d)"
  note stored = repo.put_done [OF st put]
  have ib: "i < ?k" using b assms(3) by (simp add: base_ok_def)
  have has: "hasChunk t f j \<longleftrightarrow> j < ?k" for j
  proof
    show "j < ?k" if "hasChunk t f j" using repo.put_has [OF st put that] assms(6) ib by auto
    show "hasChunk t f j" if "j < ?k"
    proof (cases "j = i")
      case False
      then have "hasChunk (fn_store n) f j" using b that assms(3) by (auto simp: base_ok_def)
      then show ?thesis by (rule repo.put_mono [OF st put])
    qed (use stored in simp)
  qed
  obtain e' where e': "jm_get (cs_files t) f = Some e'" "fe_nb_chunks e' = fe_nb_chunks e"
    using putChunk_nb [OF st put, of f] assms(4) by (cases "jm_get (cs_files t) f") auto
  have tok: "store_ok t" by (rule store_ok_put [OF st put])
  have "set (fe_chunks e') = {0..<?k}"
  proof (rule set_eqI)
    fix j
    show "j \<in> set (fe_chunks e') \<longleftrightarrow> j \<in> {0..<?k}" using has [of j] e'(1) by (simp add: hasChunk_def)
  qed
  then have "length (fe_chunks e') = ?k" using distinct_card [OF entry_chunks(2) [OF tok e'(1)]] by simp
  then have "assemble C t f = (Inl FileIncomplete, None)" using e' assms(5) by (simp add: assemble_def)
  then have c: "n' = fn_emit [FRejected f FileIncomplete] (n2\<lparr>fn_downloads := jm_delete (fn_downloads n2) f\<rparr>)"
    using n' assms(3) d(2,5) g n2(4) by (simp add: complete_def)
  show ?thesis
    using assms(4) has o n2(4) unfolding c by (simp add: entry_register)
qed

text \<open>A concrete instance: the store was first shown a manifest of three chunks under the identifier of
  \<open>demo_file\<close>, which has two, and it has the first chunk.\<close>

lemma demo_evidence:
  assumes "(i, data) = (0, [1, 2]) \<or> (i, data) = (1, [3])"
  shows "chunk_good demo_crypto demo_file (ed_public demo_crypto (replicate 32 7)) demo_id i (sha256 demo_crypto data)
     (ed_sign demo_crypto (ed_private demo_crypto (replicate 32 7))
       (bytes_of_hex demo_id @ be_bytes 4 i @ sha256 demo_crypto data)) data"
proof -
  have "expected_hash demo_file i = hex_sha demo_crypto data" "expected_hash demo_file i \<noteq> ''''"
    using assms by (auto simp: expected_hash_def demo_file_def demo_manifest_def demo_crypto_def pad_def)
  moreover have "chunkSigMessage demo_id i h = Inr (bytes_of_hex demo_id @ be_bytes 4 i @ h)" for h
    using assms by (auto simp: chunkSigMessage_def write_be32)
  ultimately show ?thesis
    using sign_correctD [OF demo_sign, of "replicate 32 7"] by (simp add: chunk_good_def)
qed

definition demo_poisoned :: file_node where
  "demo_poisoned = fn_download demo_crypto (\<lambda>f xs. xs) demo_file ''out'' None
     (new_file_node (snd (putChunk demo_crypto demo_id 0 [1, 2] ''''
        (store_registerManifest (demo_file\<lparr>mf_nb_chunks := 3\<rparr>) None (open_store empty_disk)))) 8)"

lemma demo_poisoned:
  obtains d e where "node_ok demo_poisoned" "jm_get (fn_downloads demo_poisoned) demo_id = Some d"
    "dl_manifest d = demo_file" "dl_needed d = [1]"
    "jm_get (cs_files (fn_store demo_poisoned)) demo_id = Some e" "fe_nb_chunks e = 3"
    "\<And>j. hasChunk (fn_store demo_poisoned) demo_id j \<longleftrightarrow> j = 0"
proof -
  define s0 where "s0 = store_registerManifest (demo_file\<lparr>mf_nb_chunks := 3\<rparr>) None (open_store empty_disk)"
  define s1 where "s1 = snd (putChunk demo_crypto demo_id 0 [1, 2] '''' s0)"
  have ok0: "store_ok s0" unfolding s0_def by (rule store_ok_register [OF store_ok_empty])
  have e0: "map_option fe_nb_chunks (jm_get (cs_files s0) demo_id) = Some 3"
    unfolding s0_def entry_register by (simp add: demo_file_def open_store_def empty_disk_def load_index_def)
  have none: "\<not> hasChunk s0 f j" for f j
    unfolding s0_def by simp (simp add: hasChunk_def open_store_def empty_disk_def load_index_def)
  obtain r where put: "putChunk demo_crypto demo_id 0 [1, 2] '''' s0 = (r, s1)"
    unfolding s1_def by (metis prod.collapse)
  have e1: "map_option fe_nb_chunks (jm_get (cs_files s1) demo_id) = Some 3"
    using putChunk_nb [OF ok0 put] e0 by simp
  have ok1: "store_ok s1" by (rule store_ok_put [OF ok0 put])
  have has: "hasChunk s1 demo_id j \<longleftrightarrow> j = 0" for j
  proof
    show "j = 0" if "hasChunk s1 demo_id j" using repo.put_has [OF ok0 put that] none by simp
    have "\<exists>h. r = Inr (PutOk h)"
      using putChunk_cases [OF ok0, of "''''" demo_crypto "[1, 2]" demo_id 0] put e0 by (metis option.simps(8) option.distinct(1) prod.inject)
    then show "hasChunk s1 demo_id j" if "j = 0" using repo.put_done [OF ok0] put that by metis
  qed
  let ?n = "new_file_node s1 8"
  have nb: "mf_nb_chunks demo_file = 2" by (simp add: demo_file_def demo_manifest_def)
  have two: "[0..<2] = [0, 1 :: nat]" by (simp add: upt_rec)
  have nd: "new_download demo_file ''out'' None (fn_registerManifest demo_file ?n) =
      \<lparr>dl_manifest = demo_file, dl_outPath = ''out'', dl_needed = [1], dl_inFlight = [], dl_badPeers = [],
       dl_parallel = 8, dl_done = False, dl_received = 1, dl_tick = False\<rparr>"
    using has by (simp add: new_download_def new_file_node_def nat_or_def demo_file_id two nb fn_registerManifest_def)
  have eq: "demo_poisoned = fn_download demo_crypto (\<lambda>f xs. xs) demo_file ''out'' None ?n"
    by (simp add: demo_poisoned_def s1_def s0_def)
  have pub: "fn_peerHave ?n = []" by (simp add: new_file_node_def)
  have d: "jm_get (fn_downloads demo_poisoned) demo_id = Some \<lparr>dl_manifest = demo_file, dl_outPath = ''out'',
      dl_needed = [1], dl_inFlight = [], dl_badPeers = [], dl_parallel = 8, dl_done = False, dl_received = 1, dl_tick = True\<rparr>"
    unfolding eq by (simp add: fn_download_def nd Let_def schedule_downloads demo_file_id sched_dl_def
        availabilityCount_def announced_def pub)
  have st: "fn_store demo_poisoned = store_registerManifest demo_file None s1"
    unfolding eq by (simp add: fn_download_def nd Let_def) (simp add: new_file_node_def)
  obtain e where e: "jm_get (cs_files s1) demo_id = Some e" "fe_nb_chunks e = 3" using e1 by auto
  have "node_ok demo_poisoned"
    using upto_run [OF node_ok_new [OF ok1], of demo_world "[(\<lambda>f xs. xs, FDownload demo_file ''out'' None)]" 8]
    by (simp add: mixer_id eq demo_world_def)
  moreover have "jm_get (cs_files (fn_store demo_poisoned)) demo_id = Some e"
    unfolding st by (simp add: entry_register e)
  ultimately show ?thesis using that d e has by (simp add: st)
qed

theorem manifest_poisoning_witness:
  "\<exists>r n'. onChunkData demo_crypto (\<lambda>f xs. xs) \<lparr>fs_peerId = ed_public demo_crypto (replicate 32 7), fs_peerHex = ''k''\<rparr>
      demo_id 1 (sha256 demo_crypto [3]) (ed_sign demo_crypto (ed_private demo_crypto (replicate 32 7))
       (bytes_of_hex demo_id @ be_bytes 4 1 @ sha256 demo_crypto [3])) [3] demo_poisoned = (r, n') \<and>
    \<not> jm_has (fn_downloads n') demo_id \<and> hasChunk (fn_store n') demo_id 0 \<and> hasChunk (fn_store n') demo_id 1"
proof -
  obtain d e where a: "node_ok demo_poisoned" "jm_get (fn_downloads demo_poisoned) demo_id = Some d"
    "dl_manifest d = demo_file" "dl_needed d = [1]"
    "jm_get (cs_files (fn_store demo_poisoned)) demo_id = Some e" "fe_nb_chunks e = 3"
    and has: "\<And>j. hasChunk (fn_store demo_poisoned) demo_id j \<longleftrightarrow> j = 0" by (rule demo_poisoned) blast
  have nb: "mf_nb_chunks demo_file = 2" by (simp add: demo_file_def demo_manifest_def)
  let ?s = "\<lparr>fs_peerId = ed_public demo_crypto (replicate 32 7), fs_peerHex = ''k''\<rparr>"
  obtain r n' where x: "onChunkData demo_crypto (\<lambda>f xs. xs) ?s demo_id 1 (sha256 demo_crypto [3])
      (ed_sign demo_crypto (ed_private demo_crypto (replicate 32 7)) (bytes_of_hex demo_id @ be_bytes 4 1 @ sha256 demo_crypto [3]))
      [3] demo_poisoned = (r, n')" by fastforce
  have g: "chunk_good demo_crypto (dl_manifest d) (fs_peerId ?s) demo_id 1 (sha256 demo_crypto [3])
      (ed_sign demo_crypto (ed_private demo_crypto (replicate 32 7)) (bytes_of_hex demo_id @ be_bytes 4 1 @ sha256 demo_crypto [3])) [3]"
    using demo_evidence [of 1 "[3]"] by (simp add: a(3))
  have "\<not> jm_has (fn_downloads n') demo_id \<and> (\<forall>j < mf_nb_chunks (dl_manifest d). hasChunk (fn_store n') demo_id j)"
    using manifest_poisoning [OF a(1,2,4,5) _ _ g x] a(3,6) has nb by simp
  then show ?thesis using x nb a(3) by simp
qed

text \<open>The progress counter is not the number of chunks received: a valid copy of a chunk that is already in
  the store, sent again by anyone while the download is pending, is counted again, so the reported number
  grows past the total.\<close>

theorem progress_overcounted:
  assumes "node_ok n" and "jm_get (fn_downloads n) f = Some d" and "i \<notin> set (dl_needed d)"
    and "chunk_good C (dl_manifest d) (fs_peerId s) f i h sg data"
    and "onChunkData C mix s f i h sg data n = (r, n')"
  shows "\<exists>d' es. jm_get (fn_downloads n') f = Some d' \<and> dl_needed d' = dl_needed d \<and>
    dl_received d' = dl_received d + 1 \<and> fn_out n' = fn_out n @ es \<and>
    FProgress f i (dl_received d + 1) (mf_nb_chunks (dl_manifest d)) \<in> set es"
proof -
  obtain d1 hh t es n2 where
    d: "dl_manifest d1 = dl_manifest d" "dl_needed d1 = dl_needed d" "dl_badPeers d1 = dl_badPeers d"
    "dl_parallel d1 = dl_parallel d" "\<not> dl_done d1" "dl_received d1 = dl_received d"
    and put: "putChunk C f i data (expected_hash (dl_manifest d) i) (fn_store n) = (Inr (PutOk hh), t)"
    and n2: "fn_sessions n2 = fn_sessions n" "fn_peerHave n2 = fn_peerHave n" "fn_seq n2 = fn_seq n" "fn_store n2 = t"
    and g: "jm_get (fn_downloads n2) f = Some (accepted i d1)" and o: "fn_out n2 = fn_out n @ es"
    "FProgress f i (dl_received d + 1) (mf_nb_chunks (dl_manifest d)) \<in> set es" "\<forall>g p b. FWrote g p b \<notin> set es"
    and n': "n' = (if dl_needed (accepted i d1) = [] then complete C f n2 else schedule mix f n2)"
    by (rule good_chunk_eq [OF assms(1,2,4,5)])
  have f: "filter (\<lambda>j. j \<noteq> i) (dl_needed d) = dl_needed d" using assms(3) by (metis (mono_tags, lifting) filter_True)
  have "dl_needed d \<noteq> []" using assms(1,2) by (simp add: node_upto_def base_ok_def)
  then have s: "n' = schedule mix f n2" using n' d(2) f by simp
  have a: "case jm_get (fn_downloads n') f of None \<Rightarrow> dl_needed (accepted i d) = []
     | Some d' \<Rightarrow> dl_needed d' = filter (\<lambda>j. j \<noteq> i) (dl_needed d) \<and> dl_badPeers d' = dl_badPeers d \<and>
         dl_parallel d' = dl_parallel d \<and> dl_manifest d' = dl_manifest d \<and> dl_received d' = dl_received d + 1"
    using good_answer [OF assms(1,2,4,5)] by blast
  have "\<exists>qs. fn_out n' = fn_out n2 @ qs" unfolding s by (rule schedule_out)
  then obtain qs where "fn_out n' = fn_out n @ (es @ qs)" using o(1) by auto
  then show ?thesis
    using a f o(2) \<open>dl_needed d \<noteq> []\<close>
    by (cases "jm_get (fn_downloads n') f") (auto intro!: exI [of _ "es @ qs"])
qed

theorem progress_overcounted_witness:
  "\<exists>d r n' d'. jm_get (fn_downloads demo_poisoned) demo_id = Some d \<and> 
    onChunkData demo_crypto (\<lambda>f xs. xs) \<lparr>fs_peerId = ed_public demo_crypto (replicate 32 7), fs_peerHex = ''k''\<rparr>
      demo_id 0 (sha256 demo_crypto [1, 2]) (ed_sign demo_crypto (ed_private demo_crypto (replicate 32 7))
       (bytes_of_hex demo_id @ be_bytes 4 0 @ sha256 demo_crypto [1, 2])) [1, 2] demo_poisoned = (r, n') \<and>
    jm_get (fn_downloads n') demo_id = Some d' \<and> dl_needed d' = [1] \<and> dl_received d' = dl_received d + 1"
proof -
  obtain d e where a: "node_ok demo_poisoned" "jm_get (fn_downloads demo_poisoned) demo_id = Some d"
    "dl_manifest d = demo_file" "dl_needed d = [1]" by (rule demo_poisoned) blast
  let ?s = "\<lparr>fs_peerId = ed_public demo_crypto (replicate 32 7), fs_peerHex = ''k''\<rparr>"
  obtain r n' where x: "onChunkData demo_crypto (\<lambda>f xs. xs) ?s demo_id 0 (sha256 demo_crypto [1, 2])
      (ed_sign demo_crypto (ed_private demo_crypto (replicate 32 7)) (bytes_of_hex demo_id @ be_bytes 4 0 @ sha256 demo_crypto [1, 2]))
      [1, 2] demo_poisoned = (r, n')" by fastforce
  have g: "chunk_good demo_crypto (dl_manifest d) (fs_peerId ?s) demo_id 0 (sha256 demo_crypto [1, 2])
      (ed_sign demo_crypto (ed_private demo_crypto (replicate 32 7)) (bytes_of_hex demo_id @ be_bytes 4 0 @ sha256 demo_crypto [1, 2])) [1, 2]"
    using demo_evidence [of 0 "[1, 2]"] by (simp add: a(3))
  from progress_overcounted [OF a(1,2) _ g x] a(4) obtain d' where
    "jm_get (fn_downloads n') demo_id = Some d'" "dl_needed d' = [1]" "dl_received d' = dl_received d + 1" by auto
  then show ?thesis using a(2) x by blast
qed

end
