(* ===== verification/JsonParse.thy ===== *)
theory JsonParse
  imports JsonText JsMap
begin

text \<open>
  JSON values, \<open>JSON.stringify\<close> and \<open>JSON.parse\<close>, as far as the program relies on them: the texts it reads
  come from the network (announcements, manifests) and from its own files. A whole number is its value; any
  other number literal is kept as it was written (\<open>JFrac\<close>), which is enough since the program only tests
  such values. An object is an insertion-ordered map, a repeated name keeping its first place and its last
  value. As in \<^theory_text>\<open>JsonText\<close> a string is the list of the bytes of its UTF-8 encoding. The parser is
  recursive descent with fuel; the fuel given by \<open>json_parse\<close> is proved to be enough.
\<close>

section \<open>Values and their text\<close>

datatype json =
    JNull | JBool bool | JNum int | JFrac string | JStr string | JArr "json list" | JObj "(string \<times> json) list"

text \<open>The texts of the items, separated by commas and closed by \<open>e\<close>.\<close>

fun commas :: "char \<Rightarrow> string list \<Rightarrow> string" where
  "commas e [] = [e]"
| "commas e [x] = x @ [e]"
| "commas e (x # y # xs) = x @ CHR '','' # commas e (y # xs)"

fun json_text :: "json \<Rightarrow> string" where
  "json_text JNull = ''null''"
| "json_text (JBool b) = (if b then ''true'' else ''false'')"
| "json_text (JNum i) = json_int i"
| "json_text (JFrac s) = s"
| "json_text (JStr s) = json_string s"
| "json_text (JArr vs) = CHR ''['' # commas CHR '']'' (map json_text vs)"
| "json_text (JObj ms) = CHR ''{'' # commas CHR ''}'' (map (\<lambda>m. json_string (fst m) @ CHR '':'' # json_text (snd m)) ms)"

text \<open>The values whose text determines them: object names are distinct, numbers are whole.\<close>

fun json_plain :: "json \<Rightarrow> bool" where
  "json_plain (JFrac s) = False"
| "json_plain (JArr vs) = (\<forall>v \<in> set vs. json_plain v)"
| "json_plain (JObj ms) = (distinct (map fst ms) \<and> (\<forall>m \<in> set ms. json_plain (snd m)))"
| "json_plain _ = True"

text \<open>Reading a property (\<open>undefined\<close> is \<open>None\<close>), and the truth value of a value.\<close>

fun json_get :: "json \<Rightarrow> string \<Rightarrow> json option" where
  "json_get (JObj ms) k = jm_get ms k"
| "json_get _ k = None"

fun json_truthy :: "json \<Rightarrow> bool" where
  "json_truthy JNull = False"
| "json_truthy (JBool b) = b"
| "json_truthy (JNum i) = (i \<noteq> 0)"
| "json_truthy (JFrac s) = (\<exists>c \<in> set (takeWhile (\<lambda>c. c \<notin> {CHR ''e'', CHR ''E''}) s). is_digit c \<and> c \<noteq> CHR ''0'')"
| "json_truthy (JStr s) = (s \<noteq> '''')"
| "json_truthy _ = True"

section \<open>The parser\<close>

definition json_ws :: "char \<Rightarrow> bool" where
  "json_ws c = (c \<in> {CHR 0x09, CHR 0x0A, CHR 0x0D, CHR '' ''})"

definition skip_ws :: "string \<Rightarrow> string" where
  "skip_ws t = dropWhile json_ws t"

definition utf8 :: "nat \<Rightarrow> string" where
  "utf8 n =
     (if n < 0x80 then [char_of n]
      else if n < 0x800 then [char_of (0xC0 + n div 64), char_of (0x80 + n mod 64)]
      else if n < 0x10000 then
        [char_of (0xE0 + n div 4096), char_of (0x80 + n div 64 mod 64), char_of (0x80 + n mod 64)]
      else [char_of (0xF0 + n div 262144), char_of (0x80 + n div 4096 mod 64),
            char_of (0x80 + n div 64 mod 64), char_of (0x80 + n mod 64)])"

fun hex_number :: "nat \<Rightarrow> string \<Rightarrow> nat option" where
  "hex_number a [] = Some a"
| "hex_number a (c # s) = (case nibble_of_hex c of None \<Rightarrow> None | Some d \<Rightarrow> hex_number (16 * a + d) s)"

definition hex4 :: "string \<Rightarrow> nat option" where
  "hex4 t = (if length t < 4 then None else hex_number 0 (take 4 t))"

text \<open>What follows \<open>\u\<close>: four digits, or a surrogate pair of two escapes.\<close>

definition unicode_escape :: "string \<Rightarrow> (string \<times> string) option" where
  "unicode_escape t =
     (case hex4 t of None \<Rightarrow> None
      | Some h \<Rightarrow>
          (let r = drop 4 t in
           if 0xD800 \<le> h \<and> h < 0xDC00 \<and> take 2 r = [CHR 0x5C, CHR ''u'']
           then (case hex4 (drop 2 r) of
                   Some l \<Rightarrow>
                     if 0xDC00 \<le> l \<and> l < 0xE000
                     then Some (utf8 (0x10000 + (h - 0xD800) * 1024 + (l - 0xDC00)), drop 6 r)
                     else Some (utf8 h, r)
                 | None \<Rightarrow> Some (utf8 h, r))
           else Some (utf8 h, r)))"

definition simple_escape :: "char \<Rightarrow> char option" where
  "simple_escape c =
     (if c \<in> {CHR 0x22, CHR 0x5C, CHR ''/''} then Some c
      else if c = CHR ''b'' then Some CHR 0x08 else if c = CHR ''t'' then Some CHR 0x09
      else if c = CHR ''n'' then Some CHR 0x0A else if c = CHR ''f'' then Some CHR 0x0C
      else if c = CHR ''r'' then Some CHR 0x0D else None)"

lemma unicode_escape_shorter: "unicode_escape t = Some (s, r) \<Longrightarrow> length r < length t"
  by (auto simp: unicode_escape_def hex4_def Let_def split: option.splits if_splits)

text \<open>The characters of a string up to its closing quote.\<close>

function json_chars :: "string \<Rightarrow> (string \<times> string) option" where
  "json_chars t =
     (case t of [] \<Rightarrow> None
      | c # r \<Rightarrow>
          if c = CHR 0x22 then Some ('''', r)
          else if (of_char c :: nat) < 32 then None
          else if c \<noteq> CHR 0x5C then map_option (apfst (Cons c)) (json_chars r)
          else
            (case r of [] \<Rightarrow> None
             | e # r \<Rightarrow>
                 if e = CHR ''u''
                 then (case unicode_escape r of None \<Rightarrow> None
                       | Some (s, r) \<Rightarrow> map_option (apfst (append s)) (json_chars r))
                 else (case simple_escape e of None \<Rightarrow> None
                       | Some x \<Rightarrow> map_option (apfst (Cons x)) (json_chars r))))"
  by pat_completeness auto

termination json_chars
  by (relation "measure length") (auto dest: unicode_escape_shorter)

declare json_chars.simps [simp del]

text \<open>A number literal.\<close>

definition json_frac :: "string \<Rightarrow> (string \<times> string) option" where
  "json_frac t =
     (case t of CHR ''.'' # r \<Rightarrow>
        (let ds = takeWhile is_digit r in
         if ds = [] then None else Some (CHR ''.'' # ds, dropWhile is_digit r))
      | _ \<Rightarrow> Some ('''', t))"

definition json_exp :: "string \<Rightarrow> (string \<times> string) option" where
  "json_exp t =
     (case t of [] \<Rightarrow> Some ('''', t)
      | c # r \<Rightarrow>
          if c \<in> {CHR ''e'', CHR ''E''} then
            (let sg = (if r \<noteq> [] \<and> hd r \<in> {CHR ''+'', CHR ''-''} then [hd r] else '''');
                 r = drop (length sg) r; ds = takeWhile is_digit r in
             if ds = [] then None else Some (c # sg @ ds, dropWhile is_digit r))
          else Some ('''', t))"

definition json_number :: "string \<Rightarrow> (json \<times> string) option" where
  "json_number t =
     (let neg = (t \<noteq> [] \<and> hd t = CHR ''-''); u = (if neg then tl t else t); ds = takeWhile is_digit u in
      if ds = [] \<or> (hd ds = CHR ''0'' \<and> 1 < length ds) then None
      else
        (case json_frac (dropWhile is_digit u) of None \<Rightarrow> None
         | Some (fr, r) \<Rightarrow>
             (case json_exp r of None \<Rightarrow> None
              | Some (ex, r) \<Rightarrow>
                  Some (if fr = '''' \<and> ex = '''' then JNum (if neg then - int (undecimal 0 ds) else int (undecimal 0 ds))
                        else JFrac ((if neg then ''-'' else '''') @ ds @ fr @ ex), r))))"

definition json_literal :: "string \<Rightarrow> (json \<times> string) option" where
  "json_literal t =
     (if take 4 t = ''null'' then Some (JNull, drop 4 t)
      else if take 4 t = ''true'' then Some (JBool True, drop 4 t)
      else if take 5 t = ''false'' then Some (JBool False, drop 5 t)
      else json_number t)"

text \<open>Values, the items of an array after its bracket, the members of an object after its brace.\<close>

fun json_value :: "nat \<Rightarrow> string \<Rightarrow> (json \<times> string) option"
  and json_items :: "nat \<Rightarrow> string \<Rightarrow> (json list \<times> string) option"
  and json_members :: "nat \<Rightarrow> string \<Rightarrow> ((string \<times> json) list \<times> string) option" where
  "json_value 0 t = None"
| "json_value (Suc n) t =
     (case skip_ws t of [] \<Rightarrow> None
      | c # r \<Rightarrow>
          if c = CHR 0x22 then map_option (apfst JStr) (json_chars r)
          else if c = CHR ''['' then
            (if take 1 (skip_ws r) = '']'' then Some (JArr [], tl (skip_ws r))
             else map_option (apfst JArr) (json_items n r))
          else if c = CHR ''{'' then
            (if take 1 (skip_ws r) = ''}'' then Some (JObj [], tl (skip_ws r))
             else map_option (apfst (\<lambda>ms. JObj (foldl (\<lambda>m (k, v). jm_set m k v) [] ms))) (json_members n r))
          else json_literal (c # r))"
| "json_items 0 t = None"
| "json_items (Suc n) t =
     (case json_value n t of None \<Rightarrow> None
      | Some (v, r) \<Rightarrow>
          (case skip_ws r of [] \<Rightarrow> None
           | c # r \<Rightarrow>
               if c = CHR '','' then map_option (apfst (Cons v)) (json_items n r)
               else if c = CHR '']'' then Some ([v], r) else None))"
| "json_members 0 t = None"
| "json_members (Suc n) t =
     (case skip_ws t of [] \<Rightarrow> None
      | q # r \<Rightarrow>
          if q \<noteq> CHR 0x22 then None
          else
            (case json_chars r of None \<Rightarrow> None
             | Some (k, r) \<Rightarrow>
                 (case skip_ws r of [] \<Rightarrow> None
                  | c # r \<Rightarrow>
                      if c \<noteq> CHR '':'' then None
                      else
                        (case json_value n r of None \<Rightarrow> None
                         | Some (v, r) \<Rightarrow>
                             (case skip_ws r of [] \<Rightarrow> None
                              | c # r \<Rightarrow>
                                  if c = CHR '','' then map_option (apfst (Cons (k, v))) (json_members n r)
                                  else if c = CHR ''}'' then Some ([(k, v)], r) else None)))))"

definition json_fuel :: "string \<Rightarrow> nat" where
  "json_fuel t = 2 * length t + 1"

definition json_parse :: "string \<Rightarrow> json res" where
  "json_parse t =
     (case json_value (json_fuel t) t of
        Some (v, r) \<Rightarrow> if skip_ws r = [] then Inr v else Inl JsonSyntax
      | None \<Rightarrow> Inl JsonSyntax)"

section \<open>Reading back what was printed\<close>

lemma json_chars_escape: "json_chars (json_escape c @ r) = map_option (apfst (Cons c)) (json_chars r)"
proof -
  let ?n = "of_char c :: nat"
  consider "?n \<in> {8, 9, 10, 12, 13, 34, 92}" | "?n < 32" "?n \<notin> {8, 9, 10, 12, 13, 34, 92}"
    | "32 \<le> ?n" "?n \<notin> {8, 9, 10, 12, 13, 34, 92}" by fastforce
  then show ?thesis
  proof cases
    case 1
    then have "c \<in> {CHR 0x08, CHR 0x09, CHR 0x0A, CHR 0x0C, CHR 0x0D, CHR 0x22, CHR 0x5C}"
      by (auto simp: char_eq_of)
    then show ?thesis
      by (subst json_chars.simps) (auto simp: json_escape_def simple_escape_def Let_def)
  next
    case 2
    have h: "?n div 16 < 16" "?n mod 16 < 16" using 2 by simp_all
    have z: "nibble_of_hex CHR ''0'' = Some 0" by (simp add: nibble_of_hex_def)
    have "hex4 (CHR ''0'' # CHR ''0'' # hex_of_nibble (?n div 16) # hex_of_nibble (?n mod 16) # r) = Some ?n"
      using h by (simp add: hex4_def z nibble_of_hex_of_nibble)
    moreover have "utf8 ?n = [c]" using 2 by (simp add: utf8_def)
    ultimately have "unicode_escape (CHR ''0'' # CHR ''0'' # hex_of_nibble (?n div 16) # hex_of_nibble (?n mod 16) # r) =
        Some ([c], r)" using 2 by (simp add: unicode_escape_def)
    moreover have "append [c] = Cons c" by (simp add: fun_eq_iff)
    ultimately show ?thesis using 2
      by (subst json_chars.simps) (auto simp: json_escape_def Let_def char_eq_of)
  next
    case 3
    then show ?thesis
      by (subst json_chars.simps) (auto simp: json_escape_def Let_def char_eq_of)
  qed
qed

lemma json_chars_string: "json_chars (concat (map json_escape s) @ CHR 0x22 # r) = Some (s, r)"
proof (induction s)
  case Nil
  show ?case by (subst json_chars.simps) simp
next
  case (Cons c s)
  then show ?case by (simp add: json_chars_escape)
qed

text \<open>What may follow a value: nothing that would prolong a number.\<close>

definition ends_value :: "string \<Rightarrow> bool" where
  "ends_value r \<longleftrightarrow> (case r of [] \<Rightarrow> True | c # _ \<Rightarrow> \<not> is_digit c \<and> c \<notin> {CHR ''.'', CHR ''e'', CHR ''E''})"

lemma ends_value_simps [simp]:
  "ends_value []" "ends_value (CHR '','' # r)" "ends_value (CHR '']'' # r)" "ends_value (CHR ''}'' # r)"
  by (simp_all add: ends_value_def is_digit_def)

lemma digits_end: "ends_value r \<Longrightarrow> takeWhile is_digit (decimal n @ r) = decimal n \<and> dropWhile is_digit (decimal n @ r) = r"
  using decimal_digits [of n] by (cases r) (auto simp: ends_value_def takeWhile_append2 dropWhile_append)

lemma decimal_zero: "hd (decimal n) = CHR ''0'' \<Longrightarrow> length (decimal n) \<le> 1"
proof (induction n rule: decimal.induct)
  case (1 n)
  show ?case
  proof (cases "n < 10")
    case True
    then show ?thesis by (subst decimal.simps) simp
  next
    case False
    have h: "hd (decimal n) = hd (decimal (n div 10))"
      using False decimal_nonempty [of "n div 10"] by (subst decimal.simps) simp
    then have "decimal (n div 10) = [CHR ''0'']"
      using 1 False decimal_nonempty [of "n div 10"]
      by (cases "decimal (n div 10)") (auto simp: le_Suc_eq)
    then have "n div 10 = 0"
      using undecimal_decimal [of "n div 10"] by simp
    with False show ?thesis by simp
  qed
qed

lemma frac_exp_end: "ends_value r \<Longrightarrow> json_frac r = Some ('''', r) \<and> json_exp r = Some ('''', r)"
  by (cases r) (auto simp: ends_value_def json_frac_def json_exp_def split: list.splits char.splits bool.splits)

lemma json_number_int: "ends_value r \<Longrightarrow> json_number (json_int i @ r) = Some (JNum i, r)"
proof -
  assume r: "ends_value r"
  have m: "decimal n @ r \<noteq> [] \<and> hd (decimal n @ r) \<noteq> CHR ''-''" for n
    using decimal_digits [of n] decimal_nonempty [of n] by (cases "decimal n") (auto simp: is_digit_def)
  have z: "\<not> (hd (decimal n) = CHR ''0'' \<and> Suc 0 < length (decimal n))" for n using decimal_zero [of n] by auto
  show ?thesis
  proof (cases "i < 0")
    case True
    then show ?thesis
      using z [of "nat (- i)"] digits_end [OF r] frac_exp_end [OF r]
      by (simp add: json_number_def json_int_def Let_def decimal_nonempty undecimal_decimal)
  next
    case False
    then show ?thesis
      using m [of "nat i"] z [of "nat i"] digits_end [OF r] frac_exp_end [OF r]
      by (simp add: json_number_def json_int_def Let_def decimal_nonempty undecimal_decimal)
  qed
qed

text \<open>No printed value starts with white space or with a closing bracket.\<close>

definition starts_value :: "string \<Rightarrow> bool" where
  "starts_value t \<longleftrightarrow> t \<noteq> [] \<and> \<not> json_ws (hd t) \<and> hd t \<notin> {CHR '']'', CHR ''}''}"

lemma json_int_Cons: obtains c s where "json_int i = c # s" "c = CHR ''-'' \<or> is_digit c"
  using decimal_digits [of "nat i"] decimal_nonempty [of "nat i"]
  by (cases "decimal (nat i)"; cases "i < 0") (auto simp: json_int_def)

lemma starts_json_int: "starts_value (json_int i @ r)"
  by (rule json_int_Cons [of i]) (auto simp: starts_value_def json_ws_def is_digit_def)

lemma starts_json_text: "json_plain v \<Longrightarrow> starts_value (json_text v @ r)"
  by (cases v) (auto simp: starts_json_int, auto simp: starts_value_def json_ws_def json_string_def)

lemma skip_ws_start: "starts_value t \<Longrightarrow> skip_ws t = t"
  by (cases t) (auto simp: starts_value_def skip_ws_def)

lemma skip_ws_char [simp]: "\<not> json_ws c \<Longrightarrow> skip_ws (c # r) = c # r"
  by (simp add: skip_ws_def)

lemma json_ws_punct [simp]:
  "\<not> json_ws CHR '',''" "\<not> json_ws CHR '']''" "\<not> json_ws CHR ''}''" "\<not> json_ws CHR '':''" "\<not> json_ws CHR 0x22"
  "\<not> json_ws CHR ''[''" "\<not> json_ws CHR ''{''"
  by (simp_all add: json_ws_def)

lemma json_value_int: "ends_value r \<Longrightarrow> json_value (Suc n) (json_int i @ r) = Some (JNum i, r)"
proof -
  assume r: "ends_value r"
  obtain c s where t: "json_int i @ r = c # s" and c: "c = CHR ''-'' \<or> is_digit c"
    by (rule json_int_Cons [of i]) auto
  have "skip_ws (c # s) = c # s" using starts_json_int [of i r] t by (auto intro: skip_ws_start)
  moreover have "take 4 (c # s) \<noteq> ''null''" "take 4 (c # s) \<noteq> ''true''" "take 5 (c # s) \<noteq> ''false''"
    "c \<notin> {CHR 0x22, CHR ''['', CHR ''{''}"
    using c by (auto simp: is_digit_def)
  ultimately show ?thesis using json_number_int [OF r, of i] unfolding t by (simp add: json_literal_def)
qed

lemma commas_length: "vs \<noteq> [] \<Longrightarrow> length (commas e (x # vs)) = Suc (length x + length (commas e vs))"
  by (cases vs) simp_all

lemma commas_nonempty: "commas e xs \<noteq> []"
  by (cases "(e, xs)" rule: commas.cases) simp_all

lemma commas_Cons: "commas e (x # xs) @ r = x @ (if xs = [] then e # r else CHR '','' # commas e xs @ r)"
  by (cases xs) simp_all

lemma json_items_text:
  assumes "vs \<noteq> []"
    and "\<And>v n r. v \<in> set vs \<Longrightarrow> 2 * length (json_text v) + 1 \<le> n \<Longrightarrow> ends_value r \<Longrightarrow>
      json_value n (json_text v @ r) = Some (v, r)"
    and "2 * length (commas CHR '']'' (map json_text vs)) \<le> n"
  shows "json_items n (commas CHR '']'' (map json_text vs) @ r) = Some (vs, r)"
  using assms
proof (induction vs arbitrary: n)
  case (Cons v vs)
  then obtain m where n: "n = Suc m" using Cons.prems(3) commas_nonempty by (cases n) auto
  show ?case
  proof (cases "vs = []")
    case True
    then show ?thesis using Cons.prems n by simp
  next
    case False
    have l: "2 * length (json_text v) + 1 \<le> m" "2 * length (commas CHR '']'' (map json_text vs)) \<le> m"
      using Cons.prems(3) False n by (auto simp: commas_length)
    have "json_items m (commas CHR '']'' (map json_text vs) @ r) = Some (vs, r)"
      using Cons.IH [OF False _ l(2)] Cons.prems(2) by simp
    then show ?thesis using Cons.prems(2) [of v] l(1) False n by (simp add: commas_Cons)
  qed
qed simp

abbreviation member_text :: "string \<times> json \<Rightarrow> string" where
  "member_text \<equiv> \<lambda>m. json_string (fst m) @ CHR '':'' # json_text (snd m)"

lemma json_members_text:
  assumes "ms \<noteq> []"
    and "\<And>m n r. m \<in> set ms \<Longrightarrow> 2 * length (json_text (snd m)) + 1 \<le> n \<Longrightarrow> ends_value r \<Longrightarrow>
      json_value n (json_text (snd m) @ r) = Some (snd m, r)"
    and "2 * length (commas CHR ''}'' (map member_text ms)) \<le> n"
  shows "json_members n (commas CHR ''}'' (map member_text ms) @ r) = Some (ms, r)"
  using assms
proof (induction ms arbitrary: n)
  case (Cons m ms)
  obtain k v where m: "m = (k, v)" by (cases m)
  obtain p where n: "n = Suc p" using Cons.prems(3) commas_nonempty by (cases n) auto
  show ?case
  proof (cases "ms = []")
    case True
    then show ?thesis using Cons.prems(2) [of m p] Cons.prems(3) n m
      by (simp add: json_string_def json_chars_string)
  next
    case False
    have l: "2 * length (json_text v) + 1 \<le> p" "2 * length (commas CHR ''}'' (map member_text ms)) \<le> p"
      using Cons.prems(3) False n by (auto simp: commas_length m)
    have "json_members p (commas CHR ''}'' (map member_text ms) @ r) = Some (ms, r)"
      using Cons.IH [OF False _ l(2)] Cons.prems(2) by simp
    then show ?thesis using Cons.prems(2) [of m p] l(1) False n m
      by (simp add: commas_Cons json_string_def json_chars_string)
  qed
qed simp

lemma foldl_members: "distinct (map fst (m @ ms)) \<Longrightarrow> foldl (\<lambda>m (k, v). jm_set m k v) m ms = m @ ms"
proof (induction ms arbitrary: m)
  case (Cons kv ms)
  obtain k v where kv: "kv = (k, v)" by (cases kv)
  have "k \<notin> fst ` set m \<Longrightarrow> jm_set m k v = m @ [(k, v)]" by (induction m) auto
  then show ?case using Cons.IH [of "m @ [kv]"] Cons.prems by (simp add: kv)
qed simp

lemma json_value_text:
  "json_plain v \<Longrightarrow> 2 * length (json_text v) + 1 \<le> n \<Longrightarrow> ends_value r \<Longrightarrow> json_value n (json_text v @ r) = Some (v, r)"
proof (induction v arbitrary: n r)
  case JNull
  then show ?case by (cases n) (auto simp: json_literal_def json_ws_def skip_ws_def)
next
  case (JArr vs)
  obtain m where n: "n = Suc m" using JArr.prems(2) by (cases n) auto
  show ?case
  proof (cases vs)
    case Nil
    then show ?thesis by (simp add: n)
  next
    case (Cons w ws)
    have "json_items m (commas CHR '']'' (map json_text vs) @ r) = Some (vs, r)"
      using JArr.prems n by (intro json_items_text) (auto simp: Cons JArr.IH)
    moreover have "starts_value (commas CHR '']'' (map json_text vs) @ r)"
      using starts_json_text [of w] JArr.prems(1) by (simp add: Cons commas_Cons)
    ultimately obtain c s where t: "commas CHR '']'' (map json_text vs) @ r = c # s" "\<not> json_ws c" "c \<noteq> CHR '']''"
      and i: "json_items m (c # s) = Some (vs, r)"
      by (cases "commas CHR '']'' (map json_text vs) @ r") (auto simp: starts_value_def)
    have "json_value n (json_text (JArr vs) @ r) = json_value (Suc m) (CHR ''['' # c # s)" using t(1) n by simp
    then show ?thesis using t(2,3) i by simp
  qed
next
  case (JObj ms)
  obtain p where n: "n = Suc p" using JObj.prems(2) by (cases n) auto
  show ?case
  proof (cases ms)
    case Nil
    then show ?thesis by (simp add: n)
  next
    case (Cons a as)
    have "json_members p (commas CHR ''}'' (map member_text ms) @ r) = Some (ms, r)"
    proof (rule json_members_text)
      fix m n r
      assume "m \<in> set ms" "2 * length (json_text (snd m)) + 1 \<le> n" "ends_value r"
      then show "json_value n (json_text (snd m) @ r) = Some (snd m, r)"
        using JObj.IH [of m "snd m"] JObj.prems(1) by (auto simp: snds.intros)
    qed (use JObj.prems n in \<open>auto simp: Cons\<close>)
    moreover obtain s where t: "commas CHR ''}'' (map member_text ms) @ r = CHR 0x22 # s"
      by (simp add: Cons commas_Cons json_string_def)
    moreover have "foldl (\<lambda>m (k, v). jm_set m k v) [] ms = ms"
      using foldl_members [of "[]" ms] JObj.prems(1) by simp
    moreover have "json_value n (json_text (JObj ms) @ r) = json_value (Suc p) (CHR ''{'' # CHR 0x22 # s)"
      using t n by simp
    ultimately show ?thesis by simp
  qed
qed (auto simp: json_value_int json_string_def json_chars_string json_literal_def json_ws_def skip_ws_def
       intro: json_value_int dest!: Suc_le_D)

section \<open>The fuel is enough\<close>

lemma json_chars_shorter: "json_chars t = Some (s, r) \<Longrightarrow> length r < length t"
proof (induction t arbitrary: s rule: json_chars.induct)
  case (1 t)
  show ?case
  proof (cases t)
    case (Cons c u)
    consider "c = CHR 0x22" | "c \<noteq> CHR 0x22" "(of_char c :: nat) < 32"
      | "c \<noteq> CHR 0x22" "\<not> (of_char c :: nat) < 32" "c \<noteq> CHR 0x5C" | "c = CHR 0x5C" by blast
    then show ?thesis
    proof cases
      case 3
      then obtain s' where "json_chars u = Some (s', r)"
        using 1(4) Cons by (subst (asm) json_chars.simps) auto
      then show ?thesis using 1(1) [OF Cons 3] Cons by fastforce
    next
      case 4
      then obtain e v where u: "u = e # v" using 1(4) Cons by (subst (asm) json_chars.simps) (auto split: list.splits)
      show ?thesis
      proof (cases "e = CHR ''u''")
        case True
        then obtain x w s' where x: "unicode_escape v = Some (x, w)" "json_chars w = Some (s', r)"
          using 1(4) Cons 4 u by (subst (asm) json_chars.simps) (auto split: option.splits)
        then show ?thesis
          using 1(2) [OF Cons _ _ _ u True x(1) refl, of s'] unicode_escape_shorter [OF x(1)] Cons 4 u by simp
      next
        case False
        then obtain x s' where x: "simple_escape e = Some x" "json_chars v = Some (s', r)"
          using 1(4) Cons 4 u by (subst (asm) json_chars.simps) (auto split: option.splits)
        then show ?thesis using 1(3) [OF Cons _ _ _ u False x(1), of s'] Cons 4 u by simp
      qed
    qed (use 1(4) Cons in \<open>subst (asm) json_chars.simps, auto\<close>)+
  qed (use 1(4) in \<open>subst (asm) json_chars.simps, auto\<close>)
qed

lemma skip_ws_length: "length (skip_ws t) \<le> length t"
  by (simp add: skip_ws_def length_dropWhile_le)

lemma json_number_shorter: "json_number t = Some (v, r) \<Longrightarrow> length r < length t"
proof -
  assume a: "json_number t = Some (v, r)"
  let ?u = "if t \<noteq> [] \<and> hd t = CHR ''-'' then tl t else t"
  have f: "json_frac x = Some (fr, y) \<Longrightarrow> length y \<le> length x" for x fr y
    by (auto simp: json_frac_def Let_def length_dropWhile_le le_SucI split: list.splits char.splits bool.splits if_splits)
  have e: "length y \<le> length x" if "json_exp x = Some (ex, y)" for x ex y
  proof (cases x)
    case Nil
    then show ?thesis using that by (simp add: json_exp_def)
  next
    case (Cons c u)
    define sg where "sg = (if u \<noteq> [] \<and> hd u \<in> {CHR ''+'', CHR ''-''} then [hd u] else '''')"
    have "y = dropWhile is_digit (drop (length sg) u) \<or> y = x"
      using that unfolding Cons json_exp_def list.case sg_def [symmetric] Let_def by (simp split: if_splits)
    moreover have "length (dropWhile is_digit (drop (length sg) u)) \<le> length u"
      using length_dropWhile_le [of is_digit "drop (length sg) u"] by simp
    ultimately show ?thesis using Cons by auto
  qed
  have "takeWhile is_digit ?u \<noteq> []" using a by (auto simp: json_number_def Let_def split: if_splits)
  then have "length (dropWhile is_digit ?u) < length ?u"
    by (metis length_append length_greater_0_conv less_add_same_cancel2 takeWhile_dropWhile_id)
  moreover obtain fr x ex where "json_frac (dropWhile is_digit ?u) = Some (fr, x)" "json_exp x = Some (ex, r)"
    using a by (auto simp: json_number_def Let_def split: if_splits option.splits)
  ultimately have "length r < length ?u" using f e by (meson le_less_trans le_trans)
  then show ?thesis by (auto split: if_splits)
qed

lemma json_literal_shorter: "json_literal t = Some (v, r) \<Longrightarrow> length r < length t"
proof -
  assume a: "json_literal t = Some (v, r)"
  have 1: "take n t = x \<Longrightarrow> x \<noteq> [] \<Longrightarrow> n \<noteq> 0 \<Longrightarrow> length (drop n t) < length t" for n x by (cases t) auto
  show ?thesis
    using a 1 [of 4 "''null''"] 1 [of 4 "''true''"] 1 [of 5 "''false''"] json_number_shorter [of t]
    by (auto simp: json_literal_def split: if_splits)
qed

lemma skip_ws_Cons: "skip_ws t = c # r \<Longrightarrow> length r < length t"
  using skip_ws_length [of t] by simp

lemma json_shorter:
  "json_value n t = Some (v, r) \<Longrightarrow> length r < length t"
  "json_items n t = Some (vs, r) \<Longrightarrow> length r < length t"
  "json_members n t = Some (ms, r) \<Longrightarrow> length r < length t"
proof (induction n t and n t and n t arbitrary: v r and vs r and ms r rule: json_value_json_items_json_members.induct)
  case (2 n t)
  then obtain c u where t: "skip_ws t = c # u" by (auto split: list.splits)
  note l = skip_ws_Cons [OF t]
  have k: "length (tl (skip_ws u)) \<le> length u" using skip_ws_length [of u] by simp
  consider "c = CHR 0x22" | "c = CHR ''[''" | "c = CHR ''{''" | "c \<notin> {CHR 0x22, CHR ''['', CHR ''{''}" by blast
  then show ?case
  proof cases
    case 1
    then show ?thesis using 2(3) t l json_chars_shorter by fastforce
  next
    case a: 2
    show ?thesis
    proof (cases "take 1 (skip_ws u) = '']''")
      case True
      then show ?thesis using 2(3) t l k a by simp
    next
      case False
      then obtain vs where "json_items n u = Some (vs, r)" using 2(3) t a by auto
      then show ?thesis using 2(1) [OF t _ a False] l a by fastforce
    qed
  next
    case a: 3
    show ?thesis
    proof (cases "take 1 (skip_ws u) = ''}''")
      case True
      then show ?thesis using 2(3) t l k a by simp
    next
      case False
      then obtain ms where "json_members n u = Some (ms, r)" using 2(3) t a by auto
      then show ?thesis using 2(2) [OF t _ _ a False] l a by fastforce
    qed
  next
    case 4
    then have "json_literal (c # u) = Some (v, r)" using 2(3) t by simp
    from json_literal_shorter [OF this] show ?thesis using l by simp
  qed
next
  case (4 n t)
  then obtain v u where v: "json_value n t = Some (v, u)" by (auto split: option.splits)
  then obtain c w where u: "skip_ws u = c # w" using 4(3) by (auto split: list.splits)
  have l: "length w < length t" using 4(1) [OF v] skip_ws_Cons [OF u] by simp
  show ?case
  proof (cases "c = CHR '',''")
    case True
    then obtain vs' where "json_items n w = Some (vs', r)" using 4(3) v u by auto
    then show ?thesis using 4(2) [OF v refl u True] l by fastforce
  next
    case False
    then show ?thesis using 4(3) v u l by (auto split: if_splits)
  qed
next
  case (6 n t)
  then obtain u where t: "skip_ws t = CHR 0x22 # u" by (auto split: list.splits if_splits)
  then obtain k w where k: "json_chars u = Some (k, w)" using 6(3) by (auto split: option.splits)
  then obtain x where w: "skip_ws w = CHR '':'' # x" using 6(3) t by (auto split: list.splits if_splits)
  then obtain v y where v: "json_value n x = Some (v, y)" using 6(3) t k by (auto split: option.splits)
  then obtain c z where y: "skip_ws y = c # z" using 6(3) t k w by (auto split: list.splits)
  have l: "length z < length t"
    using skip_ws_Cons [OF t] json_chars_shorter [OF k] skip_ws_Cons [OF w] 6(1) [OF t _ k refl w _ v] skip_ws_Cons [OF y]
    by simp
  show ?case
  proof (cases "c = CHR '',''")
    case True
    then obtain ms' where "json_members n z = Some (ms', r)" using 6(3) t k w v y by auto
    then show ?thesis using 6(2) [OF t _ k refl w _ v refl y True] l by fastforce
  next
    case False
    then show ?thesis using 6(3) t k w v y l by (auto split: if_splits)
  qed
qed simp_all

lemma json_fuel_enough:
  "(2 * length t + 1 \<le> m \<longrightarrow> 2 * length t + 1 \<le> n \<longrightarrow> json_value m t = json_value n t) \<and>
   (2 * length t + 2 \<le> m \<longrightarrow> 2 * length t + 2 \<le> n \<longrightarrow> json_items m t = json_items n t \<and> json_members m t = json_members n t)"
proof (induction "length t" arbitrary: t m n rule: less_induct)
  case less
  have v: "json_value m t = json_value n t" if b: "2 * length t + 1 \<le> m" "2 * length t + 1 \<le> n" for m n
  proof -
    obtain p q where p: "m = Suc p" "n = Suc q" using b by (cases m; cases n) auto
    show ?thesis
    proof (cases "skip_ws t")
      case (Cons c u)
      have "json_items p u = json_items q u \<and> json_members p u = json_members q u"
        using less [OF skip_ws_Cons [OF Cons], of p q] skip_ws_Cons [OF Cons] b p by simp
      then show ?thesis unfolding p by (simp add: Cons)
    qed (simp add: p)
  qed
  have i: "json_items m t = json_items n t" if b: "2 * length t + 2 \<le> m" "2 * length t + 2 \<le> n" for m n
  proof -
    obtain p q where p: "m = Suc p" "n = Suc q" using b by (cases m; cases n) auto
    have e: "json_value p t = json_value q t" using v [of p q] b p by simp
    have "json_items p w = json_items q w" if "json_value q t = Some (x, u)" "skip_ws u = c # w" for x u c w
      using less [of w p q] json_shorter(1) [OF that(1)] skip_ws_Cons [OF that(2)] b p by simp
    then show ?thesis unfolding p by (auto simp: e split: option.splits list.splits)
  qed
  have "json_members m t = json_members n t" if b: "2 * length t + 2 \<le> m" "2 * length t + 2 \<le> n" for m n
  proof -
    obtain p q where p: "m = Suc p" "n = Suc q" using b by (cases m; cases n) auto
    have 1: "json_value p x = json_value q x"
      if "skip_ws t = c # u" "json_chars u = Some (k, w)" "skip_ws w = d # x" for c u k w d x
      using less [of x p q] skip_ws_Cons [OF that(1)] json_chars_shorter [OF that(2)] skip_ws_Cons [OF that(3)] b p by simp
    have 2: "json_members p z = json_members q z"
      if "skip_ws t = c # u" "json_chars u = Some (k, w)" "skip_ws w = d # x" "json_value q x = Some (y, a)" "skip_ws a = e # z"
      for c u k w d x y a e z
      using less [of z p q] skip_ws_Cons [OF that(1)] json_chars_shorter [OF that(2)] skip_ws_Cons [OF that(3)]
        json_shorter(1) [OF that(4)] skip_ws_Cons [OF that(5)] b p by simp
    show ?thesis unfolding p
      by (simp add: 1 2 split: option.splits list.splits cong: option.case_cong list.case_cong)
  qed
  with v i show ?case by blast
qed

end
