(* ===== verification/JsText.thy ===== *)
theory JsText
  imports JsonParse
begin

text \<open>
  The string operations of JavaScript the node uses on chat texts, over the bytes of the UTF-8 encoding:
  \<open>Buffer.toString()\<close> with its replacement of ill-formed sequences, \<open>String.prototype.trim\<close> and the class
  \<open>\s\<close> of regular expressions (the same characters).
\<close>

section \<open>White space\<close>

definition js_spaces :: "string list" where
  "js_spaces =
     [[CHR 0x09], [CHR 0x0A], [CHR 0x0B], [CHR 0x0C], [CHR 0x0D], '' ''] @
     [[CHR 0xC2, CHR 0xA0], [CHR 0xE1, CHR 0x9A, CHR 0x80]] @
     map (\<lambda>i. [CHR 0xE2, CHR 0x80, char_of i]) ([0x80..<0x8B] @ [0xA8, 0xA9, 0xAF :: nat]) @
     [[CHR 0xE2, CHR 0x81, CHR 0x9F], [CHR 0xE3, CHR 0x80, CHR 0x80], [CHR 0xEF, CHR 0xBB, CHR 0xBF]]"

text \<open>Words of the list \<open>ws\<close> are dropped from the front as long as there is one.\<close>

function drop_words :: "string list \<Rightarrow> string \<Rightarrow> string" where
  "drop_words ws t =
     (case List.find (\<lambda>w. w \<noteq> '''' \<and> take (length w) t = w) ws of
        None \<Rightarrow> t
      | Some w \<Rightarrow> drop_words ws (drop (length w) t))"
  by pat_completeness auto

termination drop_words
  proof (relation "measure (length \<circ> snd)")
  fix ws t w
  assume "List.find (\<lambda>w. w \<noteq> [] \<and> take (length w) t = w) ws = Some w"
  then have "w \<noteq> []" "take (length w) t = w" by (auto simp: find_Some_iff)
  then show "((ws, drop (length w) t), ws, t) \<in> measure (length \<circ> snd)"
    by (cases t) (auto simp: neq_Nil_conv)
qed simp

declare drop_words.simps [simp del]

definition skip_spaces :: "string \<Rightarrow> string" where
  "skip_spaces t = drop_words js_spaces t"

definition trim :: "string \<Rightarrow> string" where
  "trim t = rev (drop_words (map rev js_spaces) (rev (skip_spaces t)))"

lemma drop_words_stop: "(\<forall>w \<in> set ws. w = '''' \<or> take (length w) t \<noteq> w) \<Longrightarrow> drop_words ws t = t"
proof -
  assume "\<forall>w \<in> set ws. w = '''' \<or> take (length w) t \<noteq> w"
  then have "List.find (\<lambda>w. w \<noteq> '''' \<and> take (length w) t = w) ws = None" by (auto simp: find_None_iff)
  then show ?thesis by (subst drop_words.simps) simp
qed

lemma drop_words_suffix: "\<exists>p. t = p @ drop_words ws t"
proof (induction ws t rule: drop_words.induct)
  case (1 ws t)
  show ?case
  proof (cases "List.find (\<lambda>w. w \<noteq> '''' \<and> take (length w) t = w) ws")
    case (Some w)
    then obtain p where p: "drop (length w) t = p @ drop_words ws (drop (length w) t)" using 1 [OF Some] by blast
    have "drop_words ws t = drop_words ws (drop (length w) t)" using Some by (subst drop_words.simps) simp
    then have "t = (take (length w) t @ p) @ drop_words ws t" using p by (metis append.assoc append_take_drop_id)
    then show ?thesis by blast
  qed (subst drop_words.simps, simp)
qed

section \<open>Decoding\<close>

text \<open>How many continuation bytes a lead byte asks for, and the range of the first of them.\<close>

definition utf8_lead :: "nat \<Rightarrow> (nat \<times> nat \<times> nat) option" where
  "utf8_lead b =
     (if 0xC2 \<le> b \<and> b \<le> 0xDF then Some (1, 0x80, 0xBF)
      else if b = 0xE0 then Some (2, 0xA0, 0xBF)
      else if b = 0xED then Some (2, 0x80, 0x9F)
      else if 0xE1 \<le> b \<and> b \<le> 0xEF then Some (2, 0x80, 0xBF)
      else if b = 0xF0 then Some (3, 0x90, 0xBF)
      else if 0xF1 \<le> b \<and> b \<le> 0xF3 then Some (3, 0x80, 0xBF)
      else if b = 0xF4 then Some (3, 0x80, 0x8F)
      else None)"

text \<open>The continuation bytes found, at most \<open>n\<close> of them.\<close>

fun utf8_tail :: "nat \<Rightarrow> nat \<Rightarrow> nat \<Rightarrow> string \<Rightarrow> string" where
  "utf8_tail (Suc n) lo hi (c # t) =
     (if lo \<le> (of_char c :: nat) \<and> (of_char c :: nat) \<le> hi then c # utf8_tail n 0x80 0xBF t else '''')"
| "utf8_tail _ _ _ _ = ''''"

definition replacement :: string where
  "replacement = [CHR 0xEF, CHR 0xBF, CHR 0xBD]"

function utf8_lossy :: "string \<Rightarrow> string" where
  "utf8_lossy t =
     (case t of [] \<Rightarrow> []
      | c # r \<Rightarrow>
          if (of_char c :: nat) < 0x80 then c # utf8_lossy r
          else
            (case utf8_lead (of_char c) of
               None \<Rightarrow> replacement @ utf8_lossy r
             | Some (n, lo, hi) \<Rightarrow>
                 (let k = utf8_tail n lo hi r in
                  (if length k = n then c # k else replacement) @ utf8_lossy (drop (length k) r))))"
  by pat_completeness auto

termination utf8_lossy
  by (relation "measure length") auto

declare utf8_lossy.simps [simp del]

text \<open>\<open>Buffer.toString()\<close>, and the texts that are well-formed.\<close>

definition buf_text :: "bytes \<Rightarrow> string" where
  "buf_text b = utf8_lossy (bytes_text b)"

definition well_formed :: "string \<Rightarrow> bool" where
  "well_formed t = (utf8_lossy t = t)"

lemma buf_text_bytes: "well_formed t \<Longrightarrow> buf_text (text_bytes t) = t"
  by (simp add: buf_text_def well_formed_def)

lemma utf8_lossy_ascii: "list_all (\<lambda>c. (of_char c :: nat) < 0x80) s \<Longrightarrow> utf8_lossy (s @ t) = s @ utf8_lossy t"
  by (induction s) (simp, subst utf8_lossy.simps, simp)

lemma well_formed_ascii: "list_all (\<lambda>c. (of_char c :: nat) < 0x80) s \<Longrightarrow> well_formed s"
  using utf8_lossy_ascii [of s "[]"] by (simp add: well_formed_def utf8_lossy.simps [of "[]"])

lemma utf8_tail_take: "utf8_tail n lo hi t = take (length (utf8_tail n lo hi t)) t"
  by (induction n lo hi t rule: utf8_tail.induct) simp_all

lemma utf8_tail_append: "length (utf8_tail n lo hi t) = n \<Longrightarrow> utf8_tail n lo hi (t @ u) = utf8_tail n lo hi t"
  by (induction n lo hi t rule: utf8_tail.induct) (auto split: if_splits)

lemma utf8_tail_self: "utf8_tail n lo hi (utf8_tail n lo hi t) = utf8_tail n lo hi t"
  by (induction n lo hi t rule: utf8_tail.induct) simp_all

lemma utf8_tail_length: "length (utf8_tail n lo hi t) \<le> n"
  by (induction n lo hi t rule: utf8_tail.induct) simp_all

text \<open>Decoding what was decoded changes nothing: the text of a message is well-formed.\<close>

lemma replacement_lossy: "utf8_lossy (replacement @ t) = replacement @ utf8_lossy t"
  by (subst utf8_lossy.simps) (simp add: replacement_def utf8_lead_def eval_nat_numeral)

lemma lead_step:
  assumes "\<not> (of_char c :: nat) < 0x80" and "utf8_lead (of_char c) = Some (n, lo, hi)"
    and "utf8_tail n lo hi k = k" and "length k = n"
  shows "utf8_lossy (c # k @ u) = c # k @ utf8_lossy u"
proof -
  have "utf8_tail n lo hi (k @ u) = k" using utf8_tail_append [of n lo hi k u] assms(3,4) by simp
  then show ?thesis using assms by (subst utf8_lossy.simps) (simp add: Let_def)
qed

lemma well_formed_lossy: "well_formed (utf8_lossy t)"
proof (induction t rule: utf8_lossy.induct)
  case (1 t)
  show ?case
  proof (cases t)
    case Nil
    then show ?thesis by (simp add: well_formed_def utf8_lossy.simps [of "[]"])
  next
    case (Cons c r)
    show ?thesis
    proof (cases "(of_char c :: nat) < 0x80")
      case True
      then have "utf8_lossy t = c # utf8_lossy r" by (subst utf8_lossy.simps) (simp add: Cons)
      moreover have "utf8_lossy (c # utf8_lossy r) = c # utf8_lossy (utf8_lossy r)"
        using True by (subst utf8_lossy.simps) simp
      ultimately show ?thesis using 1(1) [OF Cons True] by (simp add: well_formed_def)
    next
      case big: False
      show ?thesis
      proof (cases "utf8_lead (of_char c)")
        case None
        then have "utf8_lossy t = replacement @ utf8_lossy r" using big by (subst utf8_lossy.simps) (simp add: Cons)
        then show ?thesis using 1(2) [OF Cons big None] by (simp add: well_formed_def replacement_lossy)
      next
        case (Some x)
        obtain n lo hi where x: "x = (n, lo, hi)" by (cases x)
        define k where "k = utf8_tail n lo hi r"
        have t: "utf8_lossy t = (if length k = n then c # k else replacement) @ utf8_lossy (drop (length k) r)"
          using big Some x by (subst utf8_lossy.simps) (simp add: Cons k_def Let_def)
        have ih: "well_formed (utf8_lossy (drop (length k) r))" by (rule 1(3) [OF Cons big Some x [symmetric] refl k_def])
        show ?thesis
        proof (cases "length k = n")
          case True
          have "utf8_lossy (c # k @ u) = c # k @ utf8_lossy u" for u
            using lead_step [of c n lo hi k u] big Some x True by (simp add: k_def utf8_tail_self)
          then show ?thesis using t True ih by (simp add: well_formed_def)
        next
          case False
          then show ?thesis using t ih by (simp add: well_formed_def replacement_lossy)
        qed
      qed
    qed
  qed
qed

section \<open>Building well-formed texts\<close>

lemma well_formed_Nil [simp]: "well_formed []"
  by (simp add: well_formed_def utf8_lossy.simps [of "[]"])

text \<open>The first character of a well-formed text.\<close>

lemma well_formed_first:
  assumes "well_formed (c # r)"
  obtains (ascii) "(of_char c :: nat) < 0x80" "well_formed r"
    | (long) n lo hi k u where "\<not> (of_char c :: nat) < 0x80" "utf8_lead (of_char c) = Some (n, lo, hi)"
        "utf8_tail n lo hi k = k" "length k = n" "r = k @ u" "well_formed u"
proof (cases "(of_char c :: nat) < 0x80")
  case True
  then have "utf8_lossy (c # r) = c # utf8_lossy r" by (subst utf8_lossy.simps) simp
  then show thesis using assms ascii True by (simp add: well_formed_def)
next
  case big: False
  have EF: "utf8_lead (of_char CHR 0xEF) = Some (2, 0x80, 0xBF)" by (simp add: utf8_lead_def)
  have no: False if "c # r = replacement @ x" "utf8_lead (of_char c) = Some (n, lo, hi) \<Longrightarrow> length (utf8_tail n lo hi r) \<noteq> n"
      "utf8_lead (of_char c) = None \<or> utf8_lead (of_char c) = Some (n, lo, hi)" for x n lo hi
    using that EF by (auto simp: replacement_def eval_nat_numeral)
  show thesis
  proof (cases "utf8_lead (of_char c)")
    case None
    then have "utf8_lossy (c # r) = replacement @ utf8_lossy r" using big by (subst utf8_lossy.simps) simp
    then show thesis using no [of "utf8_lossy r"] assms None by (simp add: well_formed_def)
  next
    case (Some x)
    obtain n lo hi where x: "x = (n, lo, hi)" by (cases x)
    define k where "k = utf8_tail n lo hi r"
    have e: "utf8_lossy (c # r) = (if length k = n then c # k else replacement) @ utf8_lossy (drop (length k) r)"
      using big Some x by (subst utf8_lossy.simps) (simp add: k_def Let_def)
    have len: "length k = n"
    proof (rule ccontr)
      assume l: "length k \<noteq> n"
      then have "c # r = replacement @ utf8_lossy (drop (length k) r)" using e assms by (simp add: well_formed_def)
      then show False using no [of "utf8_lossy (drop (length k) r)" n lo hi] l Some x by (simp add: k_def)
    qed
    have r: "r = k @ drop (length k) r" using utf8_tail_take [of n lo hi r] by (metis append_take_drop_id k_def)
    have "c # r = c # k @ utf8_lossy (drop (length k) r)" using e len assms by (simp add: well_formed_def)
    then have "r = k @ utf8_lossy (drop (length k) r)" by simp
    with r have "k @ drop (length k) r = k @ utf8_lossy (drop (length k) r)" by (rule trans [OF sym])
    then have w: "well_formed (drop (length k) r)" by (simp only: same_append_eq well_formed_def)
    have l: "utf8_lead (of_char c) = Some (n, lo, hi)" "utf8_tail n lo hi k = k" by (simp_all add: Some x k_def utf8_tail_self)
    show thesis by (rule long [OF big l len r w])
  qed
qed

lemma lossy_append: "well_formed a \<Longrightarrow> utf8_lossy (a @ b) = a @ utf8_lossy b"
proof (induction a rule: length_induct)
  case (1 a)
  show ?case
  proof (cases a)
    case (Cons c r)
    from 1(2) [unfolded Cons] show ?thesis
    proof (cases rule: well_formed_first)
      case ascii
      have "utf8_lossy (c # r @ b) = c # utf8_lossy (r @ b)" using ascii(1) by (subst utf8_lossy.simps) simp
      then show ?thesis using 1(1) ascii(2) Cons by simp
    next
      case (long n lo hi k u)
      then show ?thesis using 1(1) [rule_format, of u] lead_step [OF long(1-4), of "u @ b"] Cons by simp
    qed
  qed simp
qed

lemma well_formed_append: "well_formed a \<Longrightarrow> well_formed b \<Longrightarrow> well_formed (a @ b)"
  using lossy_append [of a b] by (simp add: well_formed_def)

lemma well_formed_Cons: "(of_char c :: nat) < 0x80 \<Longrightarrow> well_formed b \<Longrightarrow> well_formed (c # b)"
  by (simp add: well_formed_def) (subst utf8_lossy.simps, simp)

lemma ascii_digits: "well_formed (decimal n)"
  using decimal_digits [of n] by (intro well_formed_ascii) (auto simp: list_all_iff is_digit_def)

lemma escape_ascii: "(of_char c :: nat) < 0x80 \<Longrightarrow> list_all (\<lambda>d. (of_char d :: nat) < 0x80) (json_escape c)"
proof -
  have "n < 16 \<Longrightarrow> (of_char (hex_of_nibble n) :: nat) < 0x80" for n
    by (drule all_nibbles) (auto simp: hex_of_nibble_def hex_digits_def)
  then show "(of_char c :: nat) < 0x80 \<Longrightarrow> list_all (\<lambda>d. (of_char d :: nat) < 0x80) (json_escape c)"
    by (auto simp: json_escape_def Let_def)
qed

lemma escape_high: "\<not> (of_char c :: nat) < 0x80 \<Longrightarrow> json_escape c = [c]"
  by (simp add: json_escape_def Let_def)

lemma tail_high: "utf8_lead b = Some (n, lo, hi) \<Longrightarrow> c \<in> set (utf8_tail n lo hi t) \<Longrightarrow> \<not> (of_char c :: nat) < 0x80"
proof -
  have "0x80 \<le> lo \<Longrightarrow> c \<in> set (utf8_tail n lo hi t) \<Longrightarrow> 0x80 \<le> (of_char c :: nat)"
    by (induction n lo hi t rule: utf8_tail.induct) (auto split: if_splits)
  moreover assume "utf8_lead b = Some (n, lo, hi)"
  then have "0x80 \<le> lo" by (auto simp: utf8_lead_def split: if_splits)
  ultimately show "c \<in> set (utf8_tail n lo hi t) \<Longrightarrow> \<not> (of_char c :: nat) < 0x80" by simp
qed

lemma well_formed_escapes: "well_formed s \<Longrightarrow> well_formed (concat (map json_escape s))"
proof (induction s rule: length_induct)
  case (1 s)
  show ?case
  proof (cases s)
    case (Cons c r)
    from 1(2) [unfolded Cons] show ?thesis
    proof (cases rule: well_formed_first)
      case ascii
      then show ?thesis using 1(1) Cons well_formed_ascii [OF escape_ascii [OF ascii(1)]] by (simp add: well_formed_append)
    next
      case (long n lo hi k u)
      have "d \<in> set k \<Longrightarrow> json_escape d = [d]" for d
        using tail_high [OF long(2), of d k] long(3) by (simp add: escape_high)
      then have k: "concat (map json_escape k) = k" by (induction k) auto
      have "well_formed (concat (map json_escape u))" using 1(1) long(5,6) Cons by simp
      then show ?thesis
        using lead_step [OF long(1-4)] long(5) escape_high [OF long(1)] k Cons by (simp add: well_formed_def)
    qed
  qed simp
qed

lemma well_formed_string: "well_formed s \<Longrightarrow> well_formed (json_string s)"
  by (auto simp: json_string_def intro!: well_formed_Cons well_formed_append well_formed_escapes)

text \<open>A value all of whose texts are well-formed is printed as a well-formed text.\<close>

fun json_wf :: "json \<Rightarrow> bool" where
  "json_wf (JStr s) = well_formed s"
| "json_wf (JFrac s) = well_formed s"
| "json_wf (JArr vs) = (\<forall>v \<in> set vs. json_wf v)"
| "json_wf (JObj ms) = (\<forall>m \<in> set ms. well_formed (fst m) \<and> json_wf (snd m))"
| "json_wf _ = True"

lemma well_formed_commas:
  "(of_char e :: nat) < 0x80 \<Longrightarrow> \<forall>x \<in> set xs. well_formed x \<Longrightarrow> well_formed (commas e xs)"
  by (induction e xs rule: commas.induct) (auto intro!: well_formed_append well_formed_Cons)

lemma well_formed_text: "json_wf v \<Longrightarrow> well_formed (json_text v)"
proof (induction v)
  case (JNum i)
  then show ?case by (auto simp: json_int_def ascii_digits intro: well_formed_Cons)
next
  case (JArr vs)
  then show ?case by (auto intro!: well_formed_Cons well_formed_commas)
next
  case (JObj ms)
  have "well_formed (json_string k @ CHR '':'' # json_text v)" if "(k, v) \<in> set ms" for k v
    using that JObj.prems JObj.IH [OF that, of v]
    by (auto intro!: well_formed_append well_formed_Cons well_formed_string simp: snds.simps)
  then show ?case by (auto intro!: well_formed_Cons well_formed_commas)
qed (auto intro: well_formed_ascii well_formed_string)

lemma hex_ascii: "list_all (\<lambda>c. (of_char c :: nat) < 0x80) (hex_of_bytes b)"
proof (induction b)
  case (Cons x b)
  have "n < 16 \<Longrightarrow> (of_char (hex_of_nibble n) :: nat) < 0x80" for n
    by (drule all_nibbles) (auto simp: hex_of_nibble_def hex_digits_def)
  then show ?case using Cons unat_byte_less [of x] by simp
qed simp

end
