(* ===== verification/ManifestJson.thy ===== *)
theory ManifestJson
  imports FileProtocol JsText
begin

text \<open>
  The manifest as a JSON value: \<open>encManifest\<close> prints it, and the MANIFEST branch of \<open>decode\<close> reads it back
  with \<open>JSON.parse\<close> of the decoded text. \<open>manifest_of_bytes\<close> is that reading. A value that has not the shape of
  a manifest (the fields of \<open>buildManifest\<close>, each with its type, chunks with exactly their three fields) is
  represented by the empty manifest, which \<open>verifyManifest\<close> refuses, as the code refuses \<open>null\<close>, other values
  that are no objects, and objects whose fields do not add up.
\<close>

definition chunk_value :: "chunk_info \<Rightarrow> json" where
  "chunk_value c =
     JObj [(''index'', JNum (int (ci_index c))), (''hash'', JStr (ci_hash c)), (''size'', JNum (ci_size c))]"

definition manifest_value :: "manifest \<Rightarrow> json" where
  "manifest_value m =
     JObj [(''file_id'', JStr (mf_file_id m)), (''filename'', JStr (mf_filename m)), (''size'', JNum (mf_size m)),
       (''chunk_size'', JNum (mf_chunk_size m)), (''nb_chunks'', JNum (int (mf_nb_chunks m))),
       (''chunks'', JArr (map chunk_value (mf_chunks m))), (''sender_id'', JStr (mf_sender_id m)),
       (''signature'', JStr (mf_signature m))]"

definition as_string :: "json option \<Rightarrow> string res" where
  "as_string v = (case v of Some (JStr s) \<Rightarrow> Inr s | _ \<Rightarrow> Inl TypeError)"

definition as_int :: "json option \<Rightarrow> int res" where
  "as_int v = (case v of Some (JNum i) \<Rightarrow> Inr i | _ \<Rightarrow> Inl TypeError)"

definition as_nat :: "json option \<Rightarrow> nat res" where
  "as_nat v = bind_res (as_int v) (\<lambda>i. if i < 0 then Inl TypeError else Inr (nat i))"

definition chunk_of_json :: "json \<Rightarrow> chunk_info res" where
  "chunk_of_json v =
     (case v of
        JObj [(k1, a), (k2, b), (k3, c)] \<Rightarrow>
          if (k1, k2, k3) = (''index'', ''hash'', ''size'')
          then bind_res (as_nat (Some a)) (\<lambda>i. bind_res (as_string (Some b)) (\<lambda>h. bind_res (as_int (Some c)) (\<lambda>s.
                 Inr \<lparr>ci_index = i, ci_hash = h, ci_size = s\<rparr>)))
          else Inl TypeError
      | _ \<Rightarrow> Inl TypeError)"

fun all_res :: "('a \<Rightarrow> 'b res) \<Rightarrow> 'a list \<Rightarrow> 'b list res" where
  "all_res f [] = Inr []"
| "all_res f (x # xs) = bind_res (f x) (\<lambda>y. bind_res (all_res f xs) (\<lambda>ys. Inr (y # ys)))"

definition chunks_of_json :: "json option \<Rightarrow> chunk_info list res" where
  "chunks_of_json v = (case v of Some (JArr vs) \<Rightarrow> all_res chunk_of_json vs | _ \<Rightarrow> Inl TypeError)"

definition manifest_of_json :: "json \<Rightarrow> manifest res" where
  "manifest_of_json v =
     bind_res (as_string (json_get v ''file_id'')) (\<lambda>id.
     bind_res (as_string (json_get v ''filename'')) (\<lambda>nm.
     bind_res (as_int (json_get v ''size'')) (\<lambda>sz.
     bind_res (as_int (json_get v ''chunk_size'')) (\<lambda>cs.
     bind_res (as_nat (json_get v ''nb_chunks'')) (\<lambda>nb.
     bind_res (chunks_of_json (json_get v ''chunks'')) (\<lambda>ch.
     bind_res (as_string (json_get v ''sender_id'')) (\<lambda>sn.
     bind_res (as_string (json_get v ''signature'')) (\<lambda>sg.
       Inr \<lparr>mf_file_id = id, mf_filename = nm, mf_size = sz, mf_chunk_size = cs, mf_nb_chunks = nb,
            mf_chunks = ch, mf_sender_id = sn, mf_signature = sg\<rparr>))))))))"

definition no_manifest :: manifest where
  "no_manifest = \<lparr>mf_file_id = [], mf_filename = [], mf_size = 0, mf_chunk_size = 0, mf_nb_chunks = 0,
     mf_chunks = [], mf_sender_id = [], mf_signature = []\<rparr>"

lemma no_manifest_refused: "\<not> verifyManifest C ks no_manifest"
  by (simp add: verifyManifest_def no_manifest_def)

definition manifest_of_bytes :: "bytes \<Rightarrow> manifest res" where
  "manifest_of_bytes b =
     bind_res (json_parse (buf_text b)) (\<lambda>v. Inr (case manifest_of_json v of Inl e \<Rightarrow> no_manifest | Inr m \<Rightarrow> m))"

section \<open>The text of a manifest is the text of its value\<close>

lemma json_list_commas: "json_list xs = commas CHR '']'' xs"
  by (induction xs rule: json_list.induct) simp_all

lemma chunk_json_text: "chunk_json c = json_text (chunk_value c)"
  by (simp add: chunk_json_def chunk_value_def)

lemma manifest_text_value: "manifest_text m = json_text (manifest_value m)"
proof -
  have b: "butlast (x @ [c]) = x" for x :: string and c by simp
  have "manifest_json m = butlast (manifest_json m) @ ''}''"
    by (simp add: manifest_json_def butlast_append)
  moreover have "butlast (manifest_json m) @ '','' @ x = json_text (manifest_value m)"
    if "x = json_string ''signature'' @ '':'' @ json_string (mf_signature m) @ ''}''" for x
    by (simp add: that manifest_json_def manifest_value_def butlast_append json_list_commas comp_def
        chunk_json_text [abs_def])
  ultimately show ?thesis by (simp add: manifest_text_def)
qed

lemma json_parse_text: "json_plain v \<Longrightarrow> json_parse (json_text v) = Inr v"
  using json_value_text [of v "json_fuel (json_text v)" "[]"]
  by (simp add: json_parse_def json_fuel_def skip_ws_def)

lemma plain_manifest: "json_plain (manifest_value m)"
  by (auto simp: manifest_value_def chunk_value_def)

lemma chunk_of_value: "chunk_of_json (chunk_value c) = Inr c"
  by (simp add: chunk_of_json_def chunk_value_def as_nat_def as_int_def as_string_def)

lemma all_chunks: "all_res chunk_of_json (map chunk_value cs) = Inr cs"
  by (induction cs) (simp_all add: chunk_of_value)

lemma manifest_of_value: "manifest_of_json (manifest_value m) = Inr m"
  by (simp add: manifest_of_json_def manifest_value_def as_nat_def as_int_def as_string_def chunks_of_json_def
      all_chunks jm_get_def)

text \<open>The manifests that text can carry: every string of theirs is well-formed.\<close>

definition manifest_wf :: "manifest \<Rightarrow> bool" where
  "manifest_wf m \<longleftrightarrow>
     well_formed (mf_file_id m) \<and> well_formed (mf_filename m) \<and> well_formed (mf_sender_id m) \<and>
     well_formed (mf_signature m) \<and> (\<forall>c \<in> set (mf_chunks m). well_formed (ci_hash c))"

lemma manifest_value_wf: "manifest_wf m \<Longrightarrow> json_wf (manifest_value m)"
  by (auto simp: manifest_wf_def manifest_value_def chunk_value_def intro!: well_formed_ascii)

lemma manifest_of_text: "manifest_wf m \<Longrightarrow> manifest_of_bytes (text_bytes (manifest_text m)) = Inr m"
  using well_formed_text [OF manifest_value_wf]
  by (simp add: manifest_of_bytes_def buf_text_bytes manifest_text_value json_parse_text plain_manifest manifest_of_value)

lemma msg_ok_manifest: "manifest_wf m \<Longrightarrow> msg_ok manifest_of_bytes (MManifest m)"
  by (simp add: manifest_of_text)

lemma decode_manifest: "manifest_wf m \<Longrightarrow> decode manifest_of_bytes (encManifest m) = Inr (MManifest m)"
  using decode_encode [OF msg_ok_manifest [of m]] by simp

text \<open>C39. Every message of the file protocol survives the wire, the JSON text of a manifest, its UTF-8 encoding
  and its parser written out: for a manifest whatever well-formed texts its fields contain (quotes, control
  characters, backslashes, accents), for the other messages whenever identifier, chunk number, hash and
  signature have the sizes of the layout, \<open>decode\<close> of what was encoded is the same message.\<close>

theorem file_wire_roundtrip:
  assumes "case m of MManifest mf \<Rightarrow> manifest_wf mf | _ \<Rightarrow> msg_ok manifest_of_bytes m"
  shows "\<exists>w. encode m = Inr w \<and> decode manifest_of_bytes w = Inr m"
  using assms msg_ok_manifest by (intro decode_encode) (cases m; simp)

lemma demo_manifest_wf: "manifest_wf demo_manifest"
  by (simp add: manifest_wf_def demo_manifest_def well_formed_ascii hex_ascii)

theorem file_wire_roundtrip_witness:
  "\<exists>w. encode (MManifest demo_manifest) = Inr w \<and> decode manifest_of_bytes w = Inr (MManifest demo_manifest)"
  by (rule file_wire_roundtrip) (simp add: demo_manifest_wf)

end
