(* ===== verification/Discovery.thy ===== *)
theory Discovery
  imports Keys Config ManifestJson
begin

text \<open>
  \<open>src/network/udpDiscovery.js\<close>: announcements over UDP multicast and the table of the peers heard. The
  state is the record \<open>discovery\<close>; a datagram is given with the address of its sender and the time of
  arrival. The fields of an announcement other than the node identifier are kept as they were sent, of
  whatever JSON type, or missing. Sockets, multicast membership and console output are left out.
\<close>

section \<open>State and operations\<close>

record dpeer =
  dp_address :: string
  dp_tcpPort :: "json option"
  dp_securePort :: "json option"
  dp_name :: "json option"
  dp_lastSeen :: time

record discovery =
  ds_selfId :: string
  ds_tcpPort :: "nat option"
  ds_securePort :: "nat option"
  ds_name :: string
  ds_peers :: "(string, dpeer) jsmap"
  ds_open :: bool

text \<open>\<open>startDiscovery\<close>: the arguments, a missing identifier being an error.\<close>

definition startDiscovery :: "bytes option \<Rightarrow> nat option \<Rightarrow> nat option \<Rightarrow> string \<Rightarrow> discovery res" where
  "startDiscovery nodeId tcpPort securePort name =
     (case nodeId of
        None \<Rightarrow> Inl (MissingArgument 0)
      | Some b \<Rightarrow>
          Inr \<lparr>ds_selfId = hex_of_bytes b, ds_tcpPort = tcpPort, ds_securePort = securePort, ds_name = name,
               ds_peers = [], ds_open = True\<rparr>)"

text \<open>\<open>announce\<close>: a property whose value is \<open>undefined\<close> is not printed.\<close>

definition port_member :: "string \<Rightarrow> nat option \<Rightarrow> (string \<times> json) list" where
  "port_member k p = (case p of None \<Rightarrow> [] | Some n \<Rightarrow> [(k, JNum (int n))])"

definition announcement :: "discovery \<Rightarrow> json" where
  "announcement d =
     JObj ([(''t'', JStr ''announce''), (''nodeId'', JStr (ds_selfId d))] @ port_member ''tcpPort'' (ds_tcpPort d) @
       port_member ''securePort'' (ds_securePort d) @ [(''name'', JStr (ds_name d))])"

definition announce :: "discovery \<Rightarrow> bytes" where
  "announce d = text_bytes (json_text (announcement d))"

text \<open>The handler of a datagram.\<close>

definition announced_id :: "bytes \<Rightarrow> (json \<times> string) option" where
  "announced_id raw =
     (case json_parse (buf_text raw) of
        Inl e \<Rightarrow> None
      | Inr m \<Rightarrow>
          if \<not> json_truthy m \<or> json_get m ''t'' \<noteq> Some (JStr ''announce'') then None
          else (case json_get m ''nodeId'' of Some (JStr i) \<Rightarrow> Some (m, i) | _ \<Rightarrow> None))"

definition disc_message :: "bytes \<Rightarrow> string \<Rightarrow> time \<Rightarrow> discovery \<Rightarrow> discovery" where
  "disc_message raw address now d =
     (case announced_id raw of
        None \<Rightarrow> d
      | Some (m, i) \<Rightarrow>
          if i = ds_selfId d then d
          else d\<lparr>ds_peers := jm_set (ds_peers d) i
                 \<lparr>dp_address = address, dp_tcpPort = json_get m ''tcpPort'',
                  dp_securePort = json_get m ''securePort'', dp_name = json_get m ''name'', dp_lastSeen = now\<rparr>\<rparr>)"

text \<open>The purge, and the table as the rest of the node reads it.\<close>

definition disc_prune :: "time \<Rightarrow> discovery \<Rightarrow> discovery" where
  "disc_prune now d = d\<lparr>ds_peers := jm_delete_if (\<lambda>i p. PEER_TTL_MS < now - dp_lastSeen p) (ds_peers d)\<rparr>"

definition getPeers :: "discovery \<Rightarrow> (string \<times> dpeer) list" where
  "getPeers d = ds_peers d"

definition disc_stop :: "discovery \<Rightarrow> discovery" where
  "disc_stop d = d\<lparr>ds_open := False\<rparr>"

text \<open>After \<open>stop\<close> the socket is closed and the timers are cleared.\<close>

datatype disc_event = Datagram bytes string time | PruneTick time | StopDiscovery

fun disc_step :: "discovery \<Rightarrow> disc_event \<Rightarrow> discovery" where
  "disc_step d (Datagram raw address now) = (if ds_open d then disc_message raw address now d else d)"
| "disc_step d (PruneTick now) = (if ds_open d then disc_prune now d else d)"
| "disc_step d StopDiscovery = disc_stop d"

section \<open>The invariant\<close>

definition disc_ok :: "discovery \<Rightarrow> bool" where
  "disc_ok d \<longleftrightarrow> jm_ok (ds_peers d) \<and> \<not> jm_has (ds_peers d) (ds_selfId d)"

lemma disc_ok_start: "startDiscovery n t s nm = Inr d \<Longrightarrow> disc_ok d"
  by (auto simp: startDiscovery_def disc_ok_def split: option.splits)

lemma disc_step_fields [simp]:
  "ds_selfId (disc_step d e) = ds_selfId d" "ds_tcpPort (disc_step d e) = ds_tcpPort d"
  "ds_securePort (disc_step d e) = ds_securePort d" "ds_name (disc_step d e) = ds_name d"
  by (cases e; simp add: disc_message_def disc_prune_def disc_stop_def split: option.splits)+

lemma prune_get:
  "jm_ok (ds_peers d) \<Longrightarrow> jm_get (ds_peers (disc_prune now d)) i =
     (case jm_get (ds_peers d) i of None \<Rightarrow> None | Some p \<Rightarrow> if PEER_TTL_MS < now - dp_lastSeen p then None else Some p)"
  by (simp add: disc_prune_def jm_get_delete_if)

lemma disc_ok_step: "disc_ok d \<Longrightarrow> disc_ok (disc_step d e)"
proof (cases e)
  case (Datagram raw a now)
  assume "disc_ok d"
  then show ?thesis unfolding Datagram
    by (auto simp: disc_ok_def disc_message_def jsm.ok_put split: option.splits)
next
  case (PruneTick now)
  assume d: "disc_ok d"
  have "jm_ok (ds_peers (disc_prune now d))" using d by (simp add: disc_ok_def disc_prune_def jm_ok_delete_if)
  moreover have "\<not> jm_has (ds_peers (disc_prune now d)) (ds_selfId d)"
    using d prune_get [of d now "ds_selfId d"] by (simp add: disc_ok_def jm_has_def)
  ultimately show ?thesis using d unfolding PruneTick
    by (simp add: disc_ok_def) (simp add: disc_prune_def)
qed (simp add: disc_ok_def disc_stop_def)

lemma disc_ok_run: "disc_ok d \<Longrightarrow> disc_ok (foldl disc_step d es)"
  by (induction es arbitrary: d) (simp_all add: disc_ok_step)

section \<open>What the table means\<close>

text \<open>
  The specification, one identifier at a time: what has been heard of \<open>i\<close>. It is the latest announcement
  that names \<open>i\<close>, unless a purge more than the time to live after it has come since.
\<close>

definition entry_of :: "json \<Rightarrow> string \<Rightarrow> time \<Rightarrow> dpeer" where
  "entry_of m address now =
     \<lparr>dp_address = address, dp_tcpPort = json_get m ''tcpPort'', dp_securePort = json_get m ''securePort'',
      dp_name = json_get m ''name'', dp_lastSeen = now\<rparr>"

fun names :: "string \<Rightarrow> disc_event \<Rightarrow> dpeer option" where
  "names i (Datagram raw address now) =
     (case announced_id raw of None \<Rightarrow> None | Some (m, j) \<Rightarrow> if j = i then Some (entry_of m address now) else None)"
| "names i _ = None"

fun expires :: "dpeer \<Rightarrow> disc_event \<Rightarrow> bool" where
  "expires p (PruneTick now) = (PEER_TTL_MS < now - dp_lastSeen p)"
| "expires p _ = False"

definition heard :: "string \<Rightarrow> disc_event list \<Rightarrow> dpeer \<Rightarrow> bool" where
  "heard i es p \<longleftrightarrow> (\<exists>as e bs. es = as @ e # bs \<and> names i e = Some p \<and>
     (\<forall>b \<in> set bs. names i b = None \<and> \<not> expires p b))"

lemma heard_snoc:
  "heard i (es @ [e]) p \<longleftrightarrow> names i e = Some p \<or> (names i e = None \<and> \<not> expires p e \<and> heard i es p)"
proof -
  have "heard i (es @ [e]) p \<longleftrightarrow> (\<exists>as x bs. es @ [e] = as @ x # bs \<and> names i x = Some p \<and>
     (\<forall>b \<in> set bs. names i b = None \<and> \<not> expires p b))" by (simp add: heard_def)
  also have "\<dots> \<longleftrightarrow> names i e = Some p \<or> (\<exists>as x bs. es = as @ x # bs \<and> names i x = Some p \<and>
     (\<forall>b \<in> set (bs @ [e]). names i b = None \<and> \<not> expires p b))"
    (is "?l \<longleftrightarrow> ?r")
  proof
    assume ?l
    then obtain as x bs where "es @ [e] = as @ x # bs" "names i x = Some p"
      "\<forall>b \<in> set bs. names i b = None \<and> \<not> expires p b" by blast
    then show ?r by (cases bs rule: rev_cases) auto
  next
    assume ?r
    then show ?l
    proof
      assume "names i e = Some p"
      then show ?l by (intro exI [of _ es] exI [of _ e] exI [of _ "[]"]) simp
    next
      assume "\<exists>as x bs. es = as @ x # bs \<and> names i x = Some p \<and> (\<forall>b \<in> set (bs @ [e]). names i b = None \<and> \<not> expires p b)"
      then obtain as x bs where "es = as @ x # bs" "names i x = Some p"
        "\<forall>b \<in> set (bs @ [e]). names i b = None \<and> \<not> expires p b" by blast
      then show ?l by (intro exI [of _ as] exI [of _ x] exI [of _ "bs @ [e]"]) simp
    qed
  qed
  finally show ?thesis unfolding heard_def by simp blast
qed

lemma step_heard:
  assumes "disc_ok d" and "ds_open d" and "e \<noteq> StopDiscovery" and "i \<noteq> ds_selfId d"
  shows "jm_get (ds_peers (disc_step d e)) i =
    (case names i e of Some p \<Rightarrow> Some p
     | None \<Rightarrow> (case jm_get (ds_peers d) i of None \<Rightarrow> None | Some p \<Rightarrow> if expires p e then None else Some p))"
proof (cases e)
  case (Datagram raw a now)
  then show ?thesis using assms
    by (auto simp: disc_message_def entry_of_def split: option.splits)
next
  case (PruneTick now)
  have "jm_ok (ds_peers d)" using assms(1) by (simp add: disc_ok_def)
  from prune_get [OF this, of now i] show ?thesis using PruneTick assms(2) by (simp cong: option.case_cong if_cong)
qed (use assms(3) in simp)

lemma disc_open_run: "StopDiscovery \<notin> set es \<Longrightarrow> ds_open d \<Longrightarrow> ds_open (foldl disc_step d es)"
proof (induction es arbitrary: d)
  case (Cons e es)
  then have "ds_open (disc_step d e)"
    by (cases e) (auto simp: disc_message_def disc_prune_def split: option.splits)
  then show ?case using Cons by simp
qed simp

lemma disc_self_run [simp]: "ds_selfId (foldl disc_step d es) = ds_selfId d"
  by (induction es arbitrary: d) simp_all

lemma run_heard:
  assumes "startDiscovery n t s nm = Inr d" and "StopDiscovery \<notin> set es" and "i \<noteq> ds_selfId d"
  shows "jm_get (ds_peers (foldl disc_step d es)) i = Some p \<longleftrightarrow> heard i es p"
  using assms(2)
proof (induction es arbitrary: p rule: rev_induct)
  case Nil
  have "ds_peers d = []" using assms(1) by (auto simp: startDiscovery_def split: option.splits)
  then show ?case by (simp add: heard_def)
next
  case (snoc e es)
  let ?d = "foldl disc_step d es"
  have ok: "disc_ok ?d" by (rule disc_ok_run [OF disc_ok_start [OF assms(1)]])
  have "ds_open d" using assms(1) by (auto simp: startDiscovery_def split: option.splits)
  then have op: "ds_open ?d" using snoc.prems by (intro disc_open_run) auto
  have "jm_get (ds_peers (disc_step ?d e)) i = Some p \<longleftrightarrow>
      names i e = Some p \<or> (names i e = None \<and> \<not> expires p e \<and> jm_get (ds_peers ?d) i = Some p)"
    using step_heard [OF ok op, of e i] snoc.prems assms(3) by (auto split: option.splits if_splits)
  then show ?case using snoc by (simp add: heard_snoc)
qed

lemma get_in: "jm_ok m \<Longrightarrow> (k, v) \<in> set m \<longleftrightarrow> jm_get m k = Some v"
  by (simp add: jm_ok_def jm_keys_def jm_get_def)

section \<open>Properties\<close>

text \<open>C36. The table of peers is what has been heard: after any sequence of datagrams (of any content) and
  purges, it has one entry per identifier and none for the node itself, and it lists \<open>p\<close> for \<open>i\<close> exactly
  when \<open>p\<close> is the latest announcement naming \<open>i\<close> and no purge found it older than the time to live.\<close>

theorem discovery_table:
  assumes "startDiscovery nodeId tcp sec nm = Inr d" and "StopDiscovery \<notin> set es"
  shows "distinct (map fst (getPeers (foldl disc_step d es))) \<and>
    (\<forall>p. (ds_selfId d, p) \<notin> set (getPeers (foldl disc_step d es))) \<and>
    (\<forall>i p. i \<noteq> ds_selfId d \<longrightarrow> ((i, p) \<in> set (getPeers (foldl disc_step d es)) \<longleftrightarrow> heard i es p))"
proof -
  have ok: "disc_ok (foldl disc_step d es)" by (rule disc_ok_run [OF disc_ok_start [OF assms(1)]])
  then have j: "jm_ok (ds_peers (foldl disc_step d es))" by (simp add: disc_ok_def)
  show ?thesis
    using ok run_heard [OF assms] unfolding getPeers_def get_in [OF j]
    by (auto simp: disc_ok_def jm_ok_def jm_keys_def jm_has_def)
qed

text \<open>C37. Two nodes find each other: the datagram a node announces is understood by every other node, which
  lists it from then on under its identifier with the sender's address and the announced ports (and name, a well-formed text), and still
  does after any purges that come within the time to live.\<close>

theorem peer_discovered:
  assumes "startDiscovery (Some a) tcp sec nm = Inr A" and "startDiscovery (Some b) tcp' sec' nm' = Inr B0"
    and "a \<noteq> b" and "StopDiscovery \<notin> set es" and "B = foldl disc_step B0 es" and "well_formed nm"
    and "\<forall>e \<in> set later. \<exists>t. e = PruneTick t \<and> t \<le> now + PEER_TTL_MS"
  shows "\<exists>p. (hex_of_bytes a, p) \<in> set (getPeers (foldl disc_step (disc_message (announce A) addr now B) later)) \<and>
    dp_address p = addr \<and> dp_lastSeen p = now \<and> dp_securePort p = map_option (\<lambda>n. JNum (int n)) sec \<and>
    dp_tcpPort p = map_option (\<lambda>n. JNum (int n)) tcp \<and> dp_name p = Some (JStr nm)"
proof -
  have A: "ds_selfId A = hex_of_bytes a" "ds_tcpPort A = tcp" "ds_securePort A = sec" "ds_name A = nm"
    using assms(1) by (auto simp: startDiscovery_def)
  have "json_wf (announcement A)"
    using assms(6) by (cases tcp; cases sec; simp add: announcement_def port_member_def A well_formed_ascii hex_ascii)
  then have wf: "well_formed (json_text (announcement A))" by (rule well_formed_text)
  have m: "json_parse (buf_text (announce A)) = Inr (announcement A)"
    unfolding announce_def buf_text_bytes [OF wf]
    by (rule json_parse_text) (cases "ds_tcpPort A"; cases "ds_securePort A"; simp add: announcement_def port_member_def)
  have g: "json_get (announcement A) ''t'' = Some (JStr ''announce'')"
    "json_get (announcement A) ''nodeId'' = Some (JStr (hex_of_bytes a))"
    "json_get (announcement A) ''tcpPort'' = map_option (\<lambda>n. JNum (int n)) tcp"
    "json_get (announcement A) ''securePort'' = map_option (\<lambda>n. JNum (int n)) sec"
    "json_get (announcement A) ''name'' = Some (JStr nm)"
    by (cases tcp; cases sec; simp add: announcement_def port_member_def jm_get_def A)+
  have t: "json_truthy (announcement A)" by (simp add: announcement_def)
  define p where "p = entry_of (announcement A) addr now"
  let ?e = "Datagram (announce A) addr now"
  have id: "announced_id (announce A) = Some (announcement A, hex_of_bytes a)"
    using m g t by (simp add: announced_id_def)
  have n: "names (hex_of_bytes a) ?e = Some p" by (simp add: id p_def)
  have "\<forall>e \<in> set later. names (hex_of_bytes a) e = None \<and> \<not> expires p e"
    using assms(7) by (fastforce simp: p_def entry_of_def)
  then have h: "heard (hex_of_bytes a) (es @ ?e # later) p"
    unfolding heard_def using n by (intro exI [of _ es] exI [of _ ?e] exI [of _ later]) simp
  have ns: "StopDiscovery \<notin> set (es @ ?e # later)" using assms(4,7) by auto
  have self: "ds_selfId B0 = hex_of_bytes b" "ds_open B0" using assms(2) by (auto simp: startDiscovery_def)
  have "foldl disc_step B0 (es @ ?e # later) = foldl disc_step (disc_message (announce A) addr now B) later"
    using disc_open_run [OF assms(4) self(2)] assms(5) by simp
  moreover have "disc_ok (foldl disc_step B0 (es @ ?e # later))" by (rule disc_ok_run [OF disc_ok_start [OF assms(2)]])
  moreover have "hex_of_bytes a \<noteq> ds_selfId B0" using assms(3) by (simp add: self hex_of_bytes_inj)
  ultimately have "(hex_of_bytes a, p) \<in> set (getPeers (foldl disc_step (disc_message (announce A) addr now B) later))"
    using run_heard [OF assms(2) ns] h get_in unfolding getPeers_def disc_ok_def by metis
  then show ?thesis by (intro exI [of _ p]) (simp add: p_def entry_of_def g)
qed

definition demo_node_disc :: "byte \<Rightarrow> discovery" where
  "demo_node_disc x = \<lparr>ds_selfId = hex_of_bytes [x], ds_tcpPort = Some 7777, ds_securePort = Some 7778,
     ds_name = ''n'', ds_peers = [], ds_open = True\<rparr>"

theorem discovery_table_witness:
  "distinct (map fst (getPeers (foldl disc_step (demo_node_disc 1) [Datagram [0x7B] ''h'' 5, PruneTick 9])))"
  using discovery_table [of "Some [1]" "Some 7777" "Some 7778" "''n''" "demo_node_disc 1" "[Datagram [0x7B] ''h'' 5, PruneTick 9]"]
  by (simp add: startDiscovery_def demo_node_disc_def)

theorem peer_discovered_witness:
  "\<exists>p. (hex_of_bytes [1], p) \<in> set (getPeers (foldl disc_step
      (disc_message (announce (demo_node_disc 1)) ''10.0.0.1'' 0 (demo_node_disc 2)) [PruneTick 15000])) \<and>
    dp_address p = ''10.0.0.1'' \<and> dp_securePort p = Some (JNum 7778)"
  using peer_discovered [of "[1]" "Some 7777" "Some 7778" "''n''" "demo_node_disc 1" "[2]" "Some 7777" "Some 7778" "''n''"
      "demo_node_disc 2" "[]" "demo_node_disc 2" "[PruneTick 15000]" 0 "''10.0.0.1''"]
  by (auto simp: startDiscovery_def demo_node_disc_def PEER_TTL_MS_def well_formed_ascii)



end
