(* ===== verification/PeerManager.thy ===== *)
theory PeerManager
  imports Discovery
begin

text \<open>
  \<open>src/session/peerManager.js\<close>: opening sessions to the peers that discovery lists. Connections are numbered
  in the order in which they are opened; the callbacks of a connection know the peer it was opened for
  (\<open>pm_owner\<close>, the variable \<open>peer\<close> that they capture). \<open>net port host\<close> is the outcome of \<open>net.connect\<close>, which
  throws for arguments it does not accept. The identity that the handshake has authenticated is an argument
  of the callback's model because the code has it at hand; the callback does not read it.
\<close>

section \<open>State and operations\<close>

datatype pm_effect = PDial nat string json string | POnSession nat string | PCloseConn nat

record peer_manager =
  pm_selfId :: string
  pm_sessions :: "(string, nat) jsmap"
  pm_dialing :: "string list"
  pm_timer :: bool
  pm_handler :: bool
  pm_next :: nat
  pm_owner :: "nat \<Rightarrow> string"
  pm_out :: "pm_effect list"

type_synonym net = "json \<Rightarrow> string \<Rightarrow> unit res"

definition new_peer_manager :: "bytes option \<Rightarrow> bool \<Rightarrow> bool \<Rightarrow> peer_manager res" where
  "new_peer_manager selfId hasDiscovery handler =
     (case selfId of
        None \<Rightarrow> Inl (MissingArgument 1)
      | Some b \<Rightarrow>
          if \<not> hasDiscovery then Inl (MissingArgument 2)
          else Inr \<lparr>pm_selfId = hex_of_bytes b, pm_sessions = [], pm_dialing = [], pm_timer = False,
                    pm_handler = handler, pm_next = 0, pm_owner = (\<lambda>h. ''''), pm_out = []\<rparr>)"

definition pm_dial :: "net \<Rightarrow> string \<times> dpeer \<Rightarrow> peer_manager \<Rightarrow> unit res \<times> peer_manager" where
  "pm_dial net peer s =
     (case peer of (i, p) \<Rightarrow>
        (let s = s\<lparr>pm_dialing := (if i \<in> set (pm_dialing s) then pm_dialing s else pm_dialing s @ [i])\<rparr> in
         case dp_securePort p of
           None \<Rightarrow> (Inl TypeError, s)
         | Some port \<Rightarrow>
             (case net port (dp_address p) of
                Inl e \<Rightarrow> (Inl e, s)
              | Inr _ \<Rightarrow>
                  (Inr (), s\<lparr>pm_next := pm_next s + 1, pm_owner := (pm_owner s)(pm_next s := i),
                             pm_out := pm_out s @ [PDial (pm_next s) i port (dp_address p)]\<rparr>))))"

definition pm_wants :: "peer_manager \<Rightarrow> string \<times> dpeer \<Rightarrow> bool" where
  "pm_wants s peer =
     (case peer of (i, p) \<Rightarrow>
        \<not> (case dp_securePort p of None \<Rightarrow> True | Some v \<Rightarrow> \<not> json_truthy v) \<and>
        i \<noteq> pm_selfId s \<and> \<not> jm_has (pm_sessions s) i \<and> i \<notin> set (pm_dialing s))"

fun pm_tick :: "net \<Rightarrow> (string \<times> dpeer) list \<Rightarrow> peer_manager \<Rightarrow> unit res \<times> peer_manager" where
  "pm_tick net [] s = (Inr (), s)"
| "pm_tick net (peer # peers) s =
     (if \<not> pm_wants s peer then pm_tick net peers s
      else case pm_dial net peer s of
             (Inl e, s) \<Rightarrow> (Inl e, s)
           | (Inr _, s) \<Rightarrow> pm_tick net peers s)"

definition pm_start :: "net \<Rightarrow> (string \<times> dpeer) list \<Rightarrow> peer_manager \<Rightarrow> unit res \<times> peer_manager" where
  "pm_start net peers s = pm_tick net peers (s\<lparr>pm_timer := True\<rparr>)"

definition pm_not_dialing :: "string \<Rightarrow> peer_manager \<Rightarrow> peer_manager" where
  "pm_not_dialing i s = s\<lparr>pm_dialing := filter (\<lambda>j. j \<noteq> i) (pm_dialing s)\<rparr>"

definition pm_onSecure :: "nat \<Rightarrow> bytes \<Rightarrow> peer_manager \<Rightarrow> peer_manager" where
  "pm_onSecure h peerId s =
     (let i = pm_owner s h; s = pm_not_dialing i s; s = s\<lparr>pm_sessions := jm_set (pm_sessions s) i h\<rparr> in
      if pm_handler s then s\<lparr>pm_out := pm_out s @ [POnSession h i]\<rparr> else s)"

definition pm_onError :: "nat \<Rightarrow> peer_manager \<Rightarrow> peer_manager" where
  "pm_onError h s = pm_not_dialing (pm_owner s h) s"

definition pm_onClose :: "nat \<Rightarrow> peer_manager \<Rightarrow> peer_manager" where
  "pm_onClose h s =
     (let i = pm_owner s h; s = pm_not_dialing i s in s\<lparr>pm_sessions := jm_delete (pm_sessions s) i\<rparr>)"

definition activeCount :: "peer_manager \<Rightarrow> nat" where
  "activeCount s = jm_size (pm_sessions s)"

definition pm_stop :: "peer_manager \<Rightarrow> peer_manager" where
  "pm_stop s =
     s\<lparr>pm_timer := False, pm_out := pm_out s @ map (\<lambda>(i, h). PCloseConn h) (pm_sessions s), pm_sessions := []\<rparr>"

section \<open>The manager among its connections\<close>

text \<open>
  What a connection does: it becomes secure at most once and before any error, it reports at most one
  error, and it closes at the end. \<open>Failed\<close> is the time between its error and its close event.
\<close>

datatype phase = Dialing | Up | Failed | Gone

record pm_system =
  sy_pm :: peer_manager
  sy_phase :: "nat \<Rightarrow> phase"

definition sy_open :: "pm_system \<Rightarrow> nat \<Rightarrow> bool" where
  "sy_open S h \<longleftrightarrow> h < pm_next (sy_pm S) \<and> sy_phase S h \<noteq> Gone"

inductive pm_step :: "net \<Rightarrow> pm_system \<Rightarrow> pm_system \<Rightarrow> bool" for net where
  Tick: "pm_timer (sy_pm S) \<Longrightarrow> \<forall>h. sy_open S h \<longrightarrow> sy_phase S h \<noteq> Failed \<Longrightarrow> distinct (map fst peers) \<Longrightarrow>
    pm_tick net peers (sy_pm S) = (r, s) \<Longrightarrow> pm_step net S (S\<lparr>sy_pm := s\<rparr>)"
| Secure: "h < pm_next (sy_pm S) \<Longrightarrow> sy_phase S h = Dialing \<Longrightarrow>
    pm_step net S (S\<lparr>sy_pm := pm_onSecure h peerId (sy_pm S), sy_phase := (sy_phase S)(h := Up)\<rparr>)"
| Error: "h < pm_next (sy_pm S) \<Longrightarrow> sy_phase S h \<in> {Dialing, Up} \<Longrightarrow>
    pm_step net S (S\<lparr>sy_pm := pm_onError h (sy_pm S), sy_phase := (sy_phase S)(h := Failed)\<rparr>)"
| Close: "sy_open S h \<Longrightarrow>
    pm_step net S (S\<lparr>sy_pm := pm_onClose h (sy_pm S), sy_phase := (sy_phase S)(h := Gone)\<rparr>)"
| Stop: "pm_step net S (S\<lparr>sy_pm := pm_stop (sy_pm S)\<rparr>)"

inductive pm_reach :: "net \<Rightarrow> pm_system \<Rightarrow> bool" for net where
  Start: "new_peer_manager (Some b) True handler = Inr s \<Longrightarrow>
    pm_reach net \<lparr>sy_pm = s\<lparr>pm_timer := True\<rparr>, sy_phase = (\<lambda>h. Dialing)\<rparr>"
| Step: "pm_reach net S \<Longrightarrow> pm_step net S S' \<Longrightarrow> pm_reach net S'"

text \<open>One dial keeps this; the phase of a connection that is still to come is \<open>Dialing\<close>.\<close>

definition sys_inv :: "pm_system \<Rightarrow> bool" where
  "sys_inv S \<longleftrightarrow> (let s = sy_pm S; ph = sy_phase S; N = pm_next s; own = pm_owner s in
     jm_ok (pm_sessions s) \<and> (\<forall>h \<ge> N. ph h = Dialing) \<and>
     (\<forall>h. sy_open S h \<longrightarrow> own h \<noteq> pm_selfId s) \<and>
     (\<forall>h k. sy_open S h \<longrightarrow> sy_open S k \<longrightarrow> own h = own k \<longrightarrow> h = k) \<and>
     (\<forall>i h. jm_get (pm_sessions s) i = Some h \<longrightarrow> sy_open S h \<and> own h = i \<and> ph h \<in> {Up, Failed}) \<and>
     (pm_timer s \<longrightarrow> (\<forall>h. sy_open S h \<longrightarrow>
        (ph h = Dialing \<longrightarrow> own h \<in> set (pm_dialing s)) \<and> (ph h = Up \<longrightarrow> jm_get (pm_sessions s) (own h) = Some h))))"

lemmas pm_defs = pm_onSecure_def pm_onError_def pm_onClose_def pm_stop_def pm_not_dialing_def Let_def

lemma inv_dial:
  assumes "sys_inv S" and "pm_timer (sy_pm S)" and "\<forall>h. sy_open S h \<longrightarrow> sy_phase S h \<noteq> Failed"
    and "pm_wants (sy_pm S) (i, p)" and "pm_dial net (i, p) (sy_pm S) = (r, s)"
  shows "sys_inv (S\<lparr>sy_pm := s\<rparr>) \<and> pm_timer s \<and> (\<forall>h. sy_open (S\<lparr>sy_pm := s\<rparr>) h \<longrightarrow> sy_phase S h \<noteq> Failed)"
proof -
  let ?s = "sy_pm S"
  have i: "i \<noteq> pm_selfId ?s" "jm_get (pm_sessions ?s) i = None" "i \<notin> set (pm_dialing ?s)"
    using assms(4) by (simp_all add: pm_wants_def jm_has_def)
  have fresh: "pm_owner ?s h \<noteq> i" if "sy_open S h" for h
  proof -
    have "sy_phase S h = Dialing \<or> sy_phase S h = Up"
      using that assms(3) by (cases "sy_phase S h") (auto simp: sy_open_def)
    then show ?thesis using assms(1,2) i that by (auto simp: sys_inv_def Let_def)
  qed
  let ?d = "?s\<lparr>pm_dialing := pm_dialing ?s @ [i]\<rparr>"
  consider "s = ?d" | port where "s = ?d\<lparr>pm_next := pm_next ?s + 1, pm_owner := (pm_owner ?s)(pm_next ?s := i),
      pm_out := pm_out ?s @ [PDial (pm_next ?s) i port (dp_address p)]\<rparr>"
    using assms(5) i(3) by (auto simp: pm_dial_def Let_def split: option.splits sum.splits)
  then show ?thesis
  proof cases
    case 1
    have o: "sy_open (S\<lparr>sy_pm := s\<rparr>) h = sy_open S h" for h by (simp add: sy_open_def 1)
    show ?thesis using assms(1-3) unfolding sys_inv_def Let_def o by (auto simp: 1) metis
  next
    case 2
    have ph: "sy_phase S (pm_next ?s) = Dialing" using assms(1) by (simp add: sys_inv_def Let_def)
    have o: "sy_open (S\<lparr>sy_pm := s\<rparr>) h \<longleftrightarrow> sy_open S h \<or> h = pm_next ?s" for h
      using ph by (auto simp: sy_open_def 2)
    have n: "\<not> sy_open S (pm_next ?s)" by (simp add: sy_open_def)
    show ?thesis using assms(1-3) i fresh n ph unfolding sys_inv_def Let_def o by (auto simp: 2) metis
  qed
qed

lemma inv_tick:
  assumes "sys_inv S" and "pm_timer (sy_pm S)" and "\<forall>h. sy_open S h \<longrightarrow> sy_phase S h \<noteq> Failed"
    and "pm_tick net peers (sy_pm S) = (r, s)"
  shows "sys_inv (S\<lparr>sy_pm := s\<rparr>)"
  using assms
proof (induction peers arbitrary: S)
  case Nil
  have "S\<lparr>sy_pm := sy_pm S\<rparr> = S" by (cases S) simp
  moreover have "s = sy_pm S" using Nil(4) by simp
  ultimately show ?case using Nil(1) by simp
next
  case (Cons q qs)
  obtain i p where q: "q = (i, p)" by (cases q)
  show ?case
  proof (cases "pm_wants (sy_pm S) q")
    case True
    obtain r' s' where d: "pm_dial net q (sy_pm S) = (r', s')" by (cases "pm_dial net q (sy_pm S)")
    have n: "sys_inv (S\<lparr>sy_pm := s'\<rparr>)" "pm_timer s'" "\<forall>h. sy_open (S\<lparr>sy_pm := s'\<rparr>) h \<longrightarrow> sy_phase S h \<noteq> Failed"
      using inv_dial [OF Cons.prems(1-3)] True d q by blast+
    show ?thesis
    proof (cases r')
      case (Inl e)
      then show ?thesis using Cons.prems(4) True d n(1) by simp
    next
      case (Inr u)
      then have "pm_tick net qs s' = (r, s)" using Cons.prems(4) True d by simp
      then show ?thesis using Cons.IH [of "S\<lparr>sy_pm := s'\<rparr>"] n by simp
    qed
  qed (use Cons in simp)
qed

lemma inv_step: "pm_step net S S' \<Longrightarrow> sys_inv S \<Longrightarrow> sys_inv S'"
proof (induction rule: pm_step.induct)
  case (Tick S peers r s)
  then show ?case using inv_tick by blast
next
  case (Secure h S peerId)
  let ?s = "sy_pm S"
  let ?S = "S\<lparr>sy_pm := pm_onSecure h peerId ?s, sy_phase := (sy_phase S)(h := Up)\<rparr>"
  have o: "sy_open ?S k = sy_open S k" for k
    using Secure by (auto simp: sy_open_def pm_defs)
  have h: "sy_open S h" using Secure by (simp add: sy_open_def)
  show ?case using Secure h unfolding sys_inv_def Let_def o
    by (auto simp: pm_defs jsm.ok_put)
next
  case (Error h S)
  let ?S = "S\<lparr>sy_pm := pm_onError h (sy_pm S), sy_phase := (sy_phase S)(h := Failed)\<rparr>"
  have o: "sy_open ?S k = sy_open S k" for k using Error by (auto simp: sy_open_def pm_defs)
  have h: "sy_open S h" using Error by (auto simp: sy_open_def)
  show ?case using Error h unfolding sys_inv_def Let_def o by (auto simp: pm_defs)
next
  case (Close S h)
  let ?S = "S\<lparr>sy_pm := pm_onClose h (sy_pm S), sy_phase := (sy_phase S)(h := Gone)\<rparr>"
  have o: "sy_open ?S k \<longleftrightarrow> sy_open S k \<and> k \<noteq> h" for k using Close by (auto simp: sy_open_def pm_defs)
  show ?case using Close unfolding sys_inv_def Let_def o by (auto simp: pm_defs jsm.ok_del sy_open_def)
next
  case (Stop S)
  have o: "sy_open (S\<lparr>sy_pm := pm_stop (sy_pm S)\<rparr>) k = sy_open S k" for k by (simp add: sy_open_def pm_stop_def)
  show ?case using Stop unfolding sys_inv_def Let_def o by (auto simp: pm_stop_def)
qed

lemma inv_start: "new_peer_manager (Some b) True handler = Inr s \<Longrightarrow>
    sys_inv \<lparr>sy_pm = s\<lparr>pm_timer := True\<rparr>, sy_phase = (\<lambda>h. Dialing)\<rparr>"
  by (auto simp: new_peer_manager_def sys_inv_def sy_open_def)

lemma inv_reach: "pm_reach net S \<Longrightarrow> sys_inv S"
  by (induction rule: pm_reach.induct) (auto intro: inv_start inv_step)

section \<open>What a tick does\<close>

fun dialled :: "pm_effect list \<Rightarrow> (string \<times> string) list" where
  "dialled [] = []"
| "dialled (PDial h i port a # es) = (i, a) # dialled es"
| "dialled (e # es) = dialled es"

lemma dialled_append [simp]: "dialled (es @ fs) = dialled es @ dialled fs"
  by (induction es rule: dialled.induct) simp_all

lemma dialled_in: "PDial h i port a \<in> set es \<Longrightarrow> (i, a) \<in> set (dialled es)"
  by (induction es rule: dialled.induct) auto

abbreviation target :: "string \<times> dpeer \<Rightarrow> string \<times> string" where
  "target \<equiv> \<lambda>(i, p). (i, dp_address p)"

lemma dial_effect:
  assumes "pm_dial net (i, p) s = (r, s')"
  shows "pm_sessions s' = pm_sessions s \<and> pm_selfId s' = pm_selfId s \<and> pm_timer s' = pm_timer s \<and>
    set (pm_dialing s') = insert i (set (pm_dialing s)) \<and>
    (\<exists>es. pm_out s' = pm_out s @ es \<and> dialled es = (if r = Inr () then [(i, dp_address p)] else []))"
  using assms by (auto simp: pm_dial_def Let_def split: option.splits sum.splits if_splits)

lemma tick_effect:
  assumes "distinct (map fst peers)" and "pm_tick net peers s = (r, s')"
  shows "pm_sessions s' = pm_sessions s \<and> pm_selfId s' = pm_selfId s \<and> set (pm_dialing s) \<subseteq> set (pm_dialing s') \<and>
    (\<exists>es fs. pm_out s' = pm_out s @ es \<and> map target (filter (pm_wants s) peers) = dialled es @ fs \<and>
      (r = Inr () \<longrightarrow> fs = []))"
  using assms
proof (induction peers arbitrary: s)
  case (Cons q qs)
  obtain i p where q: "q = (i, p)" by (cases q)
  show ?case
  proof (cases "pm_wants s q")
    case False
    then show ?thesis using Cons by simp
  next
    case True
    obtain r1 s1 where d: "pm_dial net q s = (r1, s1)" by (cases "pm_dial net q s")
    obtain es where e: "pm_sessions s1 = pm_sessions s" "pm_selfId s1 = pm_selfId s"
      "set (pm_dialing s1) = insert i (set (pm_dialing s))" "pm_out s1 = pm_out s @ es"
      "dialled es = (if r1 = Inr () then [(i, dp_address p)] else [])"
      using dial_effect d q by blast
    have w: "filter (pm_wants s1) qs = filter (pm_wants s) qs"
      using Cons.prems(1) e(1-3) q by (intro filter_cong) (auto simp: pm_wants_def image_iff)
    show ?thesis
    proof (cases r1)
      case (Inl x)
      then have "s' = s1 \<and> r = Inl x" using Cons.prems(2) True d by simp
      then show ?thesis using e Inl by auto
    next
      case (Inr u)
      then have t: "pm_tick net qs s1 = (r, s')" using Cons.prems(2) True d by simp
      obtain es' fs where "pm_out s' = pm_out s1 @ es'" "map target (filter (pm_wants s1) qs) = dialled es' @ fs"
        "r = Inr () \<longrightarrow> fs = []" "pm_sessions s' = pm_sessions s1" "pm_selfId s' = pm_selfId s1"
        "set (pm_dialing s1) \<subseteq> set (pm_dialing s')"
        using Cons.IH [OF _ t] Cons.prems(1) by auto
      then show ?thesis using e Inr True q w
        by (intro conjI exI [of _ "es @ es'"] exI [of _ fs]) auto
    qed
  qed
qed simp

lemma tick_throws:
  assumes "distinct (map fst peers)" and "(i, p) \<in> set peers" and "pm_wants s (i, p)"
    and "dp_securePort p = Some v" and "net v (dp_address p) = Inl x"
  shows "\<exists>e. fst (pm_tick net peers s) = Inl e"
  using assms
proof (induction peers arbitrary: s)
  case (Cons q qs)
  show ?case
  proof (cases "q = (i, p)")
    case True
    then show ?thesis using Cons.prems(3-5) by (auto simp: pm_dial_def Let_def)
  next
    case False
    then have m: "(i, p) \<in> set qs" "fst q \<noteq> i" using Cons.prems(1,2) by (auto simp: rev_image_eqI)
    obtain j p' where q: "q = (j, p')" by (cases q)
    obtain r1 s1 where d: "pm_dial net q s = (r1, s1)" by (cases "pm_dial net q s")
    have "pm_wants s1 (i, p)" using dial_effect [OF d [unfolded q]] Cons.prems(3) m(2) q by (auto simp: pm_wants_def)
    then show ?thesis using Cons.IH [of s] Cons.IH [of s1] Cons.prems m d by (cases r1) auto
  qed
qed simp

section \<open>Properties\<close>


text \<open>Whom a tick calls: on a list with one entry per identifier it dials, in the order of the list, exactly
  the peers that announced a usable port, are not the node itself and have neither a session nor a dial in
  progress, unless opening a socket throws; then the rest of the list is not dialled.\<close>

theorem tick_dials:
  assumes "distinct (map fst peers)" and "pm_tick net peers s = (r, s')"
  shows "pm_sessions s' = pm_sessions s \<and>
    (\<exists>es fs. pm_out s' = pm_out s @ es \<and> map target (filter (pm_wants s) peers) = dialled es @ fs \<and>
      (r = Inr () \<longrightarrow> fs = [])) \<and>
    (\<forall>e. r = Inl e \<longrightarrow> (\<exists>(i, p) \<in> set peers. pm_wants s (i, p)))"
proof -
  have "r = Inr () \<or> filter (pm_wants s) peers \<noteq> []"
  proof (rule ccontr)
    assume a: "\<not> ?thesis"
    then have "\<forall>q \<in> set peers. \<not> pm_wants s q" by (simp add: filter_empty_conv)
    then have "pm_tick net peers s = (Inr (), s)" by (induction peers) simp_all
    then show False using a assms(2) by simp
  qed
  then show ?thesis using tick_effect [OF assms] by (auto simp: filter_empty_conv)
qed

text \<open>An announcement can make the manager throw. The port of an announcement is never checked, and
  \<open>net.connect\<close> throws for a port above 65535: whatever the table holds, one datagram from anyone, under any
  identifier (a well-formed text) that has no session yet, makes the next tick end with an exception, which nothing in the timer's
  callback catches.\<close>

theorem announced_port_throws:
  assumes "disc_ok d" and "i \<noteq> ds_selfId d" and "pm_selfId s = ds_selfId d"
    and "\<not> jm_has (pm_sessions s) i" and "i \<notin> set (pm_dialing s)"
    and "\<forall>a. net (JNum 65536) a = Inl RangeError" and "well_formed i"
  shows "\<exists>raw. \<forall>addr now. \<exists>e. fst (pm_tick net (getPeers (disc_message raw addr now d)) s) = Inl e"
proof -
  let ?m = "JObj [(''t'', JStr ''announce''), (''nodeId'', JStr i), (''securePort'', JNum 65536)]"
  have wf: "well_formed (json_text ?m)" by (rule well_formed_text) (use assms(7) in \<open>auto intro: well_formed_ascii\<close>)
  have "json_parse (json_text ?m) = Inr ?m" by (rule json_parse_text) simp
  then have "announced_id (text_bytes (json_text ?m)) = Some (?m, i)"
    unfolding announced_id_def buf_text_bytes [OF wf] by (simp add: jm_get_def)
  then obtain raw where id: "announced_id raw = Some (?m, i)" by blast
  have "\<exists>e. fst (pm_tick net (getPeers (disc_message raw addr now d)) s) = Inl e" for addr now
  proof -
    let ?d = "disc_message raw addr now d"
    let ?p = "entry_of ?m addr now"
    have d: "?d = d\<lparr>ds_peers := jm_set (ds_peers d) i ?p\<rparr>"
      unfolding disc_message_def id entry_of_def using assms(2) by simp
    have j: "jm_ok (ds_peers ?d)" using assms(1) unfolding d by (simp add: disc_ok_def jsm.ok_put)
    have "(i, ?p) \<in> set (getPeers ?d)" unfolding getPeers_def get_in [OF j] by (simp add: d)
    moreover have "distinct (map fst (getPeers ?d))" using j by (simp add: getPeers_def jm_ok_def jm_keys_def)
    moreover have "dp_securePort ?p = Some (JNum 65536)" by (simp add: entry_of_def jm_get_def)
    ultimately show ?thesis using assms(2-6) by (intro tick_throws) (auto simp: pm_wants_def)
  qed
  then show ?thesis by blast
qed

text \<open>The identity is the announced one. When a connection becomes secure it is filed under the identifier
  that was announced for its address, whichever peer the handshake has authenticated; as long as it is open,
  no announcement of that identifier, not even by its owner, is dialled.\<close>

theorem announced_identity_kept:
  assumes "hex_of_bytes peerId \<noteq> pm_owner s h" and "distinct (map fst peers)"
    and "pm_tick net peers (pm_onSecure h peerId s) = (r, s')"
  shows "jm_get (pm_sessions s') (pm_owner s h) = Some h \<and>
    (\<exists>es. pm_out s' = pm_out (pm_onSecure h peerId s) @ es \<and>
      (\<forall>k port a. PDial k (pm_owner s h) port a \<notin> set es))"
proof -
  let ?s = "pm_onSecure h peerId s"
  have g: "jm_get (pm_sessions ?s) (pm_owner s h) = Some h" by (simp add: pm_defs)
  obtain es fs where t: "pm_sessions s' = pm_sessions ?s" "pm_out s' = pm_out ?s @ es"
    "map target (filter (pm_wants ?s) peers) = dialled es @ fs" using tick_effect [OF assms(2,3)] by blast
  have "(pm_owner s h, a) \<notin> set (dialled es)" for a
  proof
    assume "(pm_owner s h, a) \<in> set (dialled es)"
    then have "(pm_owner s h, a) \<in> set (map target (filter (pm_wants ?s) peers))" by (simp add: t(3))
    then show False using g by (auto simp: pm_wants_def jm_has_def)
  qed
  then show ?thesis using g t dialled_in by fastforce
qed

section \<open>A concrete manager\<close>

definition demo_pm :: peer_manager where
  "demo_pm = \<lparr>pm_selfId = ''01'', pm_sessions = [], pm_dialing = [], pm_timer = False, pm_handler = True,
     pm_next = 0, pm_owner = (\<lambda>h. ''''), pm_out = []\<rparr>"

definition demo_peer_entry :: dpeer where
  "demo_peer_entry = \<lparr>dp_address = ''h'', dp_tcpPort = None, dp_securePort = Some (JNum 7778), dp_name = None, dp_lastSeen = 0\<rparr>"

definition demo_net :: net where
  "demo_net = (\<lambda>v a. case v of JNum n \<Rightarrow> if 0 \<le> n \<and> n < 65536 then Inr () else Inl RangeError | _ \<Rightarrow> Inl TypeError)"


theorem tick_dials_witness:
  "dialled (pm_out (snd (pm_tick demo_net [(''02'', demo_peer_entry)] demo_pm))) = [(''02'', ''h'')]"
proof -
  obtain r s' where t: "pm_tick demo_net [(''02'', demo_peer_entry)] demo_pm = (r, s')"
    by (cases "pm_tick demo_net [(''02'', demo_peer_entry)] demo_pm")
  have r: "r = Inr ()"
    using t by (simp add: demo_pm_def pm_wants_def demo_peer_entry_def pm_dial_def demo_net_def)
  have w: "pm_wants demo_pm (''02'', demo_peer_entry)"
    by (simp add: pm_wants_def demo_pm_def demo_peer_entry_def)
  have "\<exists>es. pm_out s' = pm_out demo_pm @ es \<and> dialled es = [(''02'', ''h'')]"
    using tick_dials [OF _ t] r w by (auto simp: demo_peer_entry_def)
  then show ?thesis using t by (auto simp: demo_pm_def)
qed

theorem announced_port_throws_witness:
  "\<exists>raw. \<forall>addr now. \<exists>e. fst (pm_tick demo_net (getPeers (disc_message raw addr now (demo_node_disc 1))) demo_pm) = Inl e"
proof (rule announced_port_throws)
  show "disc_ok (demo_node_disc 1)" by (simp add: disc_ok_def demo_node_disc_def)
  show "''ff'' \<noteq> ds_selfId (demo_node_disc 1)" by (simp add: demo_node_disc_def hex_of_nibble_def hex_digits_def)
qed (simp_all add: demo_pm_def demo_node_disc_def demo_net_def hex_of_nibble_def hex_digits_def well_formed_ascii)

theorem announced_identity_kept_witness:
  "jm_get (pm_sessions (snd (pm_tick demo_net [(''02'', demo_peer_entry)]
     (pm_onSecure 0 [0x66] (demo_pm\<lparr>pm_next := 1, pm_owner := (\<lambda>h. ''02'')\<rparr>))))) ''02'' = Some 0"
proof -
  let ?s = "demo_pm\<lparr>pm_next := 1, pm_owner := (\<lambda>h. ''02'')\<rparr>"
  have "hex_of_bytes [0x66] \<noteq> pm_owner ?s 0" by (simp add: hex_of_nibble_def hex_digits_def)
  from announced_identity_kept [OF this, of "[(''02'', demo_peer_entry)]" demo_net] show ?thesis
    by (cases "pm_tick demo_net [(''02'', demo_peer_entry)] (pm_onSecure 0 [0x66] ?s)") simp
qed

end
