(* ===== verification/Trust.thy ===== *)
theory Trust
  imports ManifestJson
begin

text \<open>
  \<open>src/node/trustStore.js\<close>: the identifiers the user approves, in a JSON file. The file is its text, or
  \<open>None\<close> when it cannot be read. The set is a JavaScript \<open>Set\<close> of JSON values (the control API passes on
  whatever it is given): insertion-ordered, equal primitive values once; an object or array is equal to
  itself only, and each one that arrives is a new one.
\<close>

section \<open>The store\<close>

fun primitive :: "json \<Rightarrow> bool" where
  "primitive (JArr vs) = False"
| "primitive (JObj ms) = False"
| "primitive _ = True"

definition jset_add :: "json list \<Rightarrow> json \<Rightarrow> json list" where
  "jset_add s v = (if primitive v \<and> v \<in> set s then s else s @ [v])"

definition jset_delete :: "json list \<Rightarrow> json \<Rightarrow> json list" where
  "jset_delete s v = (if primitive v then filter (\<lambda>w. w \<noteq> v) s else s)"

record trust_store =
  tr_set :: "json list"
  tr_file :: "string option"

text \<open>\<open>_load\<close>: any exception gives the empty list.\<close>

definition trust_load :: "string option \<Rightarrow> json" where
  "trust_load text =
     (case text of None \<Rightarrow> JArr []
      | Some t \<Rightarrow>
          (case json_parse t of
             Inl e \<Rightarrow> JArr []
           | Inr v \<Rightarrow>
               (case json_get v ''trusted'' of None \<Rightarrow> JArr []
                | Some w \<Rightarrow> if json_truthy w then w else JArr [])))"

text \<open>The constructor; \<open>new Set\<close> of a value that is not iterable throws. A string is the set of its characters.\<close>

definition new_trust_store :: "string option \<Rightarrow> trust_store res" where
  "new_trust_store text =
     (case trust_load text of
        JArr vs \<Rightarrow> Inr \<lparr>tr_set = foldl jset_add [] vs, tr_file = text\<rparr>
      | JStr s \<Rightarrow> Inr \<lparr>tr_set = foldl jset_add [] (map (\<lambda>c. JStr [c]) s), tr_file = text\<rparr>
      | _ \<Rightarrow> Inl TypeError)"

text \<open>\<open>JSON.stringify({trusted: [...]}, null, 2)\<close>; a nested value is printed on one line here, which is not
  how it is indented, but how it is read back is the same.\<close>

fun trust_lines :: "json list \<Rightarrow> string" where
  "trust_lines [] = ''''"
| "trust_lines [v] = CHR 0x0A # ''    '' @ json_text v"
| "trust_lines (v # w # vs) = CHR 0x0A # ''    '' @ json_text v @ '','' @ trust_lines (w # vs)"

definition trust_text :: "json list \<Rightarrow> string" where
  "trust_text vs =
     ''{'' @ [CHR 0x0A] @ ''  '' @ json_string ''trusted'' @ '': ['' @ trust_lines vs @
     (if vs = [] then '']'' else CHR 0x0A # ''  ]'') @ [CHR 0x0A] @ ''}''"

definition trust_save :: "trust_store \<Rightarrow> trust_store" where
  "trust_save s = s\<lparr>tr_file := Some (trust_text (tr_set s))\<rparr>"

definition trust :: "json \<Rightarrow> trust_store \<Rightarrow> trust_store" where
  "trust i s = trust_save (s\<lparr>tr_set := jset_add (tr_set s) i\<rparr>)"

definition untrust :: "json \<Rightarrow> trust_store \<Rightarrow> trust_store" where
  "untrust i s = trust_save (s\<lparr>tr_set := jset_delete (tr_set s) i\<rparr>)"

definition isTrusted :: "json \<Rightarrow> trust_store \<Rightarrow> bool" where
  "isTrusted i s = (primitive i \<and> i \<in> set (tr_set s))"

definition trust_list :: "trust_store \<Rightarrow> json list" where
  "trust_list s = tr_set s"

datatype trust_op = TTrust json | TUntrust json

fun trust_apply :: "trust_store \<Rightarrow> trust_op \<Rightarrow> trust_store" where
  "trust_apply s (TTrust i) = trust i s"
| "trust_apply s (TUntrust i) = untrust i s"

section \<open>Reading the file back\<close>

lemma json_value_ws: "json_ws c \<Longrightarrow> json_value n (c # t) = json_value n t"
  by (cases n) (simp_all add: skip_ws_def)

lemma ws_blank [simp]: "json_ws CHR '' ''" "json_ws CHR 0x0A"
  by (simp_all add: json_ws_def)

lemma skip_ws_ws [simp]: "json_ws c \<Longrightarrow> skip_ws (c # t) = skip_ws t"
  by (simp add: skip_ws_def)

lemma skip_ws_nil [simp]: "skip_ws [] = []"
  by (simp add: skip_ws_def)

lemma ends_value_ws: "json_ws c \<Longrightarrow> ends_value (c # r)"
  by (auto simp: ends_value_def json_ws_def is_digit_def)

lemma trust_items:
  assumes "vs \<noteq> []" and "\<forall>v \<in> set vs. json_plain v"
    and "2 * length (trust_lines vs) + 2 \<le> n"
  shows "json_items n (trust_lines vs @ CHR 0x0A # ''  ]'' @ r) = Some (vs, r)"
  using assms
proof (induction vs arbitrary: n)
  case (Cons v vs)
  obtain m where n: "n = Suc m" using Cons.prems(3) by (cases n) auto
  show ?case
  proof (cases vs)
    case Nil
    have "json_value m (json_text v @ CHR 0x0A # ''  ]'' @ r) = Some (v, CHR 0x0A # ''  ]'' @ r)"
      using Cons.prems Nil n by (intro json_value_text ends_value_ws) auto
    then show ?thesis using n Nil by (simp add: json_value_ws)
  next
    case (Cons w ws)
    have "json_value m (json_text v @ CHR '','' # trust_lines vs @ CHR 0x0A # ''  ]'' @ r) =
        Some (v, CHR '','' # trust_lines vs @ CHR 0x0A # ''  ]'' @ r)"
      using Cons.prems Cons n by (intro json_value_text) auto
    moreover have "json_items m (trust_lines vs @ CHR 0x0A # ''  ]'' @ r) = Some (vs, r)"
      using Cons.IH [of m] Cons.prems Cons n by simp
    ultimately show ?thesis using n Cons by (simp add: json_value_ws)
  qed
qed simp

lemma parse_trust_text:
  assumes "\<forall>v \<in> set vs. json_plain v"
  shows "json_parse (trust_text vs) = Inr (JObj [(''trusted'', JArr vs)])"
proof -
  define N where "N = 2 * length (trust_text vs) - 2"
  have f: "json_fuel (trust_text vs) = Suc (Suc (Suc N))" by (simp add: N_def json_fuel_def trust_text_def)
  have big: "2 * length (trust_lines vs) + 2 \<le> N" by (simp add: N_def trust_text_def)
  let ?e = "[CHR 0x0A] @ ''}''"
  have k: "json_chars (''trusted'' @ CHR 0x22 # r) = Some (''trusted'', r)" for r
    using json_chars_string [of "''trusted''" r] by (simp add: json_escape_def)
  have v: "json_value (Suc N) ('' ['' @ trust_lines vs @ (if vs = [] then '']'' else CHR 0x0A # ''  ]'') @ ?e) = Some (JArr vs, ?e)"
  proof (cases vs)
    case Nil
    then show ?thesis by simp
  next
    case (Cons w ws)
    then obtain s where s: "trust_lines vs = CHR 0x0A # ''    '' @ json_text w @ s" by (cases ws) auto
    have "take 1 (skip_ws (trust_lines vs @ x)) \<noteq> '']''" for x
    proof -
      have st: "starts_value (json_text w @ s @ x)" using starts_json_text assms Cons by simp
      have "skip_ws (trust_lines vs @ x) = json_text w @ s @ x" using skip_ws_start [OF st] by (simp add: s)
      then show ?thesis using st by (cases "json_text w @ s @ x") (auto simp: starts_value_def)
    qed
    moreover have "json_items N (trust_lines vs @ CHR 0x0A # ''  ]'' @ ?e) = Some (vs, ?e)"
      using trust_items [of vs N ?e] assms Cons big by simp
    ultimately show ?thesis using Cons by simp
  qed
  show ?thesis
    unfolding json_parse_def f
    by (simp add: trust_text_def json_string_def json_escape_def k [simplified] v [simplified])
qed

section \<open>The store survives a restart\<close>

text \<open>What the constructor and the operations keep of the set.\<close>

definition trust_ok :: "json list \<Rightarrow> bool" where
  "trust_ok s = (distinct (filter primitive s) \<and> list_all json_plain s)"

fun op_value :: "trust_op \<Rightarrow> json" where
  "op_value (TTrust i) = i"
| "op_value (TUntrust i) = i"

lemma jset_add_ok: "trust_ok s \<Longrightarrow> json_plain v \<Longrightarrow> trust_ok (jset_add s v)"
  by (auto simp: trust_ok_def jset_add_def)

lemma jset_delete_ok: "trust_ok s \<Longrightarrow> trust_ok (jset_delete s v)"
proof -
  assume "trust_ok s"
  moreover have "filter primitive (filter (\<lambda>w. w \<noteq> v) s) = filter (\<lambda>w. w \<noteq> v) (filter primitive s)"
    by (simp add: conj_commute)
  ultimately show ?thesis by (simp add: trust_ok_def jset_delete_def list_all_iff del: filter_filter)
qed

lemma set_jset_add: "set (jset_add s v) = insert v (set s)"
  by (auto simp: jset_add_def)

lemma foldl_jset_add: "distinct (filter primitive (s @ vs)) \<Longrightarrow> foldl jset_add s vs = s @ vs"
proof (induction vs arbitrary: s)
  case (Cons v vs)
  then have "jset_add s v = s @ [v]" by (auto simp: jset_add_def)
  then show ?case using Cons.IH [of "s @ [v]"] Cons.prems by simp
qed simp

lemma trust_apply_ok:
  "trust_ok (tr_set s) \<Longrightarrow> json_plain (op_value op) \<Longrightarrow> trust_ok (tr_set (trust_apply s op))"
  by (cases op) (simp_all add: trust_def untrust_def trust_save_def jset_add_ok jset_delete_ok)

lemma trust_run_ok:
  "trust_ok (tr_set s) \<Longrightarrow> list_all (\<lambda>op. json_plain (op_value op)) ops \<Longrightarrow>
   trust_ok (tr_set (foldl trust_apply s ops))"
  by (induction ops arbitrary: s) (simp_all add: trust_apply_ok)

lemma trust_apply_file: "tr_file (trust_apply s op) = Some (trust_text (tr_set (trust_apply s op)))"
  by (cases op) (simp_all add: trust_def untrust_def trust_save_def)

lemma trust_run_file: "ops \<noteq> [] \<Longrightarrow>
  tr_file (foldl trust_apply s ops) = Some (trust_text (tr_set (foldl trust_apply s ops)))"
  by (cases ops rule: rev_cases) (simp_all add: trust_apply_file)

lemma reopen: "trust_ok vs \<Longrightarrow> new_trust_store (Some (trust_text vs)) = Inr \<lparr>tr_set = vs, tr_file = Some (trust_text vs)\<rparr>"
proof -
  assume ok: "trust_ok vs"
  have "trust_load (Some (trust_text vs)) = JArr vs"
    using parse_trust_text [of vs] ok by (simp add: trust_ok_def list_all_iff trust_load_def jm_get_def)
  moreover have "foldl jset_add [] vs = vs" using foldl_jset_add [of "[]" vs] ok by (simp add: trust_ok_def)
  ultimately show ?thesis by (simp add: new_trust_store_def)
qed

lemma fresh_store: "new_trust_store None = Inr \<lparr>tr_set = [], tr_file = None\<rparr>"
  by (simp add: new_trust_store_def trust_load_def)

text \<open>C40. The web of trust survives a restart. Starting with no file, after any non-empty sequence of
  approvals and removals of JSON values the file on disk, parsed and loaded by a new store, gives exactly the
  list the running store has; and an identifier is trusted after the restart exactly when the last operation
  that names it approved it.\<close>

theorem trust_persistent:
  assumes "ops \<noteq> []" and "list_all (\<lambda>op. json_plain (op_value op) \<and> primitive (op_value op)) ops"
    and "new_trust_store None = Inr s0" and "foldl trust_apply s0 ops = s"
  shows "new_trust_store (tr_file s) = Inr s
    \<and> isTrusted i s = (primitive i \<and> List.find (\<lambda>op. op_value op = i) (rev ops) = Some (TTrust i))"
proof
  have s0: "s0 = \<lparr>tr_set = [], tr_file = None\<rparr>" using assms(3) by (simp add: fresh_store)
  have "trust_ok (tr_set s)"
    using trust_run_ok [of s0 ops] assms(2,4) by (simp add: s0 trust_ok_def list_all_iff)
  then show "new_trust_store (tr_file s) = Inr s"
    using trust_run_file [OF assms(1), of s0] assms(4) by (simp add: reopen)
  have "(i \<in> set (tr_set (foldl trust_apply s0 ops))) = (List.find (\<lambda>op. op_value op = i) (rev ops) = Some (TTrust i))"
    if "primitive i" "list_all (\<lambda>op. primitive (op_value op)) ops"
    using that(2)
  proof (induction ops rule: rev_induct)
    case (snoc op ops)
    then show ?case
      using that(1) by (cases op) (auto simp: trust_def untrust_def trust_save_def set_jset_add jset_delete_def)
  qed (simp add: s0)
  then show "isTrusted i s = (primitive i \<and> List.find (\<lambda>op. op_value op = i) (rev ops) = Some (TTrust i))"
    using assms(2,4) by (auto simp: isTrusted_def list_all_iff)
qed

theorem trust_persistent_witness:
  "\<exists>s. new_trust_store (tr_file s) = Inr s \<and> isTrusted (JStr ''ab'') s \<and> isTrusted (JStr ''cd'') s = False"
proof -
  define s where "s = foldl trust_apply \<lparr>tr_set = [], tr_file = None\<rparr>
    [TTrust (JStr ''ab''), TTrust (JStr ''cd''), TUntrust (JStr ''cd'')]"
  note p = trust_persistent [of "[TTrust (JStr ''ab''), TTrust (JStr ''cd''), TUntrust (JStr ''cd'')]" _ s,
    OF _ _ fresh_store s_def [symmetric]]
  show ?thesis using p [of "JStr ''ab''"] p [of "JStr ''cd''"] by auto
qed

end
