(* ===== verification/Gemini.thy ===== *)
theory Gemini
  imports JsText
begin

text \<open>
  \<open>src/ai/gemini.js\<close>: the prompt, the one request that leaves the node, and the reading of its answer. The
  environment (key, model, whether there is a \<open>fetch\<close>) is an argument; what \<open>fetch\<close> and \<open>res.json()\<close> give
  is the outcome of the request, an argument as well, the abort of the timer being one of the failures.
\<close>

section \<open>The prompt\<close>

datatype chat_dir = ChatIn | ChatOut | ChatAi

record chat_entry =
  ce_dir :: chat_dir
  ce_text :: string
  ce_ts :: time

definition speaker :: "chat_dir \<Rightarrow> string" where
  "speaker d = (case d of ChatOut \<Rightarrow> ''Moi'' | ChatAi \<Rightarrow> ''IA'' | ChatIn \<Rightarrow> ''Pair'')"

fun join_lines :: "string list \<Rightarrow> string" where
  "join_lines [] = ''''"
| "join_lines [x] = x"
| "join_lines (x # y # xs) = x @ CHR 0x0A # join_lines (y # xs)"

abbreviation e_acute :: string where "e_acute \<equiv> [CHR 0xC3, CHR 0xA9]"
abbreviation c_cedilla :: string where "c_cedilla \<equiv> [CHR 0xC3, CHR 0xA7]"

definition history_text :: "chat_entry list \<Rightarrow> string" where
  "history_text context = join_lines (map (\<lambda>m. speaker (ce_dir m) @ '': '' @ ce_text m) context)"

definition buildPrompt :: "chat_entry list \<Rightarrow> string \<Rightarrow> string" where
  "buildPrompt context query =
     (let history = history_text context in
      join_lines
        [''Tu es l'assistant contextuel d'AttestP2P, un r'' @ e_acute @ ''seau P2P chiffr'' @ e_acute @ '' et d'' @
           e_acute @ ''centralis'' @ e_acute @ ''.'',
         ''R'' @ e_acute @ ''ponds de fa'' @ c_cedilla @ ''on concise et utile, en fran'' @ c_cedilla @ ''ais.'',
         (if history = '''' then '''' else CHR 0x0A # ''Contexte r'' @ e_acute @ ''cent de la conversation :'' @ CHR 0x0A # history),
         CHR 0x0A # ''Question : '' @ query])"

section \<open>The request and its answer\<close>

text \<open>An exception is its \<open>code\<close>, when it has one, and its message.\<close>

type_synonym ai_error = "string option \<times> string"

record ai_env =
  ae_key :: string
  ae_fetch :: bool
  ae_model :: string

datatype body_outcome = Parsed json | Unreadable string

datatype fetch_outcome = Fetched nat body_outcome | FetchThrew "string option" string

definition gemini_body :: "chat_entry list \<Rightarrow> string \<Rightarrow> json" where
  "gemini_body context query =
     JObj [(''contents'', JArr [JObj [(''role'', JStr ''user''),
       (''parts'', JArr [JObj [(''text'', JStr (buildPrompt context query))]])]])]"

definition gemini_url :: "ai_env \<Rightarrow> string" where
  "gemini_url env =
     ''https://generativelanguage.googleapis.com/v1beta/models/'' @ ae_model env @ '':generateContent?key='' @ ae_key env"

text \<open>Up to the call of \<open>fetch\<close>: the two early exceptions, or the address and body of the request.\<close>

definition gemini_request :: "ai_env \<Rightarrow> chat_entry list \<Rightarrow> string \<Rightarrow> ai_error + string \<times> string" where
  "gemini_request env context query =
     (if ae_key env = '''' then Inl (Some ''NO_KEY'', ''GEMINI_API_KEY absent'')
      else if \<not> ae_fetch env then Inl (Some ''NO_FETCH'', ''fetch indisponible'')
      else Inr (gemini_url env, json_text (gemini_body context query)))"

text \<open>\<open>v[0]\<close>; of a string it is the first character, of which only its type and that there is one matter.\<close>

definition json_first :: "json \<Rightarrow> json option" where
  "json_first v =
     (case v of
        JArr (w # ws) \<Rightarrow> Some w
      | JStr (c # s) \<Rightarrow> Some (JStr [c])
      | JObj ms \<Rightarrow> json_get v ''0''
      | _ \<Rightarrow> None)"

text \<open>\<open>a && f a\<close>: a falsy value, or none, stops the chain.\<close>

definition json_and :: "json option \<Rightarrow> (json \<Rightarrow> json option) \<Rightarrow> json option" where
  "json_and v f = (case v of None \<Rightarrow> None | Some w \<Rightarrow> if json_truthy w then f w else Some w)"

definition answer_text :: "json \<Rightarrow> json option" where
  "answer_text data =
     json_and (json_and (json_and (json_and (json_and (json_and (Some data)
       (\<lambda>d. json_get d ''candidates'')) json_first) (\<lambda>c. json_get c ''content'')) (\<lambda>c. json_get c ''parts''))
       json_first) (\<lambda>p. json_get p ''text'')"

definition empty_answer :: ai_error where
  "empty_answer = (Some ''EMPTY'', ''r'' @ e_acute @ ''ponse vide'')"

definition gemini_answer :: "fetch_outcome \<Rightarrow> ai_error + string" where
  "gemini_answer out =
     (case out of
        FetchThrew code msg \<Rightarrow> Inl (code, msg)
      | Fetched status body \<Rightarrow>
          if \<not> (200 \<le> status \<and> status < 300) then Inl (Some ''HTTP'', ''Gemini HTTP '' @ json_int (int status))
          else
            (case body of
               Unreadable msg \<Rightarrow> Inl (None, msg)
             | Parsed data \<Rightarrow>
                 (case answer_text data of
                    None \<Rightarrow> Inl empty_answer
                  | Some v \<Rightarrow>
                      if \<not> json_truthy v then Inl empty_answer
                      else (case v of JStr t \<Rightarrow> Inr (trim t) | _ \<Rightarrow> Inl (None, ''text.trim is not a function'')))))"

definition queryGemini :: "ai_env \<Rightarrow> (string \<Rightarrow> string \<Rightarrow> fetch_outcome) \<Rightarrow> chat_entry list \<Rightarrow> string \<Rightarrow> ai_error + string" where
  "queryGemini env net context query =
     (case gemini_request env context query of
        Inl e \<Rightarrow> Inl e
      | Inr (address, body) \<Rightarrow> gemini_answer (net address body))"

section \<open>What comes back\<close>

lemma json_and_Some: "json_and v f = Some w \<Longrightarrow> json_truthy w \<Longrightarrow> \<exists>u. v = Some u \<and> json_truthy u \<and> f u = Some w"
  by (auto simp: json_and_def split: option.splits if_splits)

text \<open>The assistant's answer is taken from the one place of the response that holds it. A reply exists
  exactly when the request could be made (a key and a \<open>fetch\<close>), came back with a status from 200 to 299 and a
  JSON body in which \<open>candidates[0].content.parts[0].text\<close> is a non-empty string, and the reply is that string
  without the white space around it; in every other case there is an error.\<close>

theorem gemini_reply:
  "(queryGemini env net context query = Inr reply) =
   (ae_key env \<noteq> '''' \<and> ae_fetch env \<and>
    (\<exists>status data t. net (gemini_url env) (json_text (gemini_body context query)) = Fetched status (Parsed data) \<and>
       status \<in> {200..<300} \<and> answer_text data = Some (JStr t) \<and> t \<noteq> '''' \<and> reply = trim t))"
  by (cases "net (gemini_url env) (json_text (gemini_body context query))")
     (auto simp: queryGemini_def gemini_request_def gemini_answer_def empty_answer_def
        split: body_outcome.splits option.splits json.splits)

text \<open>Reading \<open>answer_text\<close> as the path it follows.\<close>

lemma answer_text_path:
  "answer_text data = Some (JStr t) \<Longrightarrow> t \<noteq> '''' \<Longrightarrow>
   \<exists>cs c ct ps p. json_get data ''candidates'' = Some cs \<and> json_first cs = Some c \<and> json_get c ''content'' = Some ct \<and>
     json_get ct ''parts'' = Some ps \<and> json_first ps = Some p \<and> json_get p ''text'' = Some (JStr t)"
  unfolding answer_text_def
  by (drule json_and_Some, simp, elim exE conjE, drule json_and_Some, assumption, elim exE conjE,
      drule json_and_Some, assumption, elim exE conjE, drule json_and_Some, assumption, elim exE conjE,
      drule json_and_Some, assumption, elim exE conjE, drule json_and_Some, assumption, elim exE conjE) auto

end
