(* ===== verification/Paths.thy ===== *)
theory Paths
  imports Prelude
begin

text \<open>
  Node's \<open>path.join\<close> (POSIX) on the texts the node builds paths from, and its effect on a name that stays
  inside a directory and on one that climbs out of it.
\<close>

section \<open>Joining and normalising\<close>

fun join_with :: "string \<Rightarrow> string list \<Rightarrow> string" where
  "join_with sep [] = ''''"
| "join_with sep [x] = x"
| "join_with sep (x # y # xs) = x @ sep @ join_with sep (y # xs)"

fun split_slash :: "string \<Rightarrow> string list" where
  "split_slash [] = ['''']"
| "split_slash (c # s) =
     (if c = CHR ''/'' then '''' # split_slash s
      else (case split_slash s of [] \<Rightarrow> [[c]] | w # ws \<Rightarrow> (c # w) # ws))"

text \<open>One segment after the other; \<open>acc\<close> holds those kept so far.\<close>

definition norm_seg :: "bool \<Rightarrow> string list \<Rightarrow> string \<Rightarrow> string list" where
  "norm_seg absolute acc s =
     (if s = '''' \<or> s = ''.'' then acc
      else if s = ''..'' then
        (if acc \<noteq> [] \<and> last acc \<noteq> ''..'' then butlast acc else if absolute then acc else acc @ [s])
      else acc @ [s])"

definition normalize :: "string \<Rightarrow> string" where
  "normalize p =
     (if p = '''' then ''.''
      else
        (let absolute = (hd p = CHR ''/'');
             segs = foldl (norm_seg absolute) [] (split_slash p);
             body = join_with ''/'' segs @ (if last p = CHR ''/'' \<and> segs \<noteq> [] then ''/'' else '''') in
         if absolute then ''/'' @ body else if segs = [] then (if last p = CHR ''/'' then ''./'' else ''.'') else body))"

definition path_join :: "string list \<Rightarrow> string" where
  "path_join ps =
     (let ps = filter (\<lambda>p. p \<noteq> '''') ps in if ps = [] then ''.'' else normalize (join_with ''/'' ps))"

section \<open>Directories written out\<close>

definition plain_seg :: "string \<Rightarrow> bool" where
  "plain_seg s \<longleftrightarrow> s \<notin> {'''', ''.'', ''..''} \<and> CHR ''/'' \<notin> set s"

text \<open>An absolute path.\<close>

definition abs_path :: "string list \<Rightarrow> string" where
  "abs_path ss = ''/'' @ join_with ''/'' ss"

lemma split_slash_plain: "CHR ''/'' \<notin> set s \<Longrightarrow> split_slash s = [s]"
  by (induction s) auto

lemma split_slash_append:
  "CHR ''/'' \<notin> set s \<Longrightarrow> split_slash (s @ CHR ''/'' # t) = s # split_slash t"
  by (induction s) auto

lemma split_join: "ss \<noteq> [] \<Longrightarrow> list_all (\<lambda>s. CHR ''/'' \<notin> set s) ss \<Longrightarrow> split_slash (join_with ''/'' ss) = ss"
proof (induction ss)
  case (Cons s ss)
  then show ?case by (cases ss) (auto simp: split_slash_plain split_slash_append)
qed simp

lemma join_with_append: "ss \<noteq> [] \<Longrightarrow> ts \<noteq> [] \<Longrightarrow> join_with sep (ss @ ts) = join_with sep ss @ sep @ join_with sep ts"
proof (induction ss)
  case (Cons s ss)
  then show ?case by (cases ss; cases ts) auto
qed simp

lemma norm_segs_plain: "list_all plain_seg ss \<Longrightarrow> foldl (norm_seg a) acc ss = acc @ ss"
  by (induction ss arbitrary: acc) (auto simp: norm_seg_def plain_seg_def)

lemma last_join_plain: "ss \<noteq> [] \<Longrightarrow> list_all plain_seg ss \<Longrightarrow> join_with ''/'' ss \<noteq> '''' \<and> last (join_with ''/'' ss) \<noteq> CHR ''/''"
proof (induction ss)
  case (Cons s ss)
  have s: "s \<noteq> ''''" "last s \<noteq> CHR ''/''" using Cons.prems by (auto simp: plain_seg_def dest: last_in_set)
  show ?case using Cons s by (cases ss) auto
qed simp

text \<open>What a relative path does to a directory: its segments are followed one after the other.\<close>

lemma path_join_follow:
  assumes "list_all plain_seg ds" and "ds \<noteq> []" and "ts \<noteq> []" and "list_all (\<lambda>s. CHR ''/'' \<notin> set s) ts"
    and "plain_seg (last ts)"
  shows "path_join [abs_path ds, join_with ''/'' ts] = abs_path (foldl (norm_seg True) ds ts)"
proof -
  have slash: "list_all (\<lambda>s. CHR ''/'' \<notin> set s) ds" using assms(1) by (auto simp: list_all_iff plain_seg_def)
  obtain us u where ts: "ts = us @ [u]" "plain_seg u" using assms(3,5) by (cases ts rule: rev_cases) auto
  have l: "join_with ''/'' ts \<noteq> '''' \<and> last (join_with ''/'' ts) \<noteq> CHR ''/''"
    using last_join_plain [of "[u]"] ts by (cases "us = []") (auto simp: join_with_append)
  let ?p = "CHR ''/'' # join_with ''/'' (ds @ ts)"
  have p: "''/'' @ join_with ''/'' ds @ ''/'' @ join_with ''/'' ts = ?p" using assms(2,3) by (simp add: join_with_append)
  have "split_slash ?p = '''' # ds @ ts" using split_join [of "ds @ ts"] assms(2,4) slash by simp
  then have segs: "foldl (norm_seg True) [] (split_slash ?p) = foldl (norm_seg True) ds ts"
    using norm_segs_plain [OF assms(1), of True "[]"] by (simp add: norm_seg_def [of True "[]" "''''"])
  have last: "last ?p \<noteq> CHR ''/''" using l assms(2,3) by (simp add: join_with_append)
  have "normalize ?p = ''/'' @ join_with ''/'' (foldl (norm_seg True) ds ts)"
    unfolding normalize_def Let_def using last segs by simp
  then show ?thesis using p l unfolding path_join_def abs_path_def by (simp add: Let_def)
qed

lemma path_join_inside:
  "list_all plain_seg ds \<Longrightarrow> ds \<noteq> [] \<Longrightarrow> plain_seg s \<Longrightarrow> path_join [abs_path ds, s] = abs_path (ds @ [s])"
  using path_join_follow [of ds "[s]"] by (simp add: plain_seg_def norm_seg_def)

text \<open>Two dots and a slash lead one directory up.\<close>

lemma path_join_up:
  assumes "list_all plain_seg (ds @ [d])" and "plain_seg s"
  shows "path_join [abs_path (ds @ [d]), ''../'' @ s] = abs_path (ds @ [s])"
proof -
  have "path_join [abs_path (ds @ [d]), join_with ''/'' [''..'', s]] = abs_path (foldl (norm_seg True) (ds @ [d]) [''..'', s])"
    by (rule path_join_follow) (use assms in \<open>auto simp: plain_seg_def\<close>)
  moreover have "d \<noteq> ''..''" using assms by (simp add: plain_seg_def)
  ultimately show ?thesis using assms by (simp add: norm_seg_def plain_seg_def)
qed

lemma path_join_up2:
  assumes "list_all plain_seg (ds @ [d, e])" and "plain_seg s"
  shows "path_join [abs_path (ds @ [d, e]), ''../../'' @ s] = abs_path (ds @ [s])"
proof -
  have "path_join [abs_path (ds @ [d, e]), join_with ''/'' [''..'', ''..'', s]] =
      abs_path (foldl (norm_seg True) (ds @ [d, e]) [''..'', ''..'', s])"
    by (rule path_join_follow) (use assms in \<open>auto simp: plain_seg_def\<close>)
  moreover have "d \<noteq> ''..''" "e \<noteq> ''..''" using assms by (simp_all add: plain_seg_def)
  ultimately show ?thesis using assms by (simp add: norm_seg_def plain_seg_def butlast_append)
qed

end
