(* ===== verification/SecureServer.thy ===== *)
theory SecureServer
  imports SessionDefence
begin

text \<open>
  \<open>src/network/secureServer.js\<close> and \<open>src/network/secureClient.js\<close>. The server's connections share one
  blacklist and one limiter: the shared pair is the field \<open>se_defence\<close>, and an operation of a connection
  runs with the pair put into it and gives it back. The connections are numbered by the events that open
  them. Listening, console output and the handlers installed by the caller are left out.
\<close>

section \<open>The server\<close>

record secure_server =
  se_defence :: defence
  se_conns :: "(nat, conn) jsmap"
  se_maxMsg :: "int option"
  se_policy :: "int option \<times> int option \<times> int option"
  se_log :: "attack list"

definition startSecureServer ::
    "blacklist option \<Rightarrow> rate_limiter option \<Rightarrow> int option \<Rightarrow> int option \<times> int option \<times> int option \<Rightarrow> secure_server" where
  "startSecureServer bl rl maxMsg policy =
     \<lparr>se_defence =
        \<lparr>df_blacklist = (case bl of Some b \<Rightarrow> b | None \<Rightarrow> new_blacklist None None None),
         df_limiter = (case rl of Some l \<Rightarrow> l | None \<Rightarrow> new_rate_limiter MAX_PACKETS_PER_SECOND_PER_IP 1000)\<rparr>,
      se_conns = [], se_maxMsg = maxMsg, se_policy = policy, se_log = []\<rparr>"

text \<open>The callback of a new socket: a banned address is logged and the socket destroyed.\<close>

definition se_connect :: "crypto \<Rightarrow> keystore \<Rightarrow> nat \<Rightarrow> ip \<Rightarrow> bytes \<Rightarrow> clock \<Rightarrow> secure_server \<Rightarrow> secure_server" where
  "se_connect C ks h ip ePriv clk S =
     (case isBanned (df_blacklist (se_defence S)) ip (clk 0) of
        (banned, bl) \<Rightarrow>
          (let S = S\<lparr>se_defence := (se_defence S)\<lparr>df_blacklist := bl\<rparr>\<rparr> in
           if banned then S\<lparr>se_log := se_log S @ [logAttack (clk 1) BannedReconnect ip NoDetail None]\<rparr>
           else case new_conn C ks False (Some (se_defence S)) (se_maxMsg S) (se_policy S) ePriv (\<lambda>k. clk (k + 1)) ip of
                  Inl e \<Rightarrow> S
                | Inr c \<Rightarrow> S\<lparr>se_conns := jm_set (se_conns S) h c\<rparr>))"

definition se_conn :: "crypto \<Rightarrow> keystore \<Rightarrow> nat \<Rightarrow> conn_op \<Rightarrow> secure_server \<Rightarrow> secure_server" where
  "se_conn C ks h op S =
     (case jm_get (se_conns S) h of
        None \<Rightarrow> S
      | Some c \<Rightarrow>
          (let c = conn_apply C ks op (c\<lparr>cn_sec := Some (se_defence S)\<rparr>) in
           S\<lparr>se_conns := jm_set (se_conns S) h c,
             se_defence := (case cn_sec c of Some d \<Rightarrow> d | None \<Rightarrow> se_defence S)\<rparr>))"

definition se_cleanup :: "clock \<Rightarrow> secure_server \<Rightarrow> secure_server" where
  "se_cleanup clk S = S\<lparr>se_defence := defence_cleanup clk (se_defence S)\<rparr>"

datatype se_event = SeConnect nat ip bytes clock | SeConn nat conn_op | SeCleanup clock

fun se_step :: "crypto \<Rightarrow> keystore \<Rightarrow> se_event \<Rightarrow> secure_server \<Rightarrow> secure_server" where
  "se_step C ks (SeConnect h ip ePriv clk) S =
     (if jm_has (se_conns S) h then S else se_connect C ks h ip ePriv clk S)"
| "se_step C ks (SeConn h op) S = se_conn C ks h op S"
| "se_step C ks (SeCleanup clk) S = se_cleanup clk S"

fun se_run :: "crypto \<Rightarrow> keystore \<Rightarrow> se_event list \<Rightarrow> secure_server \<Rightarrow> secure_server" where
  "se_run C ks [] S = S"
| "se_run C ks (e # es) S = se_run C ks es (se_step C ks e S)"

section \<open>The client (secureClient.js)\<close>

text \<open>The port goes to \<open>net.connect\<close> as it is; the connection is an initiator without a security context.\<close>

definition connectSecure ::
    "crypto \<Rightarrow> keystore \<Rightarrow> ('p \<Rightarrow> string \<Rightarrow> unit res) \<Rightarrow> 'p \<Rightarrow> string option \<Rightarrow> int option \<Rightarrow>
     int option \<times> int option \<times> int option \<Rightarrow> bytes \<Rightarrow> clock \<Rightarrow> conn res" where
  "connectSecure C ks net port host maxMsg policy ePriv clk =
     bind_res (net port (case host of None \<Rightarrow> ''127.0.0.1'' | Some h \<Rightarrow> if h = '''' then ''127.0.0.1'' else h))
       (\<lambda>_. new_conn C ks True None maxMsg policy ePriv clk '''')"

section \<open>What an operation does to the shared registry\<close>

definition is_logged :: "conn_effect \<Rightarrow> bool" where
  "is_logged e = (case e of Logged a \<Rightarrow> True | _ \<Rightarrow> False)"

definition logged :: "conn_effect list \<Rightarrow> nat" where
  "logged es = length (filter is_logged es)"

lemma logged_simps [simp]:
  "logged [] = 0" "logged (es @ fs) = logged es + logged fs"
  "logged (e # es) = (if is_logged e then Suc (logged es) else logged es)"
  by (simp_all add: logged_def)

lemma is_logged_simps [simp]:
  "\<not> is_logged (Wire w)" "\<not> is_logged (Secure p)" "\<not> is_logged (Message m)" "\<not> is_logged Rekeyed"
  "\<not> is_logged PeerClose" "\<not> is_logged (ErrorEv x)" "\<not> is_logged CloseEv" "\<not> is_logged SockEnd"
  "\<not> is_logged SockDestroy" "is_logged (Logged a)"
  by (simp_all add: is_logged_def)

text \<open>
  The blacklist is used as a registry within the times \<open>lo\<close> to \<open>hi\<close>, and each log entry is one strike
  against the address of the connection.
\<close>

definition history :: "time \<Rightarrow> time \<Rightarrow> blacklist \<Rightarrow> blacklist \<Rightarrow> (ip \<Rightarrow> nat) \<Rightarrow> bool" where
  "history lo hi bl bl' n \<longleftrightarrow> (\<exists>rs. bl' = bl_run bl rs \<and>
     (\<forall>e \<in> set rs. lo \<le> reg_time e \<and> reg_time e \<le> hi) \<and> (\<forall>j. punishments j rs = n j))"

lemma bl_run_nil [simp]: "bl_run bl [] = bl"
  by (simp add: bl_run_def)

lemma history_refl: "history lo hi bl bl (\<lambda>j. 0)"
  unfolding history_def by (rule exI [of _ "[]"]) simp

lemma history_trans:
  assumes "history lo hi a b m" and "history lo hi b c n"
  shows "history lo hi a c (\<lambda>j. m j + n j)"
proof -
  obtain rs ss where "b = bl_run a rs" "c = bl_run b ss" "\<forall>e \<in> set rs. lo \<le> reg_time e \<and> reg_time e \<le> hi"
    "\<forall>e \<in> set ss. lo \<le> reg_time e \<and> reg_time e \<le> hi" "\<forall>j. punishments j rs = m j" "\<forall>j. punishments j ss = n j"
    using assms by (auto simp: history_def)
  then show ?thesis unfolding history_def
    by (intro exI [of _ "rs @ ss"]) (auto simp: bl_run_append punishments_append)
qed

lemma history_ask: "lo \<le> t \<Longrightarrow> t \<le> hi \<Longrightarrow> history lo hi bl (snd (isBanned bl ip t)) (\<lambda>j. 0)"
  unfolding history_def by (rule exI [of _ "[Ask ip t]"]) (simp add: bl_run_def)

lemma history_strike:
  "lo \<le> t \<Longrightarrow> t \<le> hi \<Longrightarrow> history lo hi bl (snd (strike bl ip t)) (\<lambda>j. if j = ip then Suc 0 else 0)"
  unfolding history_def by (rule exI [of _ "[Punish ip t]"]) (auto simp: bl_run_def)

lemma history_sweep: "lo \<le> t \<Longrightarrow> t \<le> hi \<Longrightarrow> history lo hi bl (bl_cleanup bl t) (\<lambda>j. 0)"
  unfolding history_def by (rule exI [of _ "[Sweep t]"]) (simp add: bl_run_def)

definition traced :: "time \<Rightarrow> time \<Rightarrow> conn \<Rightarrow> conn \<Rightarrow> bool" where
  "traced lo hi c c' \<longleftrightarrow> cn_remoteIp c' = cn_remoteIp c \<and>
     (\<forall>d. cn_sec c = Some d \<longrightarrow> (\<exists>d' n. cn_sec c' = Some d' \<and> logged (cn_out c') = logged (cn_out c) + n \<and>
        history lo hi (df_blacklist d) (df_blacklist d') (\<lambda>j. if j = cn_remoteIp c then n else 0)))"

lemma traced_same: "cn_sec c' = cn_sec c \<Longrightarrow> cn_remoteIp c' = cn_remoteIp c \<Longrightarrow> logged (cn_out c') = logged (cn_out c) \<Longrightarrow>
    traced lo hi c c'"
  unfolding traced_def using history_refl by (auto intro!: exI [of _ 0])

lemma traced_trans: "traced lo hi a b \<Longrightarrow> traced lo hi b c \<Longrightarrow> traced lo hi a c"
  unfolding traced_def
proof (intro conjI allI impI, goal_cases)
  case (2 d)
  then obtain d' m where m: "cn_sec b = Some d'" "logged (cn_out b) = logged (cn_out a) + m"
    "history lo hi (df_blacklist d) (df_blacklist d') (\<lambda>j. if j = cn_remoteIp a then m else 0)" by blast
  then obtain d'' n where n: "cn_sec c = Some d''" "logged (cn_out c) = logged (cn_out b) + n"
    "history lo hi (df_blacklist d') (df_blacklist d'') (\<lambda>j. if j = cn_remoteIp b then n else 0)" using 2 by blast
  have "(\<lambda>j. (if j = cn_remoteIp a then m else 0) + (if j = cn_remoteIp b then n else 0)) =
      (\<lambda>j. if j = cn_remoteIp a then m + n else 0)" using 2 by (auto simp: fun_eq_iff)
  then show ?case using history_trans [OF m(3) n(3)] m n by (intro exI [of _ d''] exI [of _ "m + n"]) simp
qed simp

lemma traced_report: "(\<And>k. lo \<le> clk k \<and> clk k \<le> hi) \<Longrightarrow> traced lo hi c (report ty d clk c)"
proof (cases "cn_sec c")
  case (Some df)
  assume t: "\<And>k. lo \<le> clk k \<and> clk k \<le> hi"
  obtain res bl where s: "strike (df_blacklist df) (cn_remoteIp c) (clk 0) = (res, bl)"
    by (cases "strike (df_blacklist df) (cn_remoteIp c) (clk 0)")
  have "history lo hi (df_blacklist df) bl (\<lambda>j. if j = cn_remoteIp c then Suc 0 else 0)"
    using history_strike [of lo "clk 0" hi "df_blacklist df" "cn_remoteIp c"] t s by simp
  then show ?thesis
    unfolding traced_def report_def security_report_def Some by (simp add: s)
qed (simp add: report_def traced_same)

lemma traced_allow: "(\<And>k. lo \<le> clk k \<and> clk k \<le> hi) \<Longrightarrow> traced lo hi c (snd (conn_allow clk c))"
proof (cases "cn_sec c")
  case (Some d)
  assume t: "\<And>k. lo \<le> clk k \<and> clk k \<le> hi"
  obtain b bl where i: "isBanned (df_blacklist d) (cn_remoteIp c) (clk 0) = (b, bl)"
    by (cases "isBanned (df_blacklist d) (cn_remoteIp c) (clk 0)")
  have h: "history lo hi (df_blacklist d) bl (\<lambda>j. 0)"
    using history_ask [of lo "clk 0" hi "df_blacklist d" "cn_remoteIp c"] t i by simp
  obtain ok d' where a: "allowFrame (cn_remoteIp c) clk d = (ok, d')" by (cases "allowFrame (cn_remoteIp c) clk d")
  have "df_blacklist d' = bl" using a i by (auto simp: allowFrame_def split: bool.splits prod.splits)
  then show ?thesis using h unfolding traced_def conn_allow_def Some by (auto simp: a intro!: exI [of _ 0])
qed (simp add: conn_allow_def traced_same)

lemma traced_emit: "\<not> is_logged e \<Longrightarrow> traced lo hi c (emit e c)"
  by (rule traced_same) simp_all

lemma traced_fail: "traced lo hi c (fail e c)"
  by (rule traced_same) (simp_all add: fail_def emit_def)

lemma traced_write: "write_frame f c = (r, c') \<Longrightarrow> traced lo hi c c'"
  by (rule traced_same) (auto simp: write_frame_def split: if_splits sum.splits)

lemma traced_rekey: "conn_rekey C nonce c = (r, c') \<Longrightarrow> traced lo hi c c'"
  by (rule traced_same) (auto simp: conn_rekey_def write_frame_def split: if_splits sum.splits option.splits)

lemma traced_auto: "maybeAutoRekey C nonce now c = (r, c') \<Longrightarrow> traced lo hi c c'"
  by (auto simp: maybeAutoRekey_def intro: traced_rekey traced_same split: if_splits)

lemma traced_send: "conn_send C ns now body c = (r, c') \<Longrightarrow> traced lo hi c c'"
proof -
  assume a: "conn_send C ns now body c = (r, c')"
  show ?thesis
  proof (cases "cn_session c")
    case None
    then show ?thesis using a by (simp add: conn_send_def traced_same)
  next
    case (Some s)
    let ?c = "c\<lparr>cn_txSeq := cn_txSeq c + 1\<rparr>"
    have t: "traced lo hi c ?c" by (rule traced_same) simp_all
    show ?thesis
    proof (cases "writeBigUInt64BE (int (cn_txSeq ?c))")
      case (Inl e)
      then show ?thesis using a Some t by (simp add: conn_send_def Let_def)
    next
      case (Inr q)
      obtain r2 c2 where w: "write_frame (seal C (ns 0) (CTRL_DATA # q @ body) s) ?c = (r2, c2)"
        by (cases "write_frame (seal C (ns 0) (CTRL_DATA # q @ body) s) ?c")
      have t2: "traced lo hi c c2" using t traced_write [OF w] traced_trans by blast
      show ?thesis
      proof (cases r2)
        case Inl
        then show ?thesis using a Some Inr w t2 by (simp add: conn_send_def Let_def)
      next
        case (Inr u)
        let ?c3 = "c2\<lparr>cn_rkMsgs := cn_rkMsgs c2 + 1, cn_rkBytes := cn_rkBytes c2 + length body\<rparr>"
        have m: "maybeAutoRekey C (ns 1) now ?c3 = (r, c')"
          using a Some \<open>writeBigUInt64BE (int (cn_txSeq ?c)) = Inr q\<close> w Inr by (simp add: conn_send_def Let_def)
        have "traced lo hi c2 ?c3" by (rule traced_same) simp_all
        then show ?thesis using t2 traced_auto [OF m] traced_trans by blast
      qed
    qed
  qed
qed

lemma traced_data:
  assumes "\<And>k. lo \<le> clk k \<and> clk k \<le> hi" and "handle_data clk pt c = (r, c')"
  shows "traced lo hi c c'"
proof -
  obtain ok c1 where m: "msgAllow c (clk 0) = (ok, c1)" by (cases "msgAllow c (clk 0)")
  have 1: "traced lo hi c c1"
    using m by (intro traced_same) (auto simp: msgAllow_def Let_def)
  have rep: "traced lo hi c1 (fail e (report ty x (\<lambda>k. clk (k + 1)) c1))" for e ty x
    by (rule traced_trans [OF traced_report traced_fail]) (use assms(1) in blast)
  have "c' = c \<or> c' \<in> {fail e (report ty x (\<lambda>k. clk (k + 1)) c1) | e ty x. True} \<or>
      (\<exists>s. c' = emit (Message (drop 9 pt)) (c1\<lparr>cn_rxSeq := s\<rparr>))"
    using assms(2) m unfolding handle_data_def by (auto split: if_splits sum.splits bool.splits)
  moreover have "traced lo hi c1 (emit (Message (drop 9 pt)) (c1\<lparr>cn_rxSeq := s\<rparr>))" for s
    by (rule traced_same) simp_all
  moreover have "traced lo hi c c" by (rule traced_same) simp_all
  ultimately show ?thesis using 1 rep traced_trans by blast
qed

lemma traced_transport:
  assumes "\<And>k. lo \<le> clk k \<and> clk k \<le> hi" and "handle_transport C ns clk f s c = (r, c')"
  shows "traced lo hi c c'"
proof (cases "open_sealed C f s")
  case (Inl e)
  then show ?thesis using assms(2) by (auto simp: handle_transport_def intro: traced_same)
next
  case (Inr pt)
  let ?ty = "if pt \<noteq> [] then hd pt else CTRL_DATA"
  show ?thesis
  proof (cases "?ty = CTRL_DATA")
    case True
    then have "handle_data clk pt c = (r, c')" using assms(2) Inr by (simp add: handle_transport_def split: if_splits)
    with assms(1) show ?thesis by (rule traced_data)
  next
    case False
    then show ?thesis using assms(2) Inr
      by (intro traced_same) (auto simp: handle_transport_def Let_def write_frame_def split: if_splits sum.splits)
  qed
qed

lemma traced_handshake: "handle_handshake C ks f c = (r, c') \<Longrightarrow> traced lo hi c c'"
  by (rule traced_same)
    (auto simp: handle_handshake_def write_frame_def split: hs.splits sum.splits prod.splits if_splits option.splits)

definition clocked :: "time \<Rightarrow> time \<Rightarrow> conn_op \<Rightarrow> bool" where
  "clocked lo hi op \<longleftrightarrow> (case op of OpData ns clk chunk \<Rightarrow> \<forall>i k. lo \<le> clk i k \<and> clk i k \<le> hi | _ \<Rightarrow> True)"

lemma traced_step:
  assumes "\<And>k. lo \<le> clk k \<and> clk k \<le> hi"
  shows "traced lo hi c (frame_step C ks ns clk f c)"
proof -
  obtain ok c1 where a: "conn_allow clk c = (ok, c1)" by (cases "conn_allow clk c")
  have 1: "traced lo hi c c1" using traced_allow [of lo clk hi c] assms a by simp
  have rep: "traced lo hi x (fail e (report ty d (\<lambda>k. clk (k + n)) x))" for x e ty d n
    by (rule traced_trans [OF traced_report traced_fail]) (use assms in blast)
  show ?thesis
  proof (cases ok)
    case False
    then show ?thesis using a traced_trans [OF 1 rep [where n = 2]] by (simp add: frame_step_def)
  next
    case True
    obtain r c2 where h: "handle_frame C ks ns (\<lambda>k. clk (k + 4)) f c1 = (r, c2)"
      by (cases "handle_frame C ks ns (\<lambda>k. clk (k + 4)) f c1")
    have "traced lo hi c1 c2"
    proof (cases "cn_session c1")
      case None
      then show ?thesis using h traced_handshake by (simp add: handle_frame_def)
    next
      case (Some s)
      then have "handle_transport C ns (\<lambda>k. clk (k + 4)) f s c1 = (r, c2)" using h by (simp add: handle_frame_def)
      then show ?thesis by (rule traced_transport [rotated]) (use assms in blast)
    qed
    with 1 have 2: "traced lo hi c c2" by (rule traced_trans)
    show ?thesis
      using True a h 2 traced_trans [OF 2 rep [where n = 8]] by (cases r) (simp_all add: frame_step_def)
  qed
qed

lemma traced_loop:
  assumes "\<And>i k. lo \<le> clk i k \<and> clk i k \<le> hi"
  shows "traced lo hi c (frame_loop C ks ns clk i fs c)"
proof (induction fs arbitrary: i c)
  case (Cons f fs)
  have 1: "traced lo hi c (frame_step C ks (ns i) (clk i) f c)" using assms by (intro traced_step)
  then show ?case using traced_trans [OF 1 Cons] by (simp add: Let_def)
qed (simp add: traced_same)

lemma traced_onData:
  assumes "\<And>i k. lo \<le> clk i k \<and> clk i k \<le> hi"
  shows "traced lo hi c (conn_onData C ks ns clk chunk c)"
proof -
  have d: "traced lo hi c (c\<lparr>cn_decoder := d\<rparr>)" for d by (rule traced_same) simp_all
  have rep: "traced lo hi x (fail e (report ty y (clk 0) x))" for x e ty y
    by (rule traced_trans [OF traced_report traced_fail]) (use assms in blast)
  show ?thesis
    using traced_trans [OF d rep] traced_trans [OF d traced_loop] assms
    by (simp add: conn_onData_def split: prod.split sum.split)
qed

lemma traced_apply: "clocked lo hi op \<Longrightarrow> traced lo hi c (conn_apply C ks op c)"
proof (cases op)
  case (OpSend ns now body)
  then show ?thesis using traced_send by (cases "conn_send C ns now body c") auto
next
  case (OpRekey nonce)
  then show ?thesis using traced_rekey by (cases "conn_rekey C nonce c") auto
next
  case (OpClose nonce)
  have "traced lo hi c (snd (write_frame f c))" for f using traced_write by (cases "write_frame f c") auto
  moreover have "traced lo hi c c" by (rule traced_same) simp_all
  ultimately show ?thesis
    unfolding OpClose conn_apply.simps conn_close_def
    by (auto intro: traced_trans [OF _ traced_emit] split: option.split)
next
  case (OpData ns clk chunk)
  assume "clocked lo hi op"
  then show ?thesis using OpData traced_onData by (auto simp: clocked_def intro: traced_same)
next
  case (OpTimer nonce now)
  then show ?thesis using traced_auto
    by (cases "maybeAutoRekey C nonce now c") (auto simp: conn_onRekeyTimer_def intro: traced_same)
next
  case OpTimeout
  have "traced lo hi c (c\<lparr>cn_timeout := False\<rparr>)" by (rule traced_same) simp_all
  from traced_trans [OF this traced_fail] show ?thesis
    unfolding OpTimeout by (auto simp: conn_onTimeout_def intro: traced_same)
next
  case OpSockClose
  show ?thesis unfolding OpSockClose by (rule traced_same) (simp_all add: conn_onClose_def)
next
  case OpSockError
  then show ?thesis using traced_fail by (simp add: conn_onError_def)
qed

section \<open>The server as a whole\<close>

text \<open>The infractions of an address that the server's connections have logged.\<close>

definition infractions_of :: "ip \<Rightarrow> secure_server \<Rightarrow> nat" where
  "infractions_of ip S = sum_list (map (\<lambda>(h, c). if cn_remoteIp c = ip then logged (cn_out c) else 0) (se_conns S))"

lemma sum_set_new:
  "jm_get m k = None \<Longrightarrow> sum_list (map f (jm_set m k v)) = sum_list (map f m) + (f (k, v) :: nat)"
  by (induction m) (auto simp: jm_get_def split: if_splits)

lemma sum_set_old:
  "jm_get m k = Some u \<Longrightarrow> f (k, v) = f (k, u) + n \<Longrightarrow> sum_list (map f (jm_set m k v)) = sum_list (map f m) + (n :: nat)"
  by (induction m) (auto simp: jm_get_def split: if_splits)

fun se_within :: "time \<Rightarrow> time \<Rightarrow> se_event \<Rightarrow> bool" where
  "se_within lo hi (SeConnect h ip e clk) = (\<forall>k. lo \<le> clk k \<and> clk k \<le> hi)"
| "se_within lo hi (SeConn h op) = clocked lo hi op"
| "se_within lo hi (SeCleanup clk) = (\<forall>k. lo \<le> clk k \<and> clk k \<le> hi)"

lemma new_conn_quiet:
  "new_conn C ks False sec mx pol e clk ip = Inr c \<Longrightarrow> cn_remoteIp c = ip \<and> logged (cn_out c) = 0"
  by (auto simp: new_conn_def bind_res_eq_Inr)

definition se_history :: "time \<Rightarrow> time \<Rightarrow> secure_server \<Rightarrow> secure_server \<Rightarrow> bool" where
  "se_history lo hi S S' \<longleftrightarrow> (\<exists>n. history lo hi (df_blacklist (se_defence S)) (df_blacklist (se_defence S')) n \<and>
     (\<forall>j. infractions_of j S' = infractions_of j S + n j))"

lemma se_history_trans: "se_history lo hi a b \<Longrightarrow> se_history lo hi b c \<Longrightarrow> se_history lo hi a c"
  unfolding se_history_def using history_trans by fastforce

lemma se_step_history:
  assumes "se_within lo hi e"
  shows "se_history lo hi S (se_step C ks e S)"
proof (cases e)
  case (SeConnect h ip x clk)
  obtain b bl where i: "isBanned (df_blacklist (se_defence S)) ip (clk 0) = (b, bl)"
    by (cases "isBanned (df_blacklist (se_defence S)) ip (clk 0)")
  have h: "history lo hi (df_blacklist (se_defence S)) bl (\<lambda>j. 0)"
    using history_ask [of lo "clk 0" hi "df_blacklist (se_defence S)" ip] assms SeConnect i by simp
  show ?thesis
  proof (cases "jm_has (se_conns S) h")
    case True
    then show ?thesis using SeConnect history_refl by (auto simp: se_history_def)
  next
    case False
    then have n: "jm_get (se_conns S) h = None" by (simp add: jm_has_def)
    have "df_blacklist (se_defence (se_connect C ks h ip x clk S)) = bl \<and>
        infractions_of j (se_connect C ks h ip x clk S) = infractions_of j S" for j
      unfolding se_connect_def i
      by (auto simp: Let_def infractions_of_def sum_set_new [OF n] dest!: new_conn_quiet split: sum.split)
    then show ?thesis using h SeConnect False by (auto simp: se_history_def)
  qed
next
  case (SeConn h op)
  show ?thesis
  proof (cases "jm_get (se_conns S) h")
    case None
    then show ?thesis using SeConn history_refl by (auto simp: se_history_def se_conn_def)
  next
    case (Some c)
    let ?c = "c\<lparr>cn_sec := Some (se_defence S)\<rparr>"
    let ?d = "conn_apply C ks op ?c"
    have "traced lo hi ?c ?d" using assms SeConn traced_apply by simp
    then obtain d' n where d: "cn_sec ?d = Some d'" "logged (cn_out ?d) = logged (cn_out c) + n"
      "history lo hi (df_blacklist (se_defence S)) (df_blacklist d') (\<lambda>j. if j = cn_remoteIp c then n else 0)"
      "cn_remoteIp ?d = cn_remoteIp c" unfolding traced_def by auto
    have "se_step C ks e S = S\<lparr>se_conns := jm_set (se_conns S) h ?d, se_defence := d'\<rparr>"
      using SeConn Some d(1) by (simp add: se_conn_def Let_def)
    moreover have "infractions_of j (S\<lparr>se_conns := jm_set (se_conns S) h ?d, se_defence := d'\<rparr>) =
        infractions_of j S + (if j = cn_remoteIp c then n else 0)" for j
      unfolding infractions_of_def using d(2,4)
      by (simp add: sum_set_old [OF Some, where n = "if j = cn_remoteIp c then n else 0"])
    ultimately show ?thesis using d(3) by (auto simp: se_history_def)
  qed
next
  case (SeCleanup clk)
  have "history lo hi (df_blacklist (se_defence S)) (bl_cleanup (df_blacklist (se_defence S)) (clk 1)) (\<lambda>j. 0)"
    using assms SeCleanup by (intro history_sweep) auto
  then show ?thesis unfolding SeCleanup
    by (auto simp: se_history_def se_cleanup_def defence_cleanup_def infractions_of_def)
qed

lemma se_run_history: "\<forall>e \<in> set es. se_within lo hi e \<Longrightarrow> se_history lo hi S (se_run C ks es S)"
proof (induction es arbitrary: S)
  case Nil
  then show ?case using history_refl by (auto simp: se_history_def)
next
  case (Cons e es)
  then have "se_history lo hi S (se_step C ks e S)" by (intro se_step_history) simp
  with Cons show ?case using se_history_trans by auto
qed

lemma banned_onData:
  assumes "cn_sec c = Some d" and "\<forall>i. isBanned (df_blacklist d) (cn_remoteIp c) (clk i 0) = (True, df_blacklist d)"
  shows "delivered (cn_out (conn_onData C ks ns clk chunk c)) = delivered (cn_out c)"
proof -
  have a: "\<exists>d'. conn_allow (clk i) (c\<lparr>cn_decoder := x\<rparr>) = (False, c\<lparr>cn_decoder := x, cn_sec := Some d'\<rparr>)" for i x
    using assms by (auto simp: conn_allow_def allowFrame_def)
  have s: "cn_closed (frame_step C ks n (clk i) f (c\<lparr>cn_decoder := x\<rparr>)) \<and>
      delivered (cn_out (frame_step C ks n (clk i) f (c\<lparr>cn_decoder := x\<rparr>))) = delivered (cn_out c)" for n i f x
    using a [of i x] by (auto simp: frame_step_def)
  show ?thesis
  proof (cases "push (cn_decoder c) chunk")
    case (Pair r x)
    show ?thesis
    proof (cases r)
      case (Inr fs)
      then show ?thesis using Pair s by (cases fs) (simp_all add: conn_onData_def Let_def)
    qed (simp add: Pair conn_onData_def)
  qed
qed

section \<open>Properties\<close>


text \<open>Five connections that announce a frame that is too long, for the witness.\<close>

definition attack_round :: "nat \<Rightarrow> se_event list" where
  "attack_round i = [SeConnect i ''a'' (replicate 32 3) (\<lambda>k. 0),
     SeConn i (OpData (\<lambda>i k. []) (\<lambda>i k. 0) [255, 255, 255, 255])]"

lemma oversize_push: "push (new_frame_decoder SESSION_MAX_FRAME) [255, 255, 255, 255] =
    (Inl (FrameTooLarge 4294967295 SESSION_MAX_FRAME), (new_frame_decoder SESSION_MAX_FRAME)\<lparr>fd_buf := [255, 255, 255, 255]\<rparr>)"
  by (simp add: push_def push_loop.simps new_frame_decoder_def SESSION_MAX_FRAME_def be_val_def Let_def)

abbreviation demo_keys :: keystore where
  "demo_keys \<equiv> keystore_of demo_crypto (replicate 32 7)"

lemma demo_responder: "\<exists>h. new_responder demo_crypto demo_keys (replicate 32 3) = Inr h"
  by (simp add: new_responder_def ensureReady_def)

lemma attack_round:
  assumes "isBanned (df_blacklist (se_defence S)) ''a'' 0 = (False, df_blacklist (se_defence S))"
    and "jm_get (se_conns S) i = None" and "S' = se_run demo_crypto demo_keys (attack_round i) S"
  shows "df_blacklist (se_defence S') = snd (strike (df_blacklist (se_defence S)) ''a'' 0) \<and>
    infractions_of ''a'' S' = Suc (infractions_of ''a'' S) \<and> se_log S' = se_log S \<and>
    (\<forall>j. j \<noteq> i \<longrightarrow> jm_get (se_conns S') j = jm_get (se_conns S) j)"
proof -
  obtain h where h: "new_responder demo_crypto demo_keys (replicate 32 3) = Inr h" using demo_responder by blast
  define c where "c = init_conn False (Some (se_defence S)) (se_maxMsg S) (se_policy S) (\<lambda>k. 0) ''a'' (HsR h)"
  define S1 where "S1 = S\<lparr>se_conns := jm_set (se_conns S) i c\<rparr>"
  have 1: "se_step demo_crypto demo_keys (SeConnect i ''a'' (replicate 32 3) (\<lambda>k. 0)) S = S1"
    using assms(1,2) h by (simp add: se_connect_def new_conn_def jm_has_def S1_def c_def Let_def)
  let ?c = "c\<lparr>cn_sec := Some (se_defence S)\<rparr>"
  have c: "cn_decoder ?c = new_frame_decoder SESSION_MAX_FRAME" "cn_out ?c = []" "cn_remoteIp ?c = ''a''" "\<not> cn_closed ?c"
    by (simp_all add: c_def)
  obtain res bl where st: "strike (df_blacklist (se_defence S)) ''a'' 0 = (res, bl)"
    by (cases "strike (df_blacklist (se_defence S)) ''a'' 0")
  define d where "d = conn_apply demo_crypto demo_keys (OpData (\<lambda>i k. []) (\<lambda>i k. 0) [255, 255, 255, 255]) ?c"
  have d: "cn_sec d = Some ((se_defence S)\<lparr>df_blacklist := bl\<rparr>)" "logged (cn_out d) = 1" "cn_remoteIp d = ''a''"
    using c st by (simp_all add: d_def sock_alive_def conn_onData_def oversize_push report_def security_report_def
      fail_def emit_def)
  have S': "S' = S1\<lparr>se_conns := jm_set (se_conns S1) i d, se_defence := (se_defence S)\<lparr>df_blacklist := bl\<rparr>\<rparr>"
    unfolding assms(3) attack_round_def se_run.simps 1
    using d(1) by (simp add: se_conn_def S1_def d_def Let_def)
  have "jm_get (se_conns S1) i = Some c" by (simp add: S1_def)
  note old = sum_set_old [OF this, where f = "\<lambda>(h, c). if cn_remoteIp c = ''a'' then logged (cn_out c) else 0" and n = 1 and v = d]
  have "infractions_of ''a'' S' = Suc (infractions_of ''a'' S)"
    using old d c sum_set_new [OF assms(2), where f = "\<lambda>(h, c). if cn_remoteIp c = ''a'' then logged (cn_out c) else 0"]
    by (simp add: infractions_of_def S' S1_def)
  then show ?thesis using st by (simp add: S' S1_def)
qed


end
