(* ===== verification/Node.thy ===== *)
theory Node
  imports Trust Gemini Paths Discovery SecureServer FileTransfer
begin

text \<open>
  \<open>src/node/attestp2pNode.js\<close>: the node that multiplexes chat and file transfer over its sessions, with
  the assistant, the approvals and the table of discovered peers. The state is the record \<open>p2p_node\<close>.

  A session is a number, the order in which it was attached; \<open>nd_conns\<close> holds the sessions whose \<open>close\<close> has
  not come. The bytes it carries are those of \<^theory_text>\<open>SecureConn\<close>: \<open>NSend\<close> is a call of its \<open>send\<close>, a message
  operation is its \<open>message\<close> event. The disk is \<open>nd_fs\<close> (regular files), libsodium, the keys, the key of the
  assistant, \<open>AI_CONTEXT_MESSAGES\<close> and the outcome of a connection attempt are in the record \<open>node_world\<close>.
  The queries to the assistant that have not come back are \<open>nd_pending\<close>; an answer is an operation of its own.
\<close>

section \<open>State\<close>

definition CHAT :: byte where "CHAT = 0x20"

record node_world =
  nw_crypto :: crypto
  nw_keys :: keystore
  nw_ai :: ai_env
  nw_context :: int
  nw_connect :: "json \<Rightarrow> string \<Rightarrow> unit res"

datatype node_effect =
    NPeerConnected string | NChat string string | NAiReply string string | NFileAvailable manifest
  | NSend nat bytes | NFetch string string | NConnect json string | NStopped

record ask =
  ak_peer :: string
  ak_failed :: "ai_error option"

record p2p_node =
  nd_selfHex :: string
  nd_tcpPort :: nat
  nd_securePort :: nat
  nd_controlPort :: nat
  nd_controlHost :: string
  nd_dataDir :: string
  nd_downloadDir :: string
  nd_noAi :: bool
  nd_startedAt :: time
  nd_sessionsByPeer :: "(string, nat) jsmap"
  nd_threads :: "(string, chat_entry list) jsmap"
  nd_availableFiles :: "(string, manifest \<times> string) jsmap"
  nd_file :: file_node
  nd_trust :: trust_store
  nd_discovery :: discovery
  nd_server :: secure_server
  nd_conns :: "(nat, fsession) jsmap"
  nd_pending :: "ask list"
  nd_fs :: "string \<Rightarrow> bytes option"
  nd_out :: "node_effect list"

definition nd_emit :: "node_effect \<Rightarrow> p2p_node \<Rightarrow> p2p_node" where
  "nd_emit e n = n\<lparr>nd_out := nd_out n @ [e]\<rparr>"

section \<open>Start\<close>

text \<open>The options of the constructor; \<open>0\<close>, the empty text and \<open>undefined\<close> give the default.\<close>

record node_options =
  no_securePort :: "nat option"
  no_tcpPort :: "nat option"
  no_controlPort :: "nat option"
  no_controlHost :: "string option"
  no_dataDir :: "string option"
  no_downloadDir :: "string option"
  no_noAi :: bool
  no_bootstrap :: "string list"

definition SESSION_MAX_MSG :: "int option" where "SESSION_MAX_MSG = Some (10 ^ 6)"
definition SESSION_POLICY :: "int option \<times> int option \<times> int option" where
  "SESSION_POLICY = (Some (10 ^ 9), Some (10 ^ 15), Some (10 ^ 9))"

definition session_server :: secure_server where
  "session_server = startSecureServer None (Some (new_rate_limiter (10 ^ 6) 1000)) SESSION_MAX_MSG SESSION_POLICY"

text \<open>\<open>start\<close> reads the store's index, the approvals and the identity. What remains of the disk is \<open>fs\<close>.\<close>

definition new_node ::
    "node_world \<Rightarrow> node_options \<Rightarrow> string \<Rightarrow> time \<Rightarrow> store_disk \<Rightarrow> string option \<Rightarrow> string \<Rightarrow>
     (string \<Rightarrow> bytes option) \<Rightarrow> p2p_node res" where
  "new_node W opts cwd now disk trustText name fs =
     (let secure = nat_or (no_securePort opts) 7778; tcp = nat_or (no_tcpPort opts) 7777;
          data = str_or (no_dataDir opts) (path_join [cwd, ''.attestp2p'']) in
      bind_res (getPublicKey (nw_keys W)) (\<lambda>selfId.
      bind_res (new_trust_store trustText) (\<lambda>tr.
      bind_res (startDiscovery (Some selfId) (Some tcp) (Some secure) name) (\<lambda>disc.
        Inr \<lparr>nd_selfHex = hex_of_bytes selfId, nd_tcpPort = tcp, nd_securePort = secure,
             nd_controlPort = nat_or (no_controlPort opts) (secure + 1000),
             nd_controlHost = str_or (no_controlHost opts) ''127.0.0.1'', nd_dataDir = data,
             nd_downloadDir = str_or (no_downloadDir opts) (path_join [data, ''downloads'']),
             nd_noAi = no_noAi opts, nd_startedAt = now, nd_sessionsByPeer = [], nd_threads = [],
             nd_availableFiles = [], nd_file = new_file_node (open_store disk) 8, nd_trust = tr,
             nd_discovery = disc, nd_server = session_server, nd_conns = [], nd_pending = [], nd_fs = fs,
             nd_out = []\<rparr>))))"

definition nd_connect :: "node_world \<Rightarrow> string \<Rightarrow> json \<Rightarrow> p2p_node \<Rightarrow> unit res \<times> p2p_node" where
  "nd_connect W host port n =
     (case nw_connect W port host of
        Inl e \<Rightarrow> (Inl e, n)
      | Inr _ \<Rightarrow> (Inr (), nd_emit (NConnect port host) n))"

text \<open>\<open>slice(0, i)\<close> and \<open>slice(i + 1)\<close> around the last colon; without one \<open>i\<close> is \<open>-1\<close>.\<close>

definition host_port :: "string \<Rightarrow> string \<times> string" where
  "host_port hp =
     (let after = takeWhile (\<lambda>c. c \<noteq> CHR '':'') (rev hp) in
      if CHR '':'' \<in> set hp then (take (length hp - length after - 1) hp, rev after) else (butlast hp, hp))"

fun nd_bootstrap :: "node_world \<Rightarrow> string list \<Rightarrow> p2p_node \<Rightarrow> unit res \<times> p2p_node" where
  "nd_bootstrap W [] n = (Inr (), n)"
| "nd_bootstrap W (hp # hps) n =
     (case nd_connect W (fst (host_port hp)) (JStr (snd (host_port hp))) n of
        (Inl e, n) \<Rightarrow> (Inl e, n)
      | (Inr _, n) \<Rightarrow> nd_bootstrap W hps n)"

definition runtime_json :: "p2p_node \<Rightarrow> nat \<Rightarrow> json" where
  "runtime_json n pid =
     JObj [(''nodeId'', JStr (nd_selfHex n)), (''tcpPort'', JNum (int (nd_tcpPort n))),
       (''securePort'', JNum (int (nd_securePort n))), (''controlPort'', JNum (int (nd_controlPort n))),
       (''controlHost'', JStr (nd_controlHost n)), (''pid'', JNum (int pid))]"

section \<open>Threads and the assistant\<close>

definition nd_thread :: "p2p_node \<Rightarrow> string \<Rightarrow> chat_entry list" where
  "nd_thread n peer = (case jm_get (nd_threads n) peer of None \<Rightarrow> [] | Some t \<Rightarrow> t)"

definition ensure_thread :: "string \<Rightarrow> p2p_node \<Rightarrow> p2p_node" where
  "ensure_thread peer n =
     (if jm_has (nd_threads n) peer then n else n\<lparr>nd_threads := jm_set (nd_threads n) peer []\<rparr>)"

definition push_entry :: "string \<Rightarrow> chat_entry \<Rightarrow> p2p_node \<Rightarrow> p2p_node" where
  "push_entry peer e n = n\<lparr>nd_threads := jm_set (nd_threads n) peer (nd_thread n peer @ [e])\<rparr>"

text \<open>\<open>slice(- k)\<close>.\<close>

definition slice_last :: "int \<Rightarrow> 'a list \<Rightarrow> 'a list" where
  "slice_last k xs = (if 0 < k then drop (length xs - nat k) xs else drop (nat (- k)) xs)"

definition ai_reply :: "string \<Rightarrow> string \<Rightarrow> time \<Rightarrow> p2p_node \<Rightarrow> p2p_node" where
  "ai_reply peer reply now n =
     nd_emit (NAiReply peer reply) (push_entry peer \<lparr>ce_dir = ChatAi, ce_text = reply, ce_ts = now\<rparr> n)"

text \<open>
  \<open>askAI\<close> up to its \<open>await\<close>. Without \<open>--no-ai\<close> the reply comes later, also when the request was never made.
\<close>

definition askAI :: "node_world \<Rightarrow> string \<Rightarrow> string \<Rightarrow> time \<Rightarrow> p2p_node \<Rightarrow> p2p_node" where
  "askAI W peer query now n =
     (let n = ensure_thread peer n; context = slice_last (nw_context W) (nd_thread n peer) in
      if nd_noAi n then ai_reply peer ''[IA desactivee - mode --no-ai]'' now n
      else
        (case gemini_request (nw_ai W) context query of
           Inl e \<Rightarrow> n\<lparr>nd_pending := nd_pending n @ [\<lparr>ak_peer = peer, ak_failed = Some e\<rparr>]\<rparr>
         | Inr (address, body) \<Rightarrow>
             nd_emit (NFetch address body) (n\<lparr>nd_pending := nd_pending n @ [\<lparr>ak_peer = peer, ak_failed = None\<rparr>]\<rparr>)))"

definition fallback :: "ai_error + string \<Rightarrow> string" where
  "fallback r =
     (case r of
        Inr reply \<Rightarrow> reply
      | Inl (code, msg) \<Rightarrow> ''[IA indisponible ('' @ str_or code ''ERR'' @ '') : '' @ msg @ '']'')"

text \<open>What comes after the \<open>await\<close>, for the \<open>i\<close>-th query in flight.\<close>

definition ai_answer :: "nat \<Rightarrow> fetch_outcome \<Rightarrow> time \<Rightarrow> p2p_node \<Rightarrow> p2p_node" where
  "ai_answer i out now n =
     (if length (nd_pending n) \<le> i then n
      else
        (let a = nd_pending n ! i;
             r = (case ak_failed a of Some e \<Rightarrow> Inl e | None \<Rightarrow> gemini_answer out) in
         ai_reply (ak_peer a) (fallback r) now
           (n\<lparr>nd_pending := take i (nd_pending n) @ drop (Suc i) (nd_pending n)\<rparr>)))"

section \<open>The triggers\<close>

definition word_char :: "char \<Rightarrow> bool" where
  "word_char c =
     (let n = (of_char c :: nat) in 48 \<le> n \<and> n \<le> 57 \<or> 65 \<le> n \<and> n \<le> 90 \<or> 97 \<le> n \<and> n \<le> 122 \<or> n = 95)"

text \<open>After a word character, \<open>\b\<close> holds where the text ends or goes on with another kind of character.\<close>

definition word_ends :: "string \<Rightarrow> bool" where
  "word_ends t = (case t of [] \<Rightarrow> True | c # r \<Rightarrow> \<not> word_char c)"

definition at_ai :: string where "at_ai = ''@attestp2p-ai''"

fun mentions_ai :: "string \<Rightarrow> bool" where
  "mentions_ai [] = False"
| "mentions_ai (c # t) = (take 13 (c # t) = at_ai \<and> word_ends (drop 13 (c # t)) \<or> mentions_ai t)"

definition isAiTrigger :: "string \<Rightarrow> bool" where
  "isAiTrigger t =
     (mentions_ai t \<or> (let u = skip_spaces t in take 4 u = ''/ask'' \<and> word_ends (drop 4 u)))"

fun remove_ai :: "nat \<Rightarrow> string \<Rightarrow> string" where
  "remove_ai k [] = ''''"
| "remove_ai 0 (c # t) = (if take 13 (c # t) = at_ai then remove_ai 12 t else c # remove_ai 0 t)"
| "remove_ai (Suc k) (c # t) = remove_ai k t"

definition stripTrigger :: "string \<Rightarrow> string" where
  "stripTrigger t =
     (let u = remove_ai 0 t; v = skip_spaces u in
      trim (if take 4 v = ''/ask'' then skip_spaces (drop 4 v) else u))"

section \<open>Sessions\<close>

definition nd_attach :: "nat \<Rightarrow> bytes \<Rightarrow> p2p_node \<Rightarrow> p2p_node" where
  "nd_attach h peerId n =
     (let peer = hex_of_bytes peerId;
          n = n\<lparr>nd_sessionsByPeer := jm_set (nd_sessionsByPeer n) peer h\<rparr> in
      case attachSession peerId (nd_file n) of
        (k, f) \<Rightarrow>
          nd_emit (NPeerConnected peer)
            (n\<lparr>nd_file := f, nd_conns := jm_set (nd_conns n) h \<lparr>fs_peerId = peerId, fs_peerHex = k\<rparr>\<rparr>))"

text \<open>The \<open>close\<close> event: the listener of the file node comes first.\<close>

definition nd_onClose :: "mixer \<Rightarrow> nat \<Rightarrow> p2p_node \<Rightarrow> p2p_node" where
  "nd_onClose mix h n =
     (case jm_get (nd_conns n) h of None \<Rightarrow> n
      | Some s \<Rightarrow>
          (let peer = hex_of_bytes (fs_peerId s);
               n = n\<lparr>nd_file := onClose mix (fs_peerHex s) (nd_file n), nd_conns := jm_delete (nd_conns n) h\<rparr> in
           if jm_get (nd_sessionsByPeer n) peer = Some h
           then n\<lparr>nd_sessionsByPeer := jm_delete (nd_sessionsByPeer n) peer\<rparr> else n))"

text \<open>The listener of the file node's \<open>manifest\<close> event, for the events of one call.\<close>

fun nd_offers :: "fn_effect list \<Rightarrow> p2p_node \<Rightarrow> p2p_node" where
  "nd_offers [] n = n"
| "nd_offers (FManifest m # es) n =
     nd_offers es (nd_emit (NFileAvailable m)
       (n\<lparr>nd_availableFiles := jm_set (nd_availableFiles n) (mf_file_id m) (m, take 8 (mf_sender_id m))\<rparr>))"
| "nd_offers (e # es) n = nd_offers es n"

text \<open>An \<open>error\<close> event of the file node has no listener, and is thrown by \<open>emit\<close>.\<close>

definition thrown :: "fn_effect list \<Rightarrow> unit res" where
  "thrown es = (case List.find (\<lambda>e. case e of FError x \<Rightarrow> True | _ \<Rightarrow> False) es of Some (FError x) \<Rightarrow> Inl x | _ \<Rightarrow> Inr ())"

definition nd_fileMessage :: "node_world \<Rightarrow> mixer \<Rightarrow> fsession \<Rightarrow> bytes \<Rightarrow> p2p_node \<Rightarrow> unit res \<times> p2p_node" where
  "nd_fileMessage W mix s buf n =
     (case handleMessage (nw_crypto W) (nw_keys W) manifest_of_bytes mix s buf (nd_file n) of
        (r, f) \<Rightarrow>
          (let es = drop (length (fn_out (nd_file n))) (fn_out f);
               n = nd_offers es (n\<lparr>nd_file := f\<rparr>) in
           (case r of Inl e \<Rightarrow> Inl e | Inr _ \<Rightarrow> thrown es, n)))"

definition nd_onChat :: "node_world \<Rightarrow> fsession \<Rightarrow> bytes \<Rightarrow> clock \<Rightarrow> p2p_node \<Rightarrow> p2p_node" where
  "nd_onChat W s textBuf clk n =
     (let peer = hex_of_bytes (fs_peerId s); text = buf_text textBuf;
          n = nd_emit (NChat peer text) (push_entry peer \<lparr>ce_dir = ChatIn, ce_text = text, ce_ts = clk 0\<rparr> n) in
      if isAiTrigger text then askAI W peer (stripTrigger text) (clk 1) n else n)"

text \<open>\<open>_route\<close>; the first byte of an empty message is \<open>undefined\<close>.\<close>

definition nd_route :: "node_world \<Rightarrow> mixer \<Rightarrow> fsession \<Rightarrow> bytes \<Rightarrow> clock \<Rightarrow> p2p_node \<Rightarrow> unit res \<times> p2p_node" where
  "nd_route W mix s buf clk n =
     (case buf of
        [] \<Rightarrow> (Inr (), n)
      | t # rest \<Rightarrow>
          if 0x10 \<le> t \<and> t \<le> 0x15 then nd_fileMessage W mix s buf n
          else if t = CHAT then (Inr (), nd_onChat W s rest clk n)
          else (Inr (), n))"

section \<open>What the user asks for\<close>

text \<open>\<open>sent\<close> is the outcome of the session's \<open>send\<close>.\<close>

definition nd_sendMessage :: "node_world \<Rightarrow> string \<Rightarrow> string \<Rightarrow> unit res \<Rightarrow> clock \<Rightarrow> p2p_node \<Rightarrow> unit res \<times> p2p_node" where
  "nd_sendMessage W peer text sent clk n =
     (case jm_get (nd_sessionsByPeer n) peer of
        None \<Rightarrow> (Inl NoSession, n)
      | Some h \<Rightarrow>
          (let n = nd_emit (NSend h (CHAT # text_bytes text)) n in
           case sent of
             Inl e \<Rightarrow> (Inl e, n)
           | Inr _ \<Rightarrow>
               (let n = push_entry peer \<lparr>ce_dir = ChatOut, ce_text = text, ce_ts = clk 0\<rparr> n in
                (Inr (), if isAiTrigger text then askAI W peer (stripTrigger text) (clk 1) n else n))))"

definition nd_sendFile :: "node_world \<Rightarrow> string \<Rightarrow> p2p_node \<Rightarrow> manifest res \<times> p2p_node" where
  "nd_sendFile W path n =
     (if nd_fs n path = None then (Inl FileNotFound, n)
      else
        (case buildManifest (nw_crypto W) (nw_keys W) (nd_fs n) None None None path of
           Inl e \<Rightarrow> (Inl e, n)
         | Inr m \<Rightarrow>
             (case seed (nw_crypto W) (nd_fs n) m path (nd_file n) of
                (Inl e, f) \<Rightarrow> (Inl e, n\<lparr>nd_file := f\<rparr>)
              | (Inr _, f) \<Rightarrow> (Inr m, n\<lparr>nd_file := f\<rparr>))))"

text \<open>
  The regular expression replaces each UTF-16 unit that is not a word character, a dot, a dash or a space:
  one underscore for a character of up to three bytes, two for one of four.
\<close>

definition safe_char :: "char \<Rightarrow> string" where
  "safe_char c =
     (if word_char c \<or> c \<in> {CHR ''.'', CHR ''-'', CHR '' ''} then [c]
      else if 0x80 \<le> (of_char c :: nat) \<and> (of_char c :: nat) < 0xC0 then ''''
      else if 0xF0 \<le> (of_char c :: nat) then ''__'' else ''_'')"

definition safe_name :: "string option \<Rightarrow> string" where
  "safe_name filename =
     (let s = concat (map safe_char (basename (str_or filename ''fichier.bin''))) in
      if s = '''' then ''fichier.bin'' else s)"

definition shared_path :: "p2p_node \<Rightarrow> string option \<Rightarrow> string" where
  "shared_path n filename = path_join [path_join [nd_dataDir n, ''shared''], safe_name filename]"

text \<open>\<open>written\<close> is the outcome of \<open>writeFileSync\<close>.\<close>

definition nd_uploadAndShare :: "node_world \<Rightarrow> string option \<Rightarrow> bytes \<Rightarrow> unit res \<Rightarrow> p2p_node \<Rightarrow> manifest res \<times> p2p_node" where
  "nd_uploadAndShare W filename buffer written n =
     (let fp = shared_path n filename in
      case written of
        Inl e \<Rightarrow> (Inl e, n)
      | Inr _ \<Rightarrow> nd_sendFile W fp (n\<lparr>nd_fs := (nd_fs n)(fp := Some buffer)\<rparr>))"

definition listAvailable :: "p2p_node \<Rightarrow> (manifest \<times> string) list" where
  "listAvailable n = map snd (nd_availableFiles n)"

text \<open>\<open>download\<close>: the path it writes to, and the transfer under way.\<close>

definition nd_download :: "node_world \<Rightarrow> mixer \<Rightarrow> string \<Rightarrow> p2p_node \<Rightarrow> string res \<times> p2p_node" where
  "nd_download W mix fileId n =
     (case (case jm_get (nd_availableFiles n) fileId of Some (m, from) \<Rightarrow> Some m
            | None \<Rightarrow> jm_get (fn_manifests (nd_file n)) fileId) of
        None \<Rightarrow> (Inl UnknownManifest, n)
      | Some m \<Rightarrow>
          (let out = path_join [nd_downloadDir n, mf_filename m] in
           (Inr out, n\<lparr>nd_file := fn_download (nw_crypto W) mix m out (Some 16) (nd_file n)\<rparr>)))"

definition trustPeer :: "json \<Rightarrow> p2p_node \<Rightarrow> json list \<times> p2p_node" where
  "trustPeer nodeId n = (let n = n\<lparr>nd_trust := trust nodeId (nd_trust n)\<rparr> in (trust_list (nd_trust n), n))"

record peer_row =
  pr_nodeId :: string
  pr_address :: string
  pr_securePort :: "json option"
  pr_connected :: bool

definition session_row :: "(string, peer_row) jsmap \<Rightarrow> string \<Rightarrow> (string, peer_row) jsmap" where
  "session_row byId i =
     (let e = (case jm_get byId i of Some e \<Rightarrow> e
               | None \<Rightarrow> \<lparr>pr_nodeId = i, pr_address = ''session'', pr_securePort = Some JNull, pr_connected = False\<rparr>) in
      jm_set byId i (e\<lparr>pr_connected := True\<rparr>))"

definition peer_rows :: "p2p_node \<Rightarrow> (string, peer_row) jsmap" where
  "peer_rows n =
     foldl session_row
       (foldl (\<lambda>m (i, p). jm_set m i \<lparr>pr_nodeId = i, pr_address = dp_address p, pr_securePort = dp_securePort p,
                                      pr_connected = False\<rparr>) [] (getPeers (nd_discovery n)))
       (jm_keys (nd_sessionsByPeer n))"

text \<open>Each row with the two flags \<open>trusted\<close> and \<open>self\<close>.\<close>

definition peersList :: "p2p_node \<Rightarrow> (peer_row \<times> bool \<times> bool) list" where
  "peersList n =
     map (\<lambda>(i, e). (e, isTrusted (JStr (pr_nodeId e)) (nd_trust n), pr_nodeId e = nd_selfHex n)) (peer_rows n)"

definition nd_status :: "time \<Rightarrow> p2p_node \<Rightarrow> json" where
  "nd_status now n =
     JObj [(''nodeId'', JStr (nd_selfHex n)), (''tcpPort'', JNum (int (nd_tcpPort n))),
       (''securePort'', JNum (int (nd_securePort n))), (''controlPort'', JNum (int (nd_controlPort n))),
       (''controlHost'', JStr (nd_controlHost n)),
       (''peersDiscovered'', JNum (int (length (getPeers (nd_discovery n))))),
       (''sessions'', JNum (int (jm_size (nd_sessionsByPeer n)))),
       (''filesLocal'', JNum (int (length (jm_keys (cs_files (fn_store (nd_file n))))))),
       (''filesAvailable'', JNum (int (length (jm_keys (nd_availableFiles n))))),
       (''trusted'', JNum (int (length (trust_list (nd_trust n))))), (''aiEnabled'', JBool (\<not> nd_noAi n)),
       (''uptimeSec'', JNum ((now - nd_startedAt n) div 1000))]"

definition nd_getThread :: "string \<Rightarrow> p2p_node \<Rightarrow> chat_entry list \<times> p2p_node" where
  "nd_getThread peer n = (let n = ensure_thread peer n in (nd_thread n peer, n))"

text \<open>\<open>stop\<close>: closing never throws out of it. The sessions are left open.\<close>

definition nd_stop :: "p2p_node \<Rightarrow> p2p_node" where
  "nd_stop n = nd_emit NStopped (n\<lparr>nd_discovery := disc_stop (nd_discovery n)\<rparr>)"

end
