(* ===== verification/NodeRun.thy ===== *)
theory NodeRun
  imports Node
begin

text \<open>
  The operations of the node as one step function, what each of them does to the file node underneath, and
  the invariant of the node over any sequence of operations.
\<close>

section \<open>Operations\<close>

datatype node_op =
    OAttach nat bytes | OMessage nat bytes clock | OClosed nat
  | OSend string string "unit res" clock | OAsk string string time | OAnswer nat fetch_outcome time
  | OSendFile string | OUpload "string option" bytes "unit res" | ODownload string
  | OTrust json | OThread string | ODiscovery disc_event | OConnect string json
  | OFileTimeout string nat | OFileTick string | OStop

text \<open>A result is only there to say whether the call threw. A session is attached once.\<close>

definition outcome :: "'a res \<times> 'b \<Rightarrow> unit res \<times> 'b" where
  "outcome x = (map_sum id (\<lambda>_. ()) (fst x), snd x)"

fun node_step :: "node_world \<Rightarrow> mixer \<Rightarrow> node_op \<Rightarrow> p2p_node \<Rightarrow> unit res \<times> p2p_node" where
  "node_step W mix (OAttach h peerId) n = (Inr (), if jm_has (nd_conns n) h then n else nd_attach h peerId n)"
| "node_step W mix (OMessage h buf clk) n =
     (case jm_get (nd_conns n) h of None \<Rightarrow> (Inr (), n) | Some s \<Rightarrow> nd_route W mix s buf clk n)"
| "node_step W mix (OClosed h) n = (Inr (), nd_onClose mix h n)"
| "node_step W mix (OSend peer text sent clk) n = nd_sendMessage W peer text sent clk n"
| "node_step W mix (OAsk peer query now) n = (Inr (), askAI W peer query now n)"
| "node_step W mix (OAnswer i out now) n = (Inr (), ai_answer i out now n)"
| "node_step W mix (OSendFile path) n = outcome (nd_sendFile W path n)"
| "node_step W mix (OUpload filename buffer written) n = outcome (nd_uploadAndShare W filename buffer written n)"
| "node_step W mix (ODownload fileId) n = outcome (nd_download W mix fileId n)"
| "node_step W mix (OTrust i) n = (Inr (), snd (trustPeer i n))"
| "node_step W mix (OThread peer) n = (Inr (), snd (nd_getThread peer n))"
| "node_step W mix (ODiscovery e) n = (Inr (), n\<lparr>nd_discovery := disc_step (nd_discovery n) e\<rparr>)"
| "node_step W mix (OConnect host port) n = nd_connect W host port n"
| "node_step W mix (OFileTimeout f i) n = (Inr (), n\<lparr>nd_file := onTimeout mix f i (nd_file n)\<rparr>)"
| "node_step W mix (OFileTick f) n = (Inr (), n\<lparr>nd_file := schedule mix f (nd_file n)\<rparr>)"
| "node_step W mix OStop n = (Inr (), nd_stop n)"

fun node_run :: "node_world \<Rightarrow> (mixer \<times> node_op) list \<Rightarrow> p2p_node \<Rightarrow> p2p_node" where
  "node_run W [] n = n"
| "node_run W ((mix, op) # ops) n = node_run W ops (snd (node_step W mix op n))"

lemma node_run_append: "node_run W (xs @ ys) n = node_run W ys (node_run W xs n)"
  by (induction W xs n rule: node_run.induct) simp_all

lemma node_run_induct:
  assumes "P n" and "\<And>n mix op. P n \<Longrightarrow> mixer_ok mix \<Longrightarrow> P (snd (node_step W mix op n))"
    and "list_all (\<lambda>x. mixer_ok (fst x)) ops"
  shows "P (node_run W ops n)"
  using assms(1,3)
proof (induction ops arbitrary: n)
  case (Cons x ops)
  obtain mix op where "x = (mix, op)" by (cases x)
  then show ?case using Cons assms(2) [of n mix op] by simp
qed simp

section \<open>What the file node keeps and emits\<close>

text \<open>Sessions, and the effects that concern the node above.\<close>

fun inner_effect :: "fn_effect \<Rightarrow> bool" where
  "inner_effect (FManifest m) = False"
| "inner_effect (FError e) = False"
| "inner_effect _ = True"

definition quiet :: "file_node \<Rightarrow> file_node \<Rightarrow> bool" where
  "quiet n n' \<longleftrightarrow> fn_sessions n' = fn_sessions n \<and> fn_seq n' = fn_seq n \<and>
     (\<exists>es. fn_out n' = fn_out n @ es \<and> list_all inner_effect es)"

lemma quiet_refl [simp, intro]: "quiet n n"
  by (simp add: quiet_def)

lemma quiet_trans: "quiet a b \<Longrightarrow> quiet b c \<Longrightarrow> quiet a c"
  unfolding quiet_def by (metis append.assoc list_all_append)

lemma quiet_same: "fn_sessions n' = fn_sessions n \<Longrightarrow> fn_seq n' = fn_seq n \<Longrightarrow> fn_out n' = fn_out n \<Longrightarrow> quiet n n'"
  by (simp add: quiet_def)

lemma quiet_emit: "list_all inner_effect es \<Longrightarrow> quiet n (fn_emit es n)"
  by (simp add: quiet_def)

lemma sched_loop_sends: "list_all inner_effect (snd (sched_loop n f is d))"
  by (induction n f "is" d rule: sched_loop.induct) (auto simp: Let_def split: prod.splits)

lemma quiet_schedule [intro]: "quiet n (schedule mix f n)"
proof (cases "jm_get (fn_downloads n) f")
  case (Some d)
  then show ?thesis
    using sched_loop_sends by (auto simp: schedule_def Let_def quiet_def split: prod.splits) (metis snd_conv)
qed (simp add: schedule_def)

lemma quiet_complete [intro]: "quiet n (complete C f n)"
  by (auto simp: complete_def quiet_def split: option.splits prod.splits sum.splits)

lemma quiet_set [simp, intro]: "quiet n (set_download f d n)" "quiet n (n\<lparr>fn_store := st\<rparr>)"
  "quiet n (add_have k f is n)" "quiet n (fn_registerManifest m n)"
  by (auto intro!: quiet_same)

lemma inner_to_all: "list_all inner_effect (to_all n ms)"
  by (auto simp: to_all_def list_all_iff)

lemma quiet_timeout: "quiet n (onTimeout mix f i n)"
  by (auto simp: onTimeout_def split: option.splits intro: quiet_trans [OF quiet_set(1) quiet_schedule])

lemma quiet_seed: "seed C fs m path n = (r, n') \<Longrightarrow> quiet n n'"
proof -
  let ?n = "fn_registerManifest m n"
  have e: "quiet n (fn_emit (to_all (?n\<lparr>fn_store := st\<rparr>) ms) (?n\<lparr>fn_store := st\<rparr>))" for st ms
    by (rule quiet_trans [OF quiet_set(4) quiet_trans [OF quiet_set(2) quiet_emit]]) (rule inner_to_all)
  have s: "quiet n (?n\<lparr>fn_store := st\<rparr>)" for st by (rule quiet_trans [OF quiet_set(4) quiet_set(2)])
  show "seed C fs m path n = (r, n') \<Longrightarrow> quiet n n'"
    by (auto simp: seed_def Let_def e s split: option.splits if_splits sum.splits prod.splits)
qed

lemma quiet_download: "quiet n (fn_download C mix m path parallel n)"
proof -
  let ?n = "fn_registerManifest m n" and ?f = "mf_file_id m"
  let ?d = "new_download m path parallel ?n"
  let ?s = "set_download ?f ?d ?n"
  let ?e = "fn_emit (to_all ?s [MHave ?f (bitfield (fn_store ?s) ?f)]) ?s"
  have e: "quiet n ?e"
    by (rule quiet_trans [OF quiet_set(4) quiet_trans [OF quiet_set(1) quiet_emit]]) (rule inner_to_all)
  show ?thesis
  proof (cases "dl_needed ?d = []")
    case True
    then have "fn_download C mix m path parallel n = complete C ?f ?e" unfolding fn_download_def Let_def by (rule if_P)
    then show ?thesis using quiet_trans [OF e quiet_complete] by simp
  next
    case False
    then have "fn_download C mix m path parallel n = schedule mix ?f (set_download ?f (?d\<lparr>dl_tick := True\<rparr>) ?e)"
      unfolding fn_download_def Let_def by (rule if_not_P)
    then show ?thesis using quiet_trans [OF quiet_trans [OF e quiet_set(1)] quiet_schedule] by simp
  qed
qed

lemma quiet_accept: "accept_chunk C mix s f i data d n = (r, n') \<Longrightarrow> quiet n n'"
proof -
  let ?es = "\<lambda>n d. [FSend (fs_peerHex s) (MAck i (Some ACK_OK))] @ to_all n [MHavePiece f i] @
    [FProgress f i (dl_received d) (mf_nb_chunks (dl_manifest d))]"
  have es: "list_all inner_effect (?es m d)" for m d using inner_to_all [of m "[MHavePiece f i]"] by simp
  have st: "quiet n (n\<lparr>fn_store := t\<rparr>)" for t by simp
  have e: "quiet n (fn_emit (?es (n\<lparr>fn_store := t\<rparr>) d) (set_download f d (n\<lparr>fn_store := t\<rparr>)))" for t d
    by (rule quiet_trans [OF st quiet_trans [OF quiet_set(1) quiet_emit [OF es]]])
  obtain p t where p: "putChunk C f i data (expected_hash (dl_manifest d) i) (fn_store n) = (p, t)" by fastforce
  consider (1) x where "p = Inl x" | (2) h where "p = Inr (HashMismatch h)" | (3) h where "p = Inr (PutOk h)"
    by (metis put_result.exhaust sumE)
  then show "accept_chunk C mix s f i data d n = (r, n') \<Longrightarrow> quiet n n'"
  proof cases
    case 1
    then show "accept_chunk C mix s f i data d n = (r, n') \<Longrightarrow> quiet n n'" by (auto simp: accept_chunk_def p st)
  next
    case 2
    then show "accept_chunk C mix s f i data d n = (r, n') \<Longrightarrow> quiet n n'"
      using quiet_trans [OF st quiet_schedule] by (auto simp: accept_chunk_def p)
  next
    case 3
    let ?d = "d\<lparr>dl_needed := filter (\<lambda>j. j \<noteq> i) (dl_needed d), dl_received := dl_received d + 1\<rparr>"
    let ?m = "fn_emit ([FSend (fs_peerHex s) (MAck i (Some ACK_OK))] @ to_all (n\<lparr>fn_store := t\<rparr>) [MHavePiece f i] @
      [FProgress f i (dl_received ?d) (mf_nb_chunks (dl_manifest d))]) (set_download f ?d (n\<lparr>fn_store := t\<rparr>))"
    have m: "quiet n ?m" using e [of t ?d] by simp
    have "accept_chunk C mix s f i data d n = (Inr (), if dl_needed ?d = [] then complete C f ?m else schedule mix f ?m)"
      using 3 by (simp add: accept_chunk_def p Let_def)
    then show "accept_chunk C mix s f i data d n = (r, n') \<Longrightarrow> quiet n n'"
      using quiet_trans [OF m quiet_complete] quiet_trans [OF m quiet_schedule] by auto
  qed
qed

lemma quiet_chunk_data: "onChunkData C mix s f i h sg data n = (r, n') \<Longrightarrow> quiet n n'"
proof -
  have bad: "quiet n (schedule mix f (fn_emit [FSend k (MAck i x), FCorrupt f i k] (set_download f d n)))" for k x d
    by (rule quiet_trans [OF quiet_set(1) quiet_trans [OF quiet_emit quiet_schedule]]) simp
  show "onChunkData C mix s f i h sg data n = (r, n') \<Longrightarrow> quiet n n'"
    by (auto simp: onChunkData_def Let_def bad split: option.splits if_splits
        intro: quiet_trans [OF quiet_set(1) quiet_accept])
qed

lemma quiet_serve: "serveChunk C ks s f i n = (r, n') \<Longrightarrow> quiet n n'"
  by (auto simp: serveChunk_def Let_def split: if_splits sum.splits intro!: quiet_emit)

text \<open>A message: what the node above hears of it.\<close>

lemma handleMsg_cases:
  assumes "handleMsg C ks mix s msg n = (r, n')"
  shows "quiet n n' \<or> (\<exists>m. msg = MManifest m \<and> verifyManifest C ks m \<and> r = Inr () \<and>
    n' = fn_emit [FManifest m] (fn_registerManifest m n))"
proof (cases msg)
  case (MManifest m)
  then show ?thesis using assms by (auto simp: handleMsg_def split: if_splits)
next
  case (MHave f bits)
  then show ?thesis
    using assms quiet_trans [OF quiet_set(3) quiet_schedule] by (auto simp: handleMsg_def split: option.splits)
next
  case (MHavePiece f i)
  then show ?thesis using assms quiet_trans [OF quiet_set(3) quiet_schedule] by (auto simp: handleMsg_def)
qed (use assms quiet_serve quiet_chunk_data in \<open>auto simp: handleMsg_def\<close>)

lemma quiet_close_loop: "quiet n (close_loop mix k fs n)"
proof (induction fs arbitrary: n)
  case (Cons f fs)
  have "quiet n (case jm_get (fn_downloads n) f of None \<Rightarrow> n | Some d \<Rightarrow> schedule mix f (set_download f (drop_peer k d) n))"
    using quiet_trans [OF quiet_set(1) quiet_schedule] by (auto split: option.split)
  from quiet_trans [OF this Cons.IH] show ?case by simp
qed simp

lemma onClose_sessions:
  "fn_sessions (onClose mix k n) = jm_delete (fn_sessions n) k" "fn_seq (onClose mix k n) = fn_seq n"
  using quiet_close_loop [of "n\<lparr>fn_sessions := jm_delete (fn_sessions n) k, fn_peerHave := jm_delete (fn_peerHave n) k\<rparr>"]
  by (simp_all add: onClose_def Let_def quiet_def)

lemma attach_sessions:
  "fst (attachSession peerId n) = session_key peerId (fn_seq n + 1)"
  "fn_sessions (snd (attachSession peerId n)) = jm_set (fn_sessions n) (session_key peerId (fn_seq n + 1)) peerId"
  "fn_seq (snd (attachSession peerId n)) = fn_seq n + 1"
  by (simp_all add: attachSession_def Let_def)

section \<open>Frames\<close>

lemma nd_emit_fields [simp]:
  "nd_file (nd_emit e n) = nd_file n" "nd_conns (nd_emit e n) = nd_conns n"
  "nd_sessionsByPeer (nd_emit e n) = nd_sessionsByPeer n" "nd_availableFiles (nd_emit e n) = nd_availableFiles n"
  "nd_threads (nd_emit e n) = nd_threads n" "nd_noAi (nd_emit e n) = nd_noAi n"
  "nd_pending (nd_emit e n) = nd_pending n" "nd_out (nd_emit e n) = nd_out n @ [e]" "nd_fs (nd_emit e n) = nd_fs n"
  by (simp_all add: nd_emit_def)

lemma push_entry_fields [simp]:
  "nd_file (push_entry p e n) = nd_file n" "nd_conns (push_entry p e n) = nd_conns n"
  "nd_sessionsByPeer (push_entry p e n) = nd_sessionsByPeer n"
  "nd_availableFiles (push_entry p e n) = nd_availableFiles n" "nd_noAi (push_entry p e n) = nd_noAi n"
  "nd_pending (push_entry p e n) = nd_pending n" "nd_out (push_entry p e n) = nd_out n"
  by (simp_all add: push_entry_def)

lemma ensure_thread_fields [simp]:
  "nd_file (ensure_thread p n) = nd_file n" "nd_conns (ensure_thread p n) = nd_conns n"
  "nd_sessionsByPeer (ensure_thread p n) = nd_sessionsByPeer n"
  "nd_availableFiles (ensure_thread p n) = nd_availableFiles n" "nd_noAi (ensure_thread p n) = nd_noAi n"
  "nd_pending (ensure_thread p n) = nd_pending n" "nd_out (ensure_thread p n) = nd_out n"
  by (simp_all add: ensure_thread_def)

lemma askAI_fields [simp]:
  "nd_file (askAI W p q t n) = nd_file n" "nd_conns (askAI W p q t n) = nd_conns n"
  "nd_sessionsByPeer (askAI W p q t n) = nd_sessionsByPeer n"
  "nd_availableFiles (askAI W p q t n) = nd_availableFiles n" "nd_noAi (askAI W p q t n) = nd_noAi n"
  by (simp_all add: askAI_def ai_reply_def Let_def split: sum.split prod.split)

lemma ai_answer_fields [simp]:
  "nd_file (ai_answer i out t n) = nd_file n" "nd_conns (ai_answer i out t n) = nd_conns n"
  "nd_sessionsByPeer (ai_answer i out t n) = nd_sessionsByPeer n"
  "nd_availableFiles (ai_answer i out t n) = nd_availableFiles n" "nd_noAi (ai_answer i out t n) = nd_noAi n"
  by (simp_all add: ai_answer_def ai_reply_def Let_def)

lemma nd_offers_fields [simp]:
  "nd_file (nd_offers es n) = nd_file n" "nd_conns (nd_offers es n) = nd_conns n"
  "nd_sessionsByPeer (nd_offers es n) = nd_sessionsByPeer n" "nd_threads (nd_offers es n) = nd_threads n"
  "nd_noAi (nd_offers es n) = nd_noAi n" "nd_pending (nd_offers es n) = nd_pending n"
  by (induction es n rule: nd_offers.induct) simp_all

lemma nd_offers_inner: "list_all inner_effect es \<Longrightarrow> nd_offers es n = n"
  by (induction es n rule: nd_offers.induct) simp_all

lemma thrown_inner: "list_all inner_effect es \<Longrightarrow> thrown es = Inr ()"
proof -
  assume "list_all inner_effect es"
  then have "List.find (\<lambda>e. case e of FError x \<Rightarrow> True | _ \<Rightarrow> False) es = None"
    by (auto simp: find_None_iff list_all_iff split: fn_effect.splits)
  then show ?thesis by (simp add: thrown_def)
qed

lemma nd_onChat_fields [simp]:
  "nd_file (nd_onChat W s b clk n) = nd_file n" "nd_conns (nd_onChat W s b clk n) = nd_conns n"
  "nd_sessionsByPeer (nd_onChat W s b clk n) = nd_sessionsByPeer n"
  "nd_availableFiles (nd_onChat W s b clk n) = nd_availableFiles n" "nd_noAi (nd_onChat W s b clk n) = nd_noAi n"
  by (simp_all add: nd_onChat_def Let_def)

text \<open>A file message reaches the node in one of three ways.\<close>

definition heard_manifest :: "node_world \<Rightarrow> bytes \<Rightarrow> manifest option" where
  "heard_manifest W buf =
     (case decode manifest_of_bytes buf of
        Inr (MManifest m) \<Rightarrow> if verifyManifest (nw_crypto W) (nw_keys W) m then Some m else None
      | _ \<Rightarrow> None)"

lemma fileMessage_cases:
  assumes "nd_fileMessage W mix s buf n = (r, n')"
  obtains (error) e where "decode manifest_of_bytes buf = Inl e" "r = Inl e" "n' = n\<lparr>nd_file := fn_emit [FError e] (nd_file n)\<rparr>"
    | (offer) m where "heard_manifest W buf = Some m" "r = Inr ()"
        "n' = nd_emit (NFileAvailable m)
           (n\<lparr>nd_file := fn_emit [FManifest m] (fn_registerManifest m (nd_file n)),
              nd_availableFiles := jm_set (nd_availableFiles n) (mf_file_id m) (m, take 8 (mf_sender_id m))\<rparr>)"
    | (inner) f where "quiet (nd_file n) f" "n' = n\<lparr>nd_file := f\<rparr>"
        "handleMessage (nw_crypto W) (nw_keys W) manifest_of_bytes mix s buf (nd_file n) = (r, f)"
proof (cases "decode manifest_of_bytes buf")
  case (Inl e)
  have "thrown [FError e] = Inr () \<or> thrown [FError e] = Inl e" by (simp add: thrown_def)
  then show thesis using assms by (intro error [of e]) (auto simp: Inl nd_fileMessage_def handleMessage_def Let_def thrown_def)
next
  case (Inr msg)
  obtain r0 f where h: "handleMsg (nw_crypto W) (nw_keys W) mix s msg (nd_file n) = (r0, f)" by fastforce
  have hm: "handleMessage (nw_crypto W) (nw_keys W) manifest_of_bytes mix s buf (nd_file n) = (r0, f)"
    by (simp add: handleMessage_def Inr h)
  from handleMsg_cases [OF h] show thesis
  proof (elim disjE exE conjE)
    assume q: "quiet (nd_file n) f"
    then obtain es where es: "fn_out f = fn_out (nd_file n) @ es" "list_all inner_effect es" by (auto simp: quiet_def)
    have "(r, n') = (r0, n\<lparr>nd_file := f\<rparr>)"
      using assms unfolding nd_fileMessage_def hm
      by (cases r0) (simp_all add: Let_def es nd_offers_inner thrown_inner)
    then show thesis using inner [OF q] hm by simp
  next
    fix m
    assume m: "msg = MManifest m" "verifyManifest (nw_crypto W) (nw_keys W) m" "r0 = Inr ()"
      "f = fn_emit [FManifest m] (fn_registerManifest m (nd_file n))"
    have "heard_manifest W buf = Some m" by (simp add: heard_manifest_def Inr m)
    moreover have "nd_fileMessage W mix s buf n = (Inr (), nd_emit (NFileAvailable m)
           (n\<lparr>nd_file := f, nd_availableFiles := jm_set (nd_availableFiles n) (mf_file_id m) (m, take 8 (mf_sender_id m))\<rparr>))"
      by (simp add: nd_fileMessage_def hm m(3,4) Let_def thrown_def)
    ultimately show thesis using offer [of m] assms m(4) by simp
  qed
qed

section \<open>The invariant\<close>

definition sessions_ok :: "p2p_node \<Rightarrow> bool" where
  "sessions_ok n \<longleftrightarrow>
     jm_ok (nd_sessionsByPeer n) \<and> jm_ok (nd_conns n) \<and>
     (\<forall>h s. jm_get (nd_conns n) h = Some s \<longrightarrow>
        jm_get (fn_sessions (nd_file n)) (fs_peerHex s) = Some (fs_peerId s) \<and> known_key (fn_seq (nd_file n)) (fs_peerHex s)) \<and>
     (\<forall>h i s t. jm_get (nd_conns n) h = Some s \<longrightarrow> jm_get (nd_conns n) i = Some t \<longrightarrow> fs_peerHex s = fs_peerHex t \<longrightarrow> h = i) \<and>
     (\<forall>p h. jm_get (nd_sessionsByPeer n) p = Some h \<longrightarrow>
        (\<exists>s. jm_get (nd_conns n) h = Some s \<and> hex_of_bytes (fs_peerId s) = p))"

lemma sessions_frame:
  assumes "sessions_ok n" and "nd_sessionsByPeer n' = nd_sessionsByPeer n" and "nd_conns n' = nd_conns n"
    and "quiet (nd_file n) (nd_file n')"
  shows "sessions_ok n'"
  using assms unfolding sessions_ok_def quiet_def by (elim conjE) (simp only: simp_thms)

lemma route_frame:
  assumes "nd_route W mix s buf clk n = (r, n')"
  shows "nd_sessionsByPeer n' = nd_sessionsByPeer n \<and> nd_conns n' = nd_conns n \<and> fn_sessions (nd_file n') = fn_sessions (nd_file n)
    \<and> fn_seq (nd_file n') = fn_seq (nd_file n) \<and> nd_noAi n' = nd_noAi n"
proof (cases buf)
  case (Cons t rest)
  consider "nd_fileMessage W mix s buf n = (r, n')" | "n' = nd_onChat W s rest clk n" | "n' = n"
    using assms by (auto simp: nd_route_def Cons split: if_splits)
  then show ?thesis
  proof cases
    case 1
    then show ?thesis by (rule fileMessage_cases) (auto simp: quiet_def)
  qed simp_all
qed (use assms in \<open>simp add: nd_route_def\<close>)

lemma sessions_frame':
  assumes "sessions_ok n" and "nd_sessionsByPeer n' = nd_sessionsByPeer n" and "nd_conns n' = nd_conns n"
    and "fn_sessions (nd_file n') = fn_sessions (nd_file n)" and "fn_seq (nd_file n') = fn_seq (nd_file n)"
  shows "sessions_ok n'"
  using assms unfolding sessions_ok_def by (elim conjE) (simp only: simp_thms)

lemma sessions_attach:
  assumes "sessions_ok n" and "\<not> jm_has (nd_conns n) h"
  shows "sessions_ok (nd_attach h peerId n)"
proof -
  let ?f = "nd_file n"
  let ?k = "session_key peerId (fn_seq ?f + 1)" and ?n = "nd_attach h peerId n"
  let ?s = "\<lparr>fs_peerId = peerId, fs_peerHex = ?k\<rparr>"
  obtain f where a: "attachSession peerId ?f = (?k, f)" "fn_sessions f = jm_set (fn_sessions ?f) ?k peerId" "fn_seq f = fn_seq ?f + 1"
    using attach_sessions [of peerId ?f] by (metis prod.collapse)
  have n: "nd_sessionsByPeer ?n = jm_set (nd_sessionsByPeer n) (hex_of_bytes peerId) h"
    "nd_conns ?n = jm_set (nd_conns n) h ?s" "nd_file ?n = f"
    using a(1) by (simp_all add: nd_attach_def Let_def)
  have new: "\<not> known_key (fn_seq ?f) ?k" using session_key_inj by (fastforce simp: known_key_def)
  have up: "known_key (fn_seq ?f) k \<Longrightarrow> known_key (fn_seq f) k" for k
    unfolding known_key_def a(3) by (metis le_add1 le_trans)
  have key: "known_key (fn_seq f) ?k" unfolding known_key_def a(3) by blast
  have old: "jm_get (fn_sessions ?f) (fs_peerHex s) = Some (fs_peerId s)" "known_key (fn_seq ?f) (fs_peerHex s)" "fs_peerHex s \<noteq> ?k"
    if "jm_get (nd_conns n) i = Some s" for i s
    using assms(1) that new unfolding sessions_ok_def by metis+
  have none: "jm_get (nd_conns n) h = None" using assms(2) by (simp add: jm_has_def)
  have uniq: "i = j" if "jm_get (nd_conns n) i = Some s" "jm_get (nd_conns n) j = Some t" "fs_peerHex s = fs_peerHex t" for i j s t
    using assms(1) that unfolding sessions_ok_def by metis
  have tab: "\<exists>s. jm_get (nd_conns n) i = Some s \<and> hex_of_bytes (fs_peerId s) = p" if "jm_get (nd_sessionsByPeer n) p = Some i" for p i
    using assms(1) that unfolding sessions_ok_def by metis
  have ok: "jm_ok (nd_sessionsByPeer n)" "jm_ok (nd_conns n)" using assms(1) by (simp_all add: sessions_ok_def)
  show ?thesis unfolding sessions_ok_def n
  proof (intro conjI allI impI)
    fix i s
    assume "jm_get (jm_set (nd_conns n) h ?s) i = Some s"
    then have "i = h \<and> s = ?s \<or> i \<noteq> h \<and> jm_get (nd_conns n) i = Some s" by (auto simp: jm_get_set split: if_splits)
    then show "jm_get (fn_sessions f) (fs_peerHex s) = Some (fs_peerId s)" "known_key (fn_seq f) (fs_peerHex s)"
      using old [of i s] key up by (auto simp: a(2) jm_get_set)
  next
    fix i j s t
    assume "jm_get (jm_set (nd_conns n) h ?s) i = Some s" "jm_get (jm_set (nd_conns n) h ?s) j = Some t" "fs_peerHex s = fs_peerHex t"
    then show "i = j" using old [of i s] old [of j t] uniq [of i s j t] by (auto simp: jm_get_set split: if_splits)
  next
    fix p i
    assume "jm_get (jm_set (nd_sessionsByPeer n) (hex_of_bytes peerId) h) p = Some i"
    then show "\<exists>s. jm_get (jm_set (nd_conns n) h ?s) i = Some s \<and> hex_of_bytes (fs_peerId s) = p"
      using tab [of p i] none by (auto simp: jm_get_set split: if_splits)
  qed (use ok in \<open>simp_all add: jm_ok_set\<close>)
qed

lemma sessions_close:
  assumes "sessions_ok n"
  shows "sessions_ok (nd_onClose mix h n)"
proof (cases "jm_get (nd_conns n) h")
  case (Some s)
  let ?n = "nd_onClose mix h n" and ?p = "hex_of_bytes (fs_peerId s)"
  have n: "nd_conns ?n = jm_delete (nd_conns n) h" "nd_file ?n = onClose mix (fs_peerHex s) (nd_file n)"
    "nd_sessionsByPeer ?n = (if jm_get (nd_sessionsByPeer n) ?p = Some h then jm_delete (nd_sessionsByPeer n) ?p else nd_sessionsByPeer n)"
    by (simp_all add: nd_onClose_def Some Let_def)
  have keys: "jm_get (fn_sessions (nd_file n)) (fs_peerHex t) = Some (fs_peerId t)" "known_key (fn_seq (nd_file n)) (fs_peerHex t)"
      "i \<noteq> h \<Longrightarrow> fs_peerHex t \<noteq> fs_peerHex s"
    if "jm_get (nd_conns n) i = Some t" for i t using assms that Some unfolding sessions_ok_def by metis+
  have uniq: "i = j" if "jm_get (nd_conns n) i = Some s" "jm_get (nd_conns n) j = Some t" "fs_peerHex s = fs_peerHex t" for i j s t
    using assms that unfolding sessions_ok_def by metis
  have tab: "\<exists>s. jm_get (nd_conns n) i = Some s \<and> hex_of_bytes (fs_peerId s) = p" if "jm_get (nd_sessionsByPeer n) p = Some i" for p i
    using assms that unfolding sessions_ok_def by metis
  have ok: "jm_ok (nd_sessionsByPeer n)" "jm_ok (nd_conns n)" using assms by (simp_all add: sessions_ok_def)
  show ?thesis unfolding sessions_ok_def n(1,2) onClose_sessions
  proof (intro conjI allI impI)
    fix i t
    assume "jm_get (jm_delete (nd_conns n) h) i = Some t"
    then have "jm_get (nd_conns n) i = Some t" "i \<noteq> h" by (auto simp: jm_get_delete split: if_splits)
    then show "jm_get (jm_delete (fn_sessions (nd_file n)) (fs_peerHex s)) (fs_peerHex t) = Some (fs_peerId t)"
      "known_key (fn_seq (nd_file n)) (fs_peerHex t)"
      using keys [of i t] by (auto simp: jm_get_delete)
  next
    fix i j t u
    assume "jm_get (jm_delete (nd_conns n) h) i = Some t" "jm_get (jm_delete (nd_conns n) h) j = Some u" "fs_peerHex t = fs_peerHex u"
    then show "i = j" using uniq [of i t j u] by (auto simp: jm_get_delete split: if_splits)
  next
    fix p i
    assume "jm_get (nd_sessionsByPeer ?n) p = Some i"
    then have g: "jm_get (nd_sessionsByPeer n) p = Some i" "p = ?p \<Longrightarrow> i \<noteq> h"
      unfolding n(3) by (auto simp: jm_get_delete split: if_splits)
    obtain t where t: "jm_get (nd_conns n) i = Some t" "hex_of_bytes (fs_peerId t) = p" using tab [OF g(1)] by blast
    have "i \<noteq> h" using t Some g(2) by auto
    then show "\<exists>s. jm_get (jm_delete (nd_conns n) h) i = Some s \<and> hex_of_bytes (fs_peerId s) = p"
      using t by (auto simp: jm_get_delete)
  qed (use ok n(3) in \<open>simp_all add: jsm.ok_del\<close>)
qed (simp add: nd_onClose_def assms)

lemma sendMessage_fields:
  assumes "nd_sendMessage W p t x clk n = (r, n')"
  shows "nd_sessionsByPeer n' = nd_sessionsByPeer n \<and> nd_conns n' = nd_conns n \<and> nd_file n' = nd_file n
    \<and> nd_availableFiles n' = nd_availableFiles n \<and> nd_noAi n' = nd_noAi n"
  using assms by (auto simp: nd_sendMessage_def Let_def split: option.splits sum.splits if_splits)

lemma sendFile_fields:
  assumes "nd_sendFile W p n = (r, n')"
  shows "nd_sessionsByPeer n' = nd_sessionsByPeer n \<and> nd_conns n' = nd_conns n \<and> quiet (nd_file n) (nd_file n')
    \<and> nd_availableFiles n' = nd_availableFiles n \<and> nd_noAi n' = nd_noAi n"
  using assms quiet_seed
  by (fastforce simp: nd_sendFile_def split: option.splits sum.splits if_splits prod.splits)

lemma upload_fields:
  assumes "nd_uploadAndShare W nm b w n = (r, n')"
  shows "nd_sessionsByPeer n' = nd_sessionsByPeer n \<and> nd_conns n' = nd_conns n \<and> quiet (nd_file n) (nd_file n')
    \<and> nd_availableFiles n' = nd_availableFiles n \<and> nd_noAi n' = nd_noAi n"
proof (cases w)
  case (Inr u)
  then have "nd_sendFile W (shared_path n nm) (n\<lparr>nd_fs := (nd_fs n)(shared_path n nm := Some b)\<rparr>) = (r, n')"
    using assms by (simp add: nd_uploadAndShare_def Let_def)
  from sendFile_fields [OF this] show ?thesis by simp
qed (use assms in \<open>simp add: nd_uploadAndShare_def Let_def\<close>)

lemma download_fields:
  assumes "nd_download W mix f n = (r, n')"
  shows "nd_sessionsByPeer n' = nd_sessionsByPeer n \<and> nd_conns n' = nd_conns n \<and> quiet (nd_file n) (nd_file n')
    \<and> nd_availableFiles n' = nd_availableFiles n \<and> nd_noAi n' = nd_noAi n"
  using assms quiet_download by (auto simp: nd_download_def Let_def split: option.splits)

lemma connect_fields:
  assumes "nd_connect W h p n = (r, n')"
  shows "nd_sessionsByPeer n' = nd_sessionsByPeer n \<and> nd_conns n' = nd_conns n \<and> nd_file n' = nd_file n
    \<and> nd_availableFiles n' = nd_availableFiles n \<and> nd_noAi n' = nd_noAi n"
  using assms by (auto simp: nd_connect_def split: sum.splits)

lemma outcome_snd [simp]: "snd (outcome x) = snd x"
  by (simp add: outcome_def)

text \<open>What one operation does to the tables of sessions.\<close>

lemma step_quiet:
  assumes "\<not> (\<exists>h p. op = OAttach h p)" and "\<not> (\<exists>h. op = OClosed h)"
  shows "nd_sessionsByPeer (snd (node_step W mix op n)) = nd_sessionsByPeer n
    \<and> nd_conns (snd (node_step W mix op n)) = nd_conns n
    \<and> fn_sessions (nd_file (snd (node_step W mix op n))) = fn_sessions (nd_file n)
    \<and> fn_seq (nd_file (snd (node_step W mix op n))) = fn_seq (nd_file n)"
proof (cases op)
  case (OMessage h b clk)
  then show ?thesis using route_frame by (auto split: option.split) (metis prod.collapse)+
next
  case (OSend p t x clk)
  then show ?thesis using sendMessage_fields by simp (metis prod.collapse)
next
  case (OSendFile p)
  then show ?thesis using sendFile_fields by (simp add: quiet_def) (metis prod.collapse)
next
  case (OUpload nm b w)
  then show ?thesis using upload_fields by (simp add: quiet_def) (metis prod.collapse)
next
  case (ODownload f)
  then show ?thesis using download_fields by (simp add: quiet_def) (metis prod.collapse)
next
  case (OConnect h p)
  then show ?thesis using connect_fields by simp (metis prod.collapse)
next
  case (OFileTimeout f i)
  then show ?thesis using quiet_timeout by (simp add: quiet_def)
next
  case (OFileTick f)
  then show ?thesis using quiet_schedule by (simp add: quiet_def)
qed (use assms in \<open>simp_all add: trustPeer_def nd_getThread_def nd_stop_def Let_def\<close>)

lemma sessions_step: "sessions_ok n \<Longrightarrow> sessions_ok (snd (node_step W mix op n))"
proof -
  assume s: "sessions_ok n"
  consider (1) h p where "op = OAttach h p" | (2) h where "op = OClosed h"
    | (3) "\<not> (\<exists>h p. op = OAttach h p)" "\<not> (\<exists>h. op = OClosed h)" by blast
  then show ?thesis
  proof cases
    case 1
    then show ?thesis using sessions_attach [OF s] s by simp
  next
    case 2
    then show ?thesis using sessions_close [OF s] by simp
  next
    case 3
    then show ?thesis using sessions_frame' [OF s] step_quiet by metis
  qed
qed

lemma sessions_start: "new_node W opts cwd now disk tr nm fs = Inr n \<Longrightarrow> sessions_ok n"
  by (auto simp: new_node_def Let_def bind_res_def sessions_ok_def jm_get_def split: sum.splits)

end
