(* ===== verification/NodeSafe.thy ===== *)
theory NodeSafe
  imports NodeRun SecureLink
begin

text \<open>
  What the node promises: chat over the sessions of \<^theory_text>\<open>SecureLink\<close>, the table of sessions, the files it
  offers, what reaches the assistant, and where files are written.
\<close>

section \<open>Chat\<close>

definition entries :: "chat_dir \<Rightarrow> p2p_node \<Rightarrow> string \<Rightarrow> string list" where
  "entries d n peer = map ce_text (filter (\<lambda>e. ce_dir e = d) (nd_thread n peer))"

lemma thread_push: "nd_thread (push_entry p e n) q = nd_thread n q @ (if q = p then [e] else [])"
  by (simp add: nd_thread_def push_entry_def)

lemma thread_ensure [simp]: "nd_thread (ensure_thread p n) q = nd_thread n q"
  by (simp add: nd_thread_def ensure_thread_def jm_has_def)

lemma thread_emit [simp]: "nd_thread (nd_emit e n) q = nd_thread n q"
  by (simp add: nd_thread_def)

lemma thread_pending [simp]: "nd_thread (n\<lparr>nd_pending := x\<rparr>) q = nd_thread n q"
  by (simp add: nd_thread_def)

lemma entries_push:
  "entries d (push_entry p e n) q = entries d n q @ (if q = p \<and> ce_dir e = d then [ce_text e] else [])"
  by (simp add: entries_def thread_push)

lemma entries_simps [simp]:
  "entries d (nd_emit e n) q = entries d n q" "entries d (ensure_thread p n) q = entries d n q"
  "entries d (n\<lparr>nd_pending := x\<rparr>) q = entries d n q"
  by (simp_all add: entries_def)

lemma entries_askAI: "d \<noteq> ChatAi \<Longrightarrow> entries d (askAI W p query t n) q = entries d n q"
  by (simp add: askAI_def ai_reply_def Let_def entries_push split: sum.split prod.split)

lemma route_chat:
  "nd_route W mix s (CHAT # b) clk n = (Inr (), nd_onChat W s b clk n)"
  by (simp add: nd_route_def CHAT_def)

lemma onChat_entries:
  assumes "well_formed t"
  shows "entries ChatIn (nd_onChat W s (text_bytes t) clk n) q =
    entries ChatIn n q @ (if q = hex_of_bytes (fs_peerId s) then [t] else [])"
  by (simp add: nd_onChat_def Let_def buf_text_bytes [OF assms] entries_askAI entries_push)

definition chat_packet :: "string \<Rightarrow> bytes" where
  "chat_packet t = CHAT # text_bytes t"

text \<open>The messages of a session handed to the node one after the other.\<close>

definition handed :: "nat \<Rightarrow> (mixer \<times> clock \<times> bytes) list \<Rightarrow> (mixer \<times> node_op) list" where
  "handed h xs = map (\<lambda>(mix, clk, buf). (mix, OMessage h buf clk)) xs"

lemma chat_run:
  assumes "jm_get (nd_conns n) h = Some s" and "map (\<lambda>(mix, clk, buf). buf) xs = map chat_packet texts"
    and "list_all well_formed texts"
  shows "entries ChatIn (node_run W (handed h xs) n) q =
    entries ChatIn n q @ (if q = hex_of_bytes (fs_peerId s) then texts else [])"
  using assms
proof (induction xs arbitrary: n texts)
  case (Cons x xs)
  obtain mix clk buf where x: "x = (mix, clk, buf)" by (cases x)
  obtain t ts where t: "texts = t # ts" "buf = chat_packet t" using Cons.prems(2) x by (cases texts) auto
  let ?n = "nd_onChat W s (text_bytes t) clk n"
  have "node_run W (handed h (x # xs)) n = node_run W (handed h xs) ?n"
    using Cons.prems(1) by (simp add: handed_def x t chat_packet_def route_chat)
  moreover have "entries ChatIn (node_run W (handed h xs) ?n) q =
      entries ChatIn ?n q @ (if q = hex_of_bytes (fs_peerId s) then ts else [])"
    by (rule Cons.IH) (use Cons.prems x t in auto)
  ultimately show ?case using onChat_entries [of t W s clk n q] Cons.prems(3) t by simp
qed (simp add: handed_def)

text \<open>C23. Chat, from one user to the other. Whatever the sending node's application puts on a session that
  has been established are chat packets with the given texts; the receiving node handles, in order, what the
  session delivers to it. Then the received messages of its conversation with the session's authenticated peer
  are extended by a prefix of those texts, in order, without loss, repetition or alteration, and no other
  conversation gets one; and once the session has received all bytes and is open, by all of them. What the
  assistant does meanwhile does not matter.\<close>

theorem chat_end_to_end:
  assumes "crypto_sizes C" and "aead_correct C" and "aead_size C"
    and "link_start l0" and "link_reach C ks l0 l"
    and "lk_sent l (\<not> x) = map chat_packet texts" and "list_all well_formed texts"
    and "jm_get (nd_conns n) h = Some s"
    and "map (\<lambda>(mix, clk, buf). buf) xs = delivered (cn_out (lk_conn l x))"
    and "node_run W (handed h xs) n = n'"
  shows "\<exists>k \<le> length texts.
    (\<forall>q. entries ChatIn n' q = entries ChatIn n q @ (if q = hex_of_bytes (fs_peerId s) then take k texts else []))
    \<and> (\<not> cn_closed (lk_conn l x) \<and> inflight l x = [] \<longrightarrow> k = length texts)"
proof -
  note d = session_facts [OF assms(1-5), of x]
  define k where "k = length (delivered (cn_out (lk_conn l x)))"
  obtain rest where r: "map chat_packet texts = delivered (cn_out (lk_conn l x)) @ rest" using d(1) assms(6) by auto
  have k: "delivered (cn_out (lk_conn l x)) = map chat_packet (take k texts)"
    using arg_cong [OF r, of "take k"] by (simp add: k_def take_map)
  have len: "k \<le> length texts" using arg_cong [OF r, of length] by (simp add: k_def)
  have wf: "list_all well_formed (take k texts)" using assms(7) by (auto simp: list_all_iff dest: in_set_takeD)
  have "entries ChatIn n' q = entries ChatIn n q @ (if q = hex_of_bytes (fs_peerId s) then take k texts else [])" for q
    using chat_run [OF assms(8), of xs "take k texts" W q] wf assms(9,10) k by simp
  moreover have "k = length texts" if "\<not> cn_closed (lk_conn l x)" "inflight l x = []"
    using d(2) [OF that] assms(6) by (simp add: k_def)
  ultimately show ?thesis using len by blast
qed

text \<open>A node with one session, and its world.\<close>

definition demo_env :: node_world where
  "demo_env = \<lparr>nw_crypto = demo_crypto, nw_keys = keystore_of demo_crypto (replicate 32 1),
     nw_ai = \<lparr>ae_key = ''k'', ae_fetch = True, ae_model = ''gemini-pro''\<rparr>, nw_context = 10,
     nw_connect = (\<lambda>p h. Inr ())\<rparr>"

definition demo_options :: node_options where
  "demo_options = \<lparr>no_securePort = None, no_tcpPort = None, no_controlPort = None, no_controlHost = None,
     no_dataDir = Some ''/d'', no_downloadDir = None, no_noAi = False, no_bootstrap = []\<rparr>"

definition demo_start :: "p2p_node res" where
  "demo_start = new_node demo_env demo_options ''/'' 0 empty_disk None ''n'' (\<lambda>p. None)"

definition demo_node :: p2p_node where
  "demo_node = projr demo_start"

lemma demo_start_ok: "demo_start = Inr demo_node"
proof -
  have "\<exists>n. demo_start = Inr n"
    by (simp add: demo_start_def new_node_def demo_env_def Let_def fresh_store startDiscovery_def)
  then show ?thesis unfolding demo_node_def by (elim exE) (erule ssubst, rule sum.sel(2) [symmetric, THEN arg_cong])
qed

lemma demo_node_fields [simp]:
  "nd_sessionsByPeer demo_node = []" "nd_conns demo_node = []" "nd_threads demo_node = []"
  "nd_availableFiles demo_node = []" "nd_pending demo_node = []" "nd_out demo_node = []" "\<not> nd_noAi demo_node"
  "nd_file demo_node = new_file_node (open_store empty_disk) 8"
  by (simp_all add: demo_node_def demo_start_def new_node_def demo_env_def demo_options_def Let_def fresh_store startDiscovery_def)

definition demo_up :: p2p_node where
  "demo_up = nd_attach 0 (replicate 32 2) demo_node"

lemma demo_up_fields [simp]:
  "nd_sessionsByPeer demo_up = [(hex_of_bytes (replicate 32 2), 0)]"
  "nd_conns demo_up = [(0, \<lparr>fs_peerId = replicate 32 2, fs_peerHex = session_key (replicate 32 2) 1\<rparr>)]"
  "nd_threads demo_up = []" "nd_availableFiles demo_up = []" "nd_pending demo_up = []" "\<not> nd_noAi demo_up"
  by (simp_all add: demo_up_def nd_attach_def attachSession_def new_file_node_def Let_def)

theorem chat_end_to_end_witness:
  "\<exists>(l :: link) n'. lk_sent l True = [chat_packet ''ok''] \<and> delivered (cn_out (lk_conn l False)) = [chat_packet ''ok''] \<and>
     node_run demo_env (handed 0 [(\<lambda>f xs. xs, \<lambda>k. 0, chat_packet ''ok'')]) demo_up = n' \<and>
     entries ChatIn n' (hex_of_bytes (replicate 32 2)) = [''ok'']"
proof -
  have wf: "list_all well_formed [''ok'']" by (simp add: well_formed_ascii)
  have "length (chat_packet ''ok'') < 100" by (simp add: chat_packet_def text_bytes_def)
  then obtain l where l: "link_reach demo_crypto fresh_keystore demo_link l" "lk_sent l True = [chat_packet ''ok'']"
    "inflight l False = []" "\<not> cn_closed (lk_conn l False)" using demo_transfer by blast
  have d: "delivered (cn_out (lk_conn l False)) = [chat_packet ''ok'']"
    using session_facts(2) [OF demo_sizes demo_aead demo_size demo_link_start l(1), of False] l by simp
  have c: "jm_get (nd_conns demo_up) 0 = Some \<lparr>fs_peerId = replicate 32 2, fs_peerHex = session_key (replicate 32 2) 1\<rparr>"
    by (simp add: jm_get_def)
  define n' where "n' = node_run demo_env (handed 0 [(\<lambda>f xs. xs, \<lambda>k. 0, chat_packet ''ok'')]) demo_up"
  have "entries ChatIn n' (hex_of_bytes (replicate 32 2)) = [''ok'']"
    using chat_end_to_end [OF demo_sizes demo_aead demo_size demo_link_start l(1), of False "[''ok'']" demo_up 0, OF _ wf c _ n'_def [symmetric]]
      l d by (fastforce simp: entries_def nd_thread_def)
  then show ?thesis using l d n'_def by (intro exI [of _ l] exI [of _ n']) simp
qed

section \<open>Sessions\<close>

lemma sessions_run: "sessions_ok n \<Longrightarrow> sessions_ok (node_run W ops n)"
  by (induction W ops n rule: node_run.induct) (simp_all add: sessions_step)

lemma session_live:
  assumes "new_node W opts cwd now disk tr nm fs = Inr n0" and "node_run W ops n0 = n"
    and "jm_get (nd_sessionsByPeer n) peer = Some h"
  shows "\<exists>s. jm_get (nd_conns n) h = Some s \<and> hex_of_bytes (fs_peerId s) = peer \<and>
    jm_get (fn_sessions (nd_file n)) (fs_peerHex s) = Some (fs_peerId s)"
proof -
  have "sessions_ok n" using sessions_run [OF sessions_start [OF assms(1)]] assms(2) by blast
  then show ?thesis using assms(3) unfolding sessions_ok_def by metis
qed

definition chat_sends :: "node_effect list \<Rightarrow> (nat \<times> bytes) list" where
  "chat_sends es = List.map_filter (\<lambda>e. case e of NSend h b \<Rightarrow> Some (h, b) | _ \<Rightarrow> None) es"

lemma chat_sends_append [simp]: "chat_sends (a @ b) = chat_sends a @ chat_sends b"
  by (simp add: chat_sends_def List.map_filter_def)

lemma askAI_out: "\<exists>es. nd_out (askAI W p q t n) = nd_out n @ es \<and> chat_sends es = []"
  by (auto simp: askAI_def ai_reply_def Let_def chat_sends_def List.map_filter_def split: sum.split)

text \<open>C28. A message goes to the peer it is meant for. In every state a node reaches, the message a user
  sends to an identifier is put, as one chat packet, on exactly one session, which is open, registered with the
  file transfer, and whose handshake authenticated exactly that identifier; or there is no session for it, the
  call throws, and nothing changes.\<close>

theorem message_addressed:
  assumes "new_node W opts cwd now disk tr nm fs = Inr n0" and "node_run W ops n0 = n"
    and "nd_sendMessage W peer text sent clk n = (r, n')"
  shows "if jm_has (nd_sessionsByPeer n) peer
    then \<exists>h s es. jm_get (nd_conns n) h = Some s \<and> hex_of_bytes (fs_peerId s) = peer \<and>
        jm_get (fn_sessions (nd_file n)) (fs_peerHex s) = Some (fs_peerId s) \<and> r = sent \<and>
        nd_out n' = nd_out n @ es \<and> chat_sends es = [(h, chat_packet text)]
    else r = Inl NoSession \<and> n' = n"
proof (cases "jm_get (nd_sessionsByPeer n) peer")
  case None
  then show ?thesis using assms(3) by (simp add: nd_sendMessage_def jm_has_def)
next
  case (Some h)
  obtain s where s: "jm_get (nd_conns n) h = Some s" "hex_of_bytes (fs_peerId s) = peer"
    "jm_get (fn_sessions (nd_file n)) (fs_peerHex s) = Some (fs_peerId s)"
    using session_live [OF assms(1,2) Some] by blast
  let ?m = "push_entry peer \<lparr>ce_dir = ChatOut, ce_text = text, ce_ts = clk 0\<rparr> (nd_emit (NSend h (CHAT # text_bytes text)) n)"
  obtain es where es: "nd_out (askAI W peer (stripTrigger text) (clk 1) ?m) = nd_out ?m @ es" "chat_sends es = []"
    using askAI_out by blast
  have one: "chat_sends [NSend h (CHAT # text_bytes text)] = [(h, chat_packet text)]"
    by (simp add: chat_sends_def List.map_filter_def chat_packet_def)
  have "r = sent \<and> (\<exists>es. nd_out n' = nd_out n @ es \<and> chat_sends es = [(h, chat_packet text)])"
  proof (cases sent)
    case (Inl e)
    then have "r = Inl e" "nd_out n' = nd_out n @ [NSend h (CHAT # text_bytes text)]"
      using assms(3) by (auto simp: nd_sendMessage_def Some Let_def)
    then show ?thesis using one Inl by blast
  next
    case (Inr u)
    then have r: "r = Inr ()" and n': "n' = (if isAiTrigger text then askAI W peer (stripTrigger text) (clk 1) ?m else ?m)"
      using assms(3) by (auto simp: nd_sendMessage_def Some Let_def)
    have "nd_out n' = nd_out n @ [NSend h (CHAT # text_bytes text)] @ (if isAiTrigger text then es else [])"
      using n' es(1) by simp
    moreover have "chat_sends ([NSend h (CHAT # text_bytes text)] @ (if isAiTrigger text then es else [])) = [(h, chat_packet text)]"
      unfolding chat_sends_append using one es(2) by (simp add: chat_sends_def List.map_filter_def)
    ultimately show ?thesis using r Inr by (cases u) blast
  qed
  then show ?thesis using s Some by (auto simp: jm_has_def)
qed

lemma demo_up_run: "node_run demo_env [(\<lambda>f xs. xs, OAttach 0 (replicate 32 2))] demo_node = demo_up"
  by (simp add: demo_up_def)

theorem message_addressed_witness:
  "\<exists>es. chat_sends es = [(0, chat_packet ''ok'')] \<and>
     nd_out (snd (nd_sendMessage demo_env (hex_of_bytes (replicate 32 2)) ''ok'' (Inr ()) (\<lambda>k. 0) demo_up)) = nd_out demo_up @ es"
proof -
  obtain r n' where n': "nd_sendMessage demo_env (hex_of_bytes (replicate 32 2)) ''ok'' (Inr ()) (\<lambda>k. 0) demo_up = (r, n')"
    by fastforce
  have s: "jm_has (nd_sessionsByPeer demo_up) (hex_of_bytes (replicate 32 2))" by (simp add: jm_has_def jm_get_def)
  obtain h t es where "jm_get (nd_conns demo_up) h = Some t" "nd_out n' = nd_out demo_up @ es" "chat_sends es = [(h, chat_packet ''ok'')]"
    using message_addressed [OF demo_start_ok [unfolded demo_start_def] demo_up_run n'] s by auto
  then show ?thesis using n' by (auto simp: jm_get_def split: if_splits)
qed

text \<open>What the table of sessions forgets. Both ends of a pair dial each other, so two sessions with one
  peer are usual: the table names the one attached last. When that one closes, the entry goes, although the
  older session with the same peer is still open: a message to the peer is refused and the peer is no longer
  listed as connected.\<close>

theorem older_session_forgotten:
  assumes "new_node W opts cwd now disk tr nm fs = Inr n0" and "node_run W ops n0 = n"
    and "\<not> jm_has (nd_conns n) h" and "\<not> jm_has (nd_conns n) i" and "h \<noteq> i"
    and "node_run W [(mix, OAttach h peerId), (mix, OAttach i peerId), (mix, OClosed i)] n = n'"
  shows "jm_has (nd_conns n') h \<and> jm_get (nd_sessionsByPeer n') (hex_of_bytes peerId) = None
    \<and> nd_sendMessage W (hex_of_bytes peerId) text sent clk n' = (Inl NoSession, n')"
proof -
  define n1 where "n1 = nd_attach h peerId n"
  define n2 where "n2 = nd_attach i peerId n1"
  have n1: "nd_conns n1 = jm_set (nd_conns n) h \<lparr>fs_peerId = peerId, fs_peerHex = fst (attachSession peerId (nd_file n))\<rparr>"
    by (simp add: n1_def nd_attach_def Let_def split: prod.split)
  have n2: "nd_conns n2 = jm_set (nd_conns n1) i \<lparr>fs_peerId = peerId, fs_peerHex = fst (attachSession peerId (nd_file n1))\<rparr>"
    "nd_sessionsByPeer n2 = jm_set (nd_sessionsByPeer n1) (hex_of_bytes peerId) i"
    by (simp_all add: n2_def nd_attach_def Let_def split: prod.split)
  have new: "\<not> jm_has (nd_conns n1) i" using assms(4,5) by (simp add: n1)
  have n': "n' = nd_onClose mix i n2" using assms(3,6) new by (simp add: n1_def n2_def)
  have "nd_conns n' = jm_delete (nd_conns n2) i" "nd_sessionsByPeer n' = jm_delete (nd_sessionsByPeer n2) (hex_of_bytes peerId)"
    by (simp_all add: n' nd_onClose_def n2 Let_def)
  then show ?thesis using assms(5) by (simp add: n2 n1 nd_sendMessage_def)
qed

theorem older_session_forgotten_witness:
  "nd_sendMessage demo_env (hex_of_bytes (replicate 32 2)) ''ok'' (Inr ()) (\<lambda>k. 0)
     (node_run demo_env [(\<lambda>f xs. xs, OAttach 0 (replicate 32 2)), (\<lambda>f xs. xs, OAttach 1 (replicate 32 2)), (\<lambda>f xs. xs, OClosed 1)] demo_node) =
   (Inl NoSession, node_run demo_env
     [(\<lambda>f xs. xs, OAttach 0 (replicate 32 2)), (\<lambda>f xs. xs, OAttach 1 (replicate 32 2)), (\<lambda>f xs. xs, OClosed 1)] demo_node)"
  using older_session_forgotten [OF demo_start_ok [unfolded demo_start_def], of "[]" demo_node 0 1, OF _ _ _ _ refl] by simp

section \<open>Offered files\<close>

definition offers_ok :: "node_world \<Rightarrow> p2p_node \<Rightarrow> bool" where
  "offers_ok W n \<longleftrightarrow> jm_ok (nd_availableFiles n) \<and>
     (\<forall>f m from. jm_get (nd_availableFiles n) f = Some (m, from) \<longrightarrow>
        mf_file_id m = f \<and> verifyManifest (nw_crypto W) (nw_keys W) m \<and> from = take 8 (mf_sender_id m))"

lemma offers_step: "offers_ok W n \<Longrightarrow> offers_ok W (snd (node_step W mix op n))"
proof -
  assume o: "offers_ok W n"
  have frame: "nd_availableFiles n' = nd_availableFiles n \<Longrightarrow> offers_ok W n'" for n' using o by (simp add: offers_ok_def)
  show ?thesis
  proof (cases op)
    case (OMessage h b clk)
    show ?thesis
    proof (cases "jm_get (nd_conns n) h")
      case (Some s)
      obtain r n' where r: "nd_route W mix s b clk n = (r, n')" by fastforce
      have "offers_ok W n'"
      proof (cases b)
        case (Cons t rest)
        consider "nd_fileMessage W mix s b n = (r, n')" | "nd_availableFiles n' = nd_availableFiles n"
          using r by (auto simp: nd_route_def Cons split: if_splits)
        then show ?thesis
        proof cases
          case 1
          then show ?thesis
          proof (rule fileMessage_cases)
            fix m
            assume m: "heard_manifest W b = Some m"
            assume n': "n' = nd_emit (NFileAvailable m)
              (n\<lparr>nd_file := fn_emit [FManifest m] (fn_registerManifest m (nd_file n)),
                 nd_availableFiles := jm_set (nd_availableFiles n) (mf_file_id m) (m, take 8 (mf_sender_id m))\<rparr>)"
            have "verifyManifest (nw_crypto W) (nw_keys W) m"
              using m by (auto simp: heard_manifest_def split: sum.splits file_msg.splits if_splits)
            then show ?thesis using o by (auto simp: n' offers_ok_def jm_ok_set)
          qed (auto intro: frame)
        qed (rule frame)
      qed (use r in \<open>auto simp: nd_route_def intro: frame\<close>)
      then show ?thesis using OMessage Some r by simp
    qed (simp add: OMessage o)
  next
    case (OSend p t x clk)
    then show ?thesis using sendMessage_fields by (intro frame) (simp, metis prod.collapse)
  next
    case (OSendFile p)
    then show ?thesis using sendFile_fields by (intro frame) (simp, metis prod.collapse)
  next
    case (OUpload nm b w)
    then show ?thesis using upload_fields by (intro frame) (simp, metis prod.collapse)
  next
    case (ODownload f)
    then show ?thesis using download_fields by (intro frame) (simp, metis prod.collapse)
  next
    case (OConnect h p)
    then show ?thesis using connect_fields by (intro frame) (simp, metis prod.collapse)
  next
    case (OAttach h p)
    then show ?thesis by (intro frame) (simp add: nd_attach_def Let_def split: prod.split)
  next
    case (OClosed h)
    then show ?thesis by (intro frame) (simp add: nd_onClose_def Let_def split: option.split)
  qed (auto intro!: frame simp: trustPeer_def nd_getThread_def nd_stop_def Let_def)
qed

lemma offers_run: "offers_ok W n \<Longrightarrow> offers_ok W (node_run W ops n)"
  by (induction W ops n rule: node_run.induct) (simp_all add: offers_step)

text \<open>C29. A file is only offered to the user under the name of who signed it. In every state a node reaches,
  whatever its peers send, each entry of the list of available files is a manifest whose signature verifies
  with the key it names as its sender, filed under its own identifier, and the short name shown for it is the
  beginning of that key.\<close>

theorem offers_verified:
  assumes "new_node W opts cwd now disk tr nm fs = Inr n0" and "node_run W ops n0 = n"
    and "(m, from) \<in> set (listAvailable n)"
  shows "verifyManifest (nw_crypto W) (nw_keys W) m \<and> from = take 8 (mf_sender_id m)
    \<and> jm_get (nd_availableFiles n) (mf_file_id m) = Some (m, from)"
proof -
  have "offers_ok W n0" using assms(1) by (auto simp: new_node_def Let_def bind_res_def offers_ok_def split: sum.splits)
  then have o: "offers_ok W n" using offers_run assms(2) by blast
  obtain f where "(f, m, from) \<in> set (nd_availableFiles n)" using assms(3) by (auto simp: listAvailable_def)
  then have "jm_get (nd_availableFiles n) f = Some (m, from)"
    using o by (simp add: offers_ok_def jm_ok_def jm_keys_def jm_get_def)
  then show ?thesis using o unfolding offers_ok_def by blast
qed

text \<open>A manifest on the wire, and the node that hears it.\<close>

lemma hear_manifest:
  assumes "decode manifest_of_bytes buf = Inr (MManifest m)" and "buf \<noteq> []" and "hd buf = T_MANIFEST"
    and "verifyManifest (nw_crypto W) (nw_keys W) m"
  shows "nd_route W mix s buf clk n =
    (Inr (), nd_emit (NFileAvailable m)
       (n\<lparr>nd_file := fn_emit [FManifest m] (fn_registerManifest m (nd_file n)),
          nd_availableFiles := jm_set (nd_availableFiles n) (mf_file_id m) (m, take 8 (mf_sender_id m))\<rparr>))"
proof -
  have "handleMessage (nw_crypto W) (nw_keys W) manifest_of_bytes mix s buf (nd_file n) =
      (Inr (), fn_emit [FManifest m] (fn_registerManifest m (nd_file n)))"
    using assms by (simp add: handleMessage_def handleMsg_def)
  moreover obtain b where "buf = 0x10 # b" using assms(2,3) by (cases buf) (auto simp: T_MANIFEST_def)
  ultimately show ?thesis by (auto simp: nd_route_def nd_fileMessage_def Let_def thrown_def)
qed

lemma enc_first: "encManifest m \<noteq> [] \<and> hd (encManifest m) = T_MANIFEST"
  by (simp add: encManifest_def)

definition hostile :: manifest where
  "hostile = sign_as demo_crypto (replicate 32 9) (demo_manifest\<lparr>mf_filename := ''../../.bashrc''\<rparr>)"

lemma hostile_verifies: "verifyManifest (nw_crypto demo_env) (nw_keys demo_env) hostile"
proof -
  have "verifyManifest demo_crypto (keystore_of demo_crypto (replicate 32 1))
      (sign_as demo_crypto (replicate 32 9) (demo_manifest\<lparr>mf_filename := ''../../.bashrc''\<rparr>))"
    by (rule verify_signed [OF demo_sign]) (simp_all add: demo_manifest_def)
  then show ?thesis by (simp add: hostile_def demo_env_def)
qed

lemma hostile_decodes: "decode manifest_of_bytes (encManifest hostile) = Inr (MManifest hostile)"
proof (rule decode_manifest)
  show "manifest_wf hostile"
    by (simp add: manifest_wf_def hostile_def sign_as_def Let_def demo_manifest_def well_formed_ascii hex_ascii)
qed

lemmas hear_hostile = hear_manifest [OF hostile_decodes _ _ hostile_verifies, simplified enc_first simp_thms]

theorem offers_verified_witness:
  "\<exists>n m from. node_run demo_env [(\<lambda>f xs. xs, OAttach 0 (replicate 32 2)), (\<lambda>f xs. xs, OMessage 0 (encManifest hostile) (\<lambda>k. 0))]
      demo_node = n \<and> listAvailable n = [(m, from)] \<and> verifyManifest (nw_crypto demo_env) (nw_keys demo_env) m"
proof -
  let ?ops = "[(\<lambda>f xs. xs, OAttach 0 (replicate 32 2)), (\<lambda>f xs. xs, OMessage 0 (encManifest hostile) (\<lambda>k. 0))]"
  have c: "jm_get (nd_conns demo_up) 0 = Some \<lparr>fs_peerId = replicate 32 2, fs_peerHex = session_key (replicate 32 2) 1\<rparr>"
    by (simp add: jm_get_def)
  define n where "n = node_run demo_env ?ops demo_node"
  have "listAvailable n = [(hostile, take 8 (mf_sender_id hostile))]"
    using c by (simp add: n_def demo_up_def [symmetric] hear_hostile listAvailable_def)
  then show ?thesis
    using offers_verified [OF demo_start_ok [unfolded demo_start_def] n_def [symmetric], of hostile "take 8 (mf_sender_id hostile)"]
    by (intro exI [of _ n] exI [of _ hostile] exI [of _ "take 8 (mf_sender_id hostile)"]) (simp add: n_def)
qed

section \<open>Where a file goes\<close>

text \<open>A download can leave its directory. The file name of a manifest is the sender's choice and goes into
  the output path as it is. Of a signed manifest whose name is two steps up and a name, heard on any session,
  the node offers the file, and downloading it writes to the directory two levels above the download
  directory.\<close>

theorem download_escapes:
  assumes "decode manifest_of_bytes buf = Inr (MManifest m)" and "buf \<noteq> []" and "hd buf = T_MANIFEST"
    and "verifyManifest (nw_crypto W) (nw_keys W) m" and "mf_filename m = ''../../'' @ f" and "plain_seg f"
    and "nd_downloadDir n = abs_path (ds @ [d, e])" and "list_all plain_seg (ds @ [d, e])"
    and "nd_route W mix s buf clk n = (r, n1)" and "nd_download W mix2 (mf_file_id m) n1 = (r2, n2)"
  shows "r2 = Inr (abs_path (ds @ [f])) \<and>
    nd_file n2 = fn_download (nw_crypto W) mix2 m (abs_path (ds @ [f])) (Some 16) (nd_file n1)"
proof -
  have n1: "jm_get (nd_availableFiles n1) (mf_file_id m) = Some (m, take 8 (mf_sender_id m))" "nd_downloadDir n1 = nd_downloadDir n"
    using assms(9) by (auto simp: hear_manifest [OF assms(1-4)] nd_emit_def)
  have "path_join [nd_downloadDir n1, mf_filename m] = abs_path (ds @ [f])"
    using path_join_up2 [OF assms(8,6)] assms(5,7) n1(2) by simp
  then show ?thesis using assms(10) by (auto simp: nd_download_def n1(1) Let_def)
qed

lemma demo_downloads: "nd_downloadDir demo_up = abs_path [''d'', ''downloads'']"
proof -
  have "nd_downloadDir demo_up = nd_downloadDir demo_node" by (simp add: demo_up_def nd_attach_def nd_emit_def Let_def split: prod.split)
  also have "\<dots> = path_join [''/d'', ''downloads'']"
    by (simp add: demo_node_def demo_start_def new_node_def demo_env_def demo_options_def Let_def fresh_store startDiscovery_def str_or_def)
  also have "\<dots> = abs_path [''d'', ''downloads'']"
    using path_join_inside [of "[''d'']" "''downloads''"] by (simp add: plain_seg_def abs_path_def)
  finally show ?thesis .
qed

theorem download_escapes_witness:
  "fst (nd_download demo_env (\<lambda>f xs. xs) (mf_file_id hostile)
     (snd (nd_route demo_env (\<lambda>f xs. xs) demo_peer (encManifest hostile) (\<lambda>k. 0) demo_up))) = Inr ''/.bashrc''"
proof -
  obtain r n1 where 1: "nd_route demo_env (\<lambda>f xs. xs) demo_peer (encManifest hostile) (\<lambda>k. 0) demo_up = (r, n1)" by fastforce
  obtain r2 n2 where 2: "nd_download demo_env (\<lambda>f xs. xs) (mf_file_id hostile) n1 = (r2, n2)" by fastforce
  have "r2 = Inr (abs_path ([] @ [''.bashrc'']))"
    using download_escapes [OF hostile_decodes _ _ hostile_verifies _ _ _ _ 1 2, of "''.bashrc''" "[]" "''d''" "''downloads''"]
    by (simp add: enc_first hostile_def plain_seg_def demo_downloads)
  then show ?thesis using 1 2 by (simp add: abs_path_def)
qed

text \<open>C31. An upload stays in its directory. Whatever name the user gives (slashes, dots, control and non-ASCII
  characters), the name used contains only word characters, dots, dashes and spaces and is not empty, so that
  the copy lies directly in \<open>shared\<close>; the one exception are the names \<open>.\<close> and \<open>..\<close>, which pass the filter.\<close>

theorem upload_confined:
  assumes "nd_dataDir n = abs_path ds" and "ds \<noteq> []" and "list_all plain_seg ds"
    and "safe_name filename \<noteq> ''.''" and "safe_name filename \<noteq> ''..''"
  shows "shared_path n filename = abs_path (ds @ [''shared'', safe_name filename]) \<and> plain_seg (safe_name filename)"
proof -
  have "CHR ''/'' \<notin> set (safe_char c)" for c by (auto simp: safe_char_def word_char_def Let_def)
  then have "CHR ''/'' \<notin> set (safe_name filename)" by (auto simp: safe_name_def Let_def)
  moreover have "safe_name filename \<noteq> ''''" by (simp add: safe_name_def Let_def)
  ultimately have p: "plain_seg (safe_name filename)" using assms(4,5) by (simp add: plain_seg_def)
  have s: "plain_seg ''shared''" by (simp add: plain_seg_def)
  have "shared_path n filename = path_join [abs_path (ds @ [''shared'']), safe_name filename]"
    using path_join_inside [OF assms(3,2) s] by (simp add: shared_path_def assms(1))
  also have "\<dots> = abs_path ((ds @ [''shared'']) @ [safe_name filename])"
    by (rule path_join_inside [OF _ _ p]) (use assms(3) s in simp_all)
  finally show ?thesis using p by simp
qed

theorem upload_confined_witness:
  "shared_path (demo_up\<lparr>nd_dataDir := abs_path [''d'']\<rparr>) (Some ''../../x y'') = ''/d/shared/x y''"
proof -
  have n: "safe_name (Some ''../../x y'') = ''x y''"
    by (simp add: safe_name_def str_or_def basename_def safe_char_def word_char_def Let_def)
  show ?thesis
    using upload_confined [of "demo_up\<lparr>nd_dataDir := abs_path [''d'']\<rparr>" "[''d'']" "Some ''../../x y''"]
    by (simp add: n plain_seg_def abs_path_def)
qed

section \<open>The assistant\<close>

text \<open>The requests among the effects, and the peer an operation talks with.\<close>

definition requests :: "node_effect list \<Rightarrow> (string \<times> string) list" where
  "requests es = List.map_filter (\<lambda>e. case e of NFetch u b \<Rightarrow> Some (u, b) | _ \<Rightarrow> None) es"

lemma requests_append [simp]: "requests (a @ b) = requests a @ requests b"
  by (simp add: requests_def List.map_filter_def)

fun talks_with :: "p2p_node \<Rightarrow> node_op \<Rightarrow> string option" where
  "talks_with n (OMessage h buf clk) = map_option (\<lambda>s. hex_of_bytes (fs_peerId s)) (jm_get (nd_conns n) h)"
| "talks_with n (OSend peer text sent clk) = Some peer"
| "talks_with n (OAsk peer query now) = Some peer"
| "talks_with n _ = None"

text \<open>What one step may ask of the assistant: at most one question, about the conversation with \<open>peer\<close>.\<close>

definition asked :: "node_world \<Rightarrow> string \<Rightarrow> p2p_node \<Rightarrow> p2p_node \<Rightarrow> bool" where
  "asked W peer n n' \<longleftrightarrow>
     (\<exists>es. nd_out n' = nd_out n @ es \<and>
        (requests es = [] \<or>
         \<not> nd_noAi n \<and> (\<exists>query. requests es = [(gemini_url (nw_ai W),
            json_text (gemini_body (slice_last (nw_context W) (nd_thread n' peer)) query))])))"

lemma asked_none: "nd_out n' = nd_out n @ es \<Longrightarrow> requests es = [] \<Longrightarrow> asked W peer n n'"
  by (auto simp: asked_def)

lemma requests_other [simp]:
  "requests [] = []" "requests [NChat a b] = []" "requests [NSend h c] = []" "requests [NAiReply a b] = []"
  "requests [NPeerConnected a] = []" "requests [NFileAvailable m] = []" "requests [NConnect j a] = []"
  "requests [NStopped] = []" "requests [NFetch u b] = [(u, b)]"
  by (simp_all add: requests_def List.map_filter_def)

lemma askAI_asked: "asked W p n (askAI W p q t n)"
proof (cases "nd_noAi n")
  case True
  then show ?thesis
    by (intro asked_none [where es = "[NAiReply p ''[IA desactivee - mode --no-ai]'']"]) (simp_all add: askAI_def ai_reply_def Let_def)
next
  case False
  let ?ctx = "slice_last (nw_context W) (nd_thread n p)"
  show ?thesis
  proof (cases "gemini_request (nw_ai W) ?ctx q")
    case (Inl e)
    then show ?thesis using False by (intro asked_none [where es = "[]"]) (simp_all add: askAI_def Let_def)
  next
    case (Inr r)
    then have r: "r = (gemini_url (nw_ai W), json_text (gemini_body ?ctx q))"
      by (auto simp: gemini_request_def split: if_splits)
    have "nd_out (askAI W p q t n) = nd_out n @ [NFetch (fst r) (snd r)]" "nd_thread (askAI W p q t n) p = nd_thread n p"
      using False Inr by (cases r, simp add: askAI_def Let_def)+
    then show ?thesis unfolding asked_def using False
      by (intro exI [of _ "[NFetch (fst r) (snd r)]"]) (auto simp: r)
  qed
qed

lemma asked_after:
  assumes "asked W peer n1 n2" and "nd_out n1 = nd_out n @ es" and "requests es = []" and "nd_noAi n1 = nd_noAi n"
  shows "asked W peer n n2"
proof -
  obtain fs where fs: "nd_out n2 = nd_out n1 @ fs" "requests fs = [] \<or> \<not> nd_noAi n1 \<and> (\<exists>query. requests fs = [(gemini_url (nw_ai W),
            json_text (gemini_body (slice_last (nw_context W) (nd_thread n2 peer)) query))])"
    using assms(1) unfolding asked_def by blast
  have "nd_out n2 = nd_out n @ (es @ fs)" "requests (es @ fs) = requests fs" using fs(1) assms(2,3) by simp_all
  then show ?thesis unfolding asked_def using fs(2) assms(4) by metis
qed

lemma onChat_asked: "asked W (hex_of_bytes (fs_peerId s)) n (nd_onChat W s b clk n)"
proof -
  let ?p = "hex_of_bytes (fs_peerId s)" and ?t = "buf_text b"
  let ?m = "nd_emit (NChat ?p ?t) (push_entry ?p \<lparr>ce_dir = ChatIn, ce_text = ?t, ce_ts = clk 0\<rparr> n)"
  have "asked W ?p n (askAI W ?p (stripTrigger ?t) (clk 1) ?m)"
    by (rule asked_after [OF askAI_asked, where es = "[NChat ?p ?t]"]) simp_all
  moreover have "asked W ?p n ?m" by (rule asked_none [where es = "[NChat ?p ?t]"]) simp_all
  ultimately show ?thesis by (simp add: nd_onChat_def Let_def)
qed

lemma send_asked:
  assumes "nd_sendMessage W p text sent clk n = (r, n')"
  shows "asked W p n n'"
proof (cases "jm_get (nd_sessionsByPeer n) p")
  case None
  then show ?thesis using assms by (intro asked_none [where es = "[]"]) (simp_all add: nd_sendMessage_def)
next
  case (Some h)
  let ?e = "nd_emit (NSend h (CHAT # text_bytes text)) n"
  let ?m = "push_entry p \<lparr>ce_dir = ChatOut, ce_text = text, ce_ts = clk 0\<rparr> ?e"
  have "n' = ?e \<or> n' = ?m \<or> n' = askAI W p (stripTrigger text) (clk 1) ?m"
    using assms by (auto simp: nd_sendMessage_def Some Let_def split: sum.splits if_splits)
  moreover have "asked W p n ?e" "asked W p n ?m"
    by (rule asked_none [where es = "[NSend h (CHAT # text_bytes text)]"], simp_all)+
  moreover have "asked W p n (askAI W p (stripTrigger text) (clk 1) ?m)"
    by (rule asked_after [OF askAI_asked, where es = "[NSend h (CHAT # text_bytes text)]"]) simp_all
  ultimately show ?thesis by blast
qed

lemma fileMessage_out:
  assumes "nd_fileMessage W mix s b n = (r, n')"
  shows "asked W p n n'"
  using assms
proof (rule fileMessage_cases)
  fix m
  assume "n' = nd_emit (NFileAvailable m)
    (n\<lparr>nd_file := fn_emit [FManifest m] (fn_registerManifest m (nd_file n)),
       nd_availableFiles := jm_set (nd_availableFiles n) (mf_file_id m) (m, take 8 (mf_sender_id m))\<rparr>)"
  then show ?thesis by (intro asked_none [where es = "[NFileAvailable m]"]) simp_all
qed (rule asked_none [where es = "[]"], simp_all)+

lemma route_asked:
  assumes "nd_route W mix s b clk n = (r, n')"
  shows "asked W (hex_of_bytes (fs_peerId s)) n n'"
proof (cases b)
  case Nil
  then show ?thesis using assms by (intro asked_none [where es = "[]"]) (simp_all add: nd_route_def)
next
  case (Cons t rest)
  consider "nd_fileMessage W mix s b n = (r, n')" | "n' = nd_onChat W s rest clk n" | "n' = n"
    using assms by (auto simp: nd_route_def Cons split: if_splits)
  then show ?thesis
  proof cases
    case 3
    then show ?thesis by (intro asked_none [where es = "[]"]) simp_all
  qed (use fileMessage_out onChat_asked in auto)
qed

lemma other_out:
  assumes "talks_with n op = None"
  shows "\<exists>es. nd_out (snd (node_step W mix op n)) = nd_out n @ es \<and> requests es = []"
proof -
  have same: "nd_out n' = nd_out n \<Longrightarrow> \<exists>es. nd_out n' = nd_out n @ es \<and> requests es = []" for n' by simp
  have one: "nd_out n' = nd_out n @ [e] \<Longrightarrow> requests [e] = [] \<Longrightarrow> \<exists>es. nd_out n' = nd_out n @ es \<and> requests es = []" for n' e
    by blast
  have sf: "nd_out (snd (nd_sendFile W p m)) = nd_out m" for p m
    by (simp add: nd_sendFile_def split: sum.split prod.split)
  show ?thesis
  proof (cases op)
    case (OMessage h b clk)
    then show ?thesis using assms by simp
  next
    case (OAttach h p)
    then show ?thesis by (auto simp: nd_attach_def Let_def split: prod.split)
  next
    case (OAnswer i out t)
    then show ?thesis by (auto simp: ai_answer_def ai_reply_def Let_def)
  next
    case (OConnect h p)
    then show ?thesis by (auto simp: nd_connect_def split: sum.split)
  next
    case (OClosed h)
    then show ?thesis by (intro same) (simp add: nd_onClose_def Let_def split: option.split)
  next
    case (OUpload nm b w)
    then show ?thesis by (intro same) (simp add: nd_uploadAndShare_def Let_def sf split: sum.split)
  next
    case (ODownload f)
    then show ?thesis by (intro same) (simp add: nd_download_def Let_def split: option.split prod.split)
  next
    case (OThread p)
    then show ?thesis by (intro same) (simp add: nd_getThread_def Let_def)
  next
    case (OStop)
    then show ?thesis by (auto simp: nd_stop_def)
  qed (use assms in \<open>auto simp: sf trustPeer_def Let_def\<close>)
qed

lemma step_asked:
  assumes "node_step W mix op n = (r, n')"
  shows "case talks_with n op of None \<Rightarrow> (\<exists>es. nd_out n' = nd_out n @ es \<and> requests es = []) | Some p \<Rightarrow> asked W p n n'"
proof (cases "talks_with n op")
  case None
  then show ?thesis using other_out [OF None, of W mix] assms by simp
next
  case (Some p)
  show ?thesis
  proof (cases op)
    case (OMessage h b clk)
    then obtain s where "jm_get (nd_conns n) h = Some s" "p = hex_of_bytes (fs_peerId s)" using Some by auto
    then show ?thesis using Some OMessage assms route_asked by simp
  next
    case (OSend q t x clk)
    then show ?thesis using Some assms send_asked by simp
  next
    case (OAsk q query now)
    then show ?thesis using Some assms askAI_asked by auto
  qed (use Some in auto)
qed

text \<open>C30. What leaves for the assistant. One operation of the node sends at most one request outside the
  network of peers; only when the assistant is enabled, only while handling the conversation with one peer
  (a message from it, to it, or a question about it), to the assistant's address, and its body holds the last
  messages of that conversation, as many as configured, and nothing of any other.\<close>

theorem ai_request_confined:
  assumes "node_step W mix op n = (r, n')"
  shows "\<exists>es. nd_out n' = nd_out n @ es \<and>
    (requests es = [] \<or>
     \<not> nd_noAi n \<and>
     (\<exists>peer query. talks_with n op = Some peer \<and>
        requests es = [(gemini_url (nw_ai W), json_text (gemini_body (slice_last (nw_context W) (nd_thread n' peer)) query))]))"
  using step_asked [OF assms] by (auto simp: asked_def split: option.splits)

lemma requests_step: "nd_noAi n \<Longrightarrow> requests (nd_out (snd (node_step W mix op n))) = requests (nd_out n)"
  using step_asked [of W mix op n] by (cases "node_step W mix op n") (auto simp: asked_def split: option.splits)

theorem ai_request_confined_witness:
  "\<exists>n' query. node_step demo_env (\<lambda>f xs. xs) (OAsk ''p'' ''q'' 0) demo_up = (Inr (), n') \<and>
     requests (drop (length (nd_out demo_up)) (nd_out n')) =
       [(gemini_url (nw_ai demo_env), json_text (gemini_body (slice_last 10 (nd_thread n' ''p'')) query))]"
proof -
  define n' where "n' = askAI demo_env ''p'' ''q'' 0 demo_up"
  have s: "node_step demo_env (\<lambda>f xs. xs) (OAsk ''p'' ''q'' 0) demo_up = (Inr (), n')" by (simp add: n'_def)
  have ne: "requests (drop (length (nd_out demo_up)) (nd_out n')) \<noteq> []"
    by (simp add: n'_def askAI_def gemini_request_def demo_env_def Let_def)
  obtain es where es: "nd_out n' = nd_out demo_up @ es" "requests es = [] \<or>
     \<not> nd_noAi demo_up \<and>
     (\<exists>peer query. talks_with demo_up (OAsk ''p'' ''q'' 0) = Some peer \<and>
        requests es = [(gemini_url (nw_ai demo_env), json_text (gemini_body (slice_last (nw_context demo_env) (nd_thread n' peer)) query))])"
    using ai_request_confined [OF s] by blast
  moreover have "nw_context demo_env = 10" by (simp add: demo_env_def)
  ultimately show ?thesis using s ne by auto
qed

lemma step_noAi [simp]: "nd_noAi (snd (node_step W mix op n)) = nd_noAi n"
proof (cases op)
  case (OMessage h b clk)
  then show ?thesis using route_frame by (auto split: option.split) (metis prod.collapse)+
next
  case (OSend p t x clk)
  then show ?thesis using sendMessage_fields by simp (metis prod.collapse)
next
  case (OSendFile p)
  then show ?thesis using sendFile_fields by simp (metis prod.collapse)
next
  case (OUpload nm b w)
  then show ?thesis using upload_fields by simp (metis prod.collapse)
next
  case (ODownload f)
  then show ?thesis using download_fields by simp (metis prod.collapse)
next
  case (OConnect h p)
  then show ?thesis using connect_fields by simp (metis prod.collapse)
next
  case (OAttach h p)
  then show ?thesis by (simp add: nd_attach_def Let_def split: prod.split)
next
  case (OClosed h)
  then show ?thesis by (simp add: nd_onClose_def Let_def split: option.split)
qed (simp_all add: trustPeer_def nd_getThread_def nd_stop_def Let_def)

lemma no_ai_run: "nd_noAi n \<Longrightarrow> requests (nd_out (node_run W ops n)) = requests (nd_out n)"
  by (induction W ops n rule: node_run.induct) (simp_all add: requests_step)

text \<open>The switch \<open>--no-ai\<close> is respected. A node started with it never sends a request to the assistant,
  whatever its user, its peers and its control interface do (triggers in messages received or sent, direct
  questions), and every question is answered at once by the fixed notice in the conversation.\<close>

theorem no_ai_no_request:
  assumes "new_node W opts cwd now disk tr nm fs = Inr n0" and "no_noAi opts" and "node_run W ops n0 = n"
  shows "requests (nd_out n) = [] \<and>
    entries ChatAi (askAI W peer query t n) peer = entries ChatAi n peer @ [''[IA desactivee - mode --no-ai]'']"
proof -
  have n0: "nd_noAi n0" "nd_out n0 = []"
    using assms(1,2) by (auto simp: new_node_def Let_def bind_res_def split: sum.splits)
  have "nd_noAi (node_run W ops m)" if "nd_noAi m" for m
    using that by (induction W ops m rule: node_run.induct) simp_all
  then have "nd_noAi n" using n0(1) assms(3) by blast
  then show ?thesis
    using no_ai_run [OF n0(1), of W ops] assms(3) n0(2) by (simp add: askAI_def ai_reply_def Let_def entries_push)
qed

definition demo_quiet :: p2p_node where
  "demo_quiet = projr (new_node demo_env (demo_options\<lparr>no_noAi := True\<rparr>) ''/'' 0 empty_disk None ''n'' (\<lambda>p. None))"

theorem no_ai_no_request_witness:
  "requests (nd_out (node_run demo_env [(\<lambda>f xs. xs, OAsk ''p'' ''q'' 0)] demo_quiet)) = []"
proof -
  have "\<exists>n. new_node demo_env (demo_options\<lparr>no_noAi := True\<rparr>) ''/'' 0 empty_disk None ''n'' (\<lambda>p. None) = Inr n"
    by (simp add: new_node_def demo_env_def Let_def fresh_store startDiscovery_def)
  then have "new_node demo_env (demo_options\<lparr>no_noAi := True\<rparr>) ''/'' 0 empty_disk None ''n'' (\<lambda>p. None) = Inr demo_quiet"
    unfolding demo_quiet_def by (elim exE) (erule ssubst, rule sum.sel(2) [symmetric, THEN arg_cong])
  from no_ai_no_request [OF this _ refl] show ?thesis by (simp del: node_run.simps)
qed

section \<open>A malformed file message\<close>

text \<open>
  An exception of a \<open>message\<close> listener leaves \<open>_handleFrame\<close> through \<open>emit\<close> and is caught by \<open>_onData\<close> like
  an exception of the session itself.
\<close>

definition listener_threw :: "error \<Rightarrow> clock \<Rightarrow> conn \<Rightarrow> conn" where
  "listener_threw e clk c = fail e (report CryptoError (ErrorMessage e) clk c)"

text \<open>The message handler of the node on what the session delivers.\<close>

definition on_message ::
    "node_world \<Rightarrow> mixer \<Rightarrow> nat \<Rightarrow> bytes \<Rightarrow> clock \<Rightarrow> clock \<Rightarrow> p2p_node \<times> conn \<Rightarrow> p2p_node \<times> conn" where
  "on_message W mix h buf clk rclk x =
     (case node_step W mix (OMessage h buf clk) (fst x) of
        (Inl e, n) \<Rightarrow> (n, listener_threw e rclk (snd x))
      | (Inr _, n) \<Rightarrow> (n, snd x))"

text \<open>C32. A file message that does not decode ends the session. \<open>FileNode\<close> reports it as an \<open>error\<close> event, to
  which the node has attached no listener, so the event is thrown, and the session takes it for a failure of
  its own: it closes, and on a listening node the sender's address gets a strike for a cryptographic error.
  An authenticated peer that sends one truncated request, or a manifest whose text is no JSON, is treated as an
  attacker. The file node itself is left as it was.\<close>

theorem malformed_message_fatal:
  assumes "jm_get (nd_conns n) h = Some s" and "buf = t # rest" and "0x10 \<le> t" and "t \<le> 0x15"
    and "decode manifest_of_bytes buf = Inl e" and "\<not> cn_closed c"
    and "on_message W mix h buf clk rclk (n, c) = (n', c')"
  shows "cn_closed c' \<and> errors (cn_out c') = errors (cn_out c) @ [e] \<and> SockDestroy \<in> set (cn_out c')
    \<and> nd_file n' = fn_emit [FError e] (nd_file n)
    \<and> (cn_sec c \<noteq> None \<longrightarrow> (\<exists>a. Logged a \<in> set (cn_out c') \<and> at_type a = CryptoError))"
proof -
  have "nd_fileMessage W mix s buf n = (Inl e, n\<lparr>nd_file := fn_emit [FError e] (nd_file n)\<rparr>)"
    using assms(5) by (simp add: nd_fileMessage_def handleMessage_def Let_def thrown_def)
  then have "node_step W mix (OMessage h buf clk) n = (Inl e, n\<lparr>nd_file := fn_emit [FError e] (nd_file n)\<rparr>)"
    using assms(1-4) by (simp add: nd_route_def)
  then have n': "n' = n\<lparr>nd_file := fn_emit [FError e] (nd_file n)\<rparr>" and c': "c' = listener_threw e rclk c"
    using assms(7) by (simp_all add: on_message_def)
  let ?r = "report CryptoError (ErrorMessage e) rclk c"
  have f: "c' = emit SockDestroy (emit (ErrorEv e) (?r\<lparr>cn_closed := True, cn_timeout := False, cn_rekeyTimer := False\<rparr>))"
    using assms(6) by (simp add: c' listener_threw_def fail_def)
  have "\<exists>a. Logged a \<in> set (cn_out ?r) \<and> at_type a = CryptoError" if sec: "cn_sec c \<noteq> None"
  proof -
    obtain d where d: "cn_sec c = Some d" using sec by blast
    obtain a d' where a: "security_report CryptoError (cn_remoteIp c) (ErrorMessage e) rclk d = (a, d')" by fastforce
    then have "at_type a = CryptoError" by (auto simp: security_report_def logAttack_def split: prod.splits)
    moreover have "Logged a \<in> set (cn_out ?r)" by (simp add: report_def d a)
    ultimately show ?thesis by blast
  qed
  then show ?thesis
    using n' assms(6) by (auto simp: f)
qed

theorem malformed_message_fatal_witness:
  "\<exists>n' c'. on_message demo_env (\<lambda>f xs. xs) 0 [0x11] (\<lambda>k. 0) (\<lambda>k. 0) (demo_up, demo_conn False) = (n', c') \<and>
     cn_closed c' \<and> errors (cn_out c') = [RangeError]"
proof -
  have c: "jm_get (nd_conns demo_up) 0 = Some \<lparr>fs_peerId = replicate 32 2, fs_peerHex = session_key (replicate 32 2) 1\<rparr>"
    by (simp add: jm_get_def)
  have d: "decode manifest_of_bytes [0x11] = Inl RangeError"
    by (simp add: decode_def T_defs Let_def readUInt32BE_def)
  obtain n' c' where r: "on_message demo_env (\<lambda>f xs. xs) 0 [0x11] (\<lambda>k. 0) (\<lambda>k. 0) (demo_up, demo_conn False) = (n', c')" by fastforce
  have "\<not> cn_closed (demo_conn False)" "cn_out (demo_conn False) = []" by (simp_all add: demo_conn_def)
  then show ?thesis using malformed_message_fatal [OF c refl _ _ d _ r] r by simp
qed

section \<open>The list of peers\<close>

lemma session_row_get:
  "jm_get (foldl session_row m is) i =
     (case jm_get m i of
        Some e \<Rightarrow> Some (if i \<in> set is then e\<lparr>pr_connected := True\<rparr> else e)
      | None \<Rightarrow> if i \<in> set is then Some \<lparr>pr_nodeId = i, pr_address = ''session'', pr_securePort = Some JNull, pr_connected = True\<rparr>
                else None)"
proof (induction "is" arbitrary: m)
  case (Cons j "is")
  show ?case unfolding foldl_Cons Cons by (auto simp: session_row_def Let_def split: option.split)
qed (simp split: option.split)

lemma discovered_rows:
  "jm_ok ps \<Longrightarrow> jm_get (foldl (\<lambda>m (i, p). jm_set m i (f i p)) m ps) i =
     (case jm_get ps i of Some p \<Rightarrow> Some (f i p) | None \<Rightarrow> jm_get m i)"
proof (induction ps arbitrary: m)
  case (Cons x ps)
  obtain j p where x: "x = (j, p)" by (cases x)
  have "jm_ok ps" "jm_get ps j = None" using Cons.prems jm_get_iff_keys [of ps j] by (auto simp: x jm_ok_def jm_keys_def)
  moreover have "jm_get ((j, p) # ps) i = (if i = j then Some p else jm_get ps i)" by (simp add: jm_get_def)
  ultimately show ?case using Cons.IH [of "jm_set m j (f j p)"] by (simp add: x split: option.split)
qed (simp add: jm_get_def)

lemma rows_distinct:
  "jm_ok m \<Longrightarrow> jm_ok (foldl session_row m is)"
  "jm_ok m \<Longrightarrow> jm_ok (foldl (\<lambda>m (i, p). jm_set m i (f i p)) m ps)"
  by (induction "is" arbitrary: m, simp_all add: session_row_def Let_def jm_ok_set)
     (induction ps arbitrary: m, auto simp: jm_ok_set)

text \<open>The table of discovered peers changes with its own events only.\<close>

lemma quiet_disc [simp]:
  "nd_discovery (nd_emit e n) = nd_discovery n" "nd_discovery (push_entry p x n) = nd_discovery n"
  "nd_discovery (ensure_thread p n) = nd_discovery n"
  by (simp_all add: nd_emit_def push_entry_def ensure_thread_def)

lemma askAI_disc [simp]: "nd_discovery (askAI W p q t n) = nd_discovery n"
  by (simp add: askAI_def ai_reply_def Let_def split: sum.split prod.split)

lemma offers_disc [simp]: "nd_discovery (nd_offers es n) = nd_discovery n"
  by (induction es n rule: nd_offers.induct) simp_all

lemma route_disc: "nd_discovery (snd (nd_route W mix s b clk n)) = nd_discovery n"
  by (simp add: nd_route_def nd_fileMessage_def nd_onChat_def Let_def split: list.split prod.split sum.split)

lemma sendFile_disc: "nd_discovery (snd (nd_sendFile W p n)) = nd_discovery n"
  by (simp add: nd_sendFile_def split: sum.split prod.split)

lemma step_disc: "disc_ok (nd_discovery n) \<Longrightarrow> disc_ok (nd_discovery (snd (node_step W mix op n)))"
proof -
  assume d: "disc_ok (nd_discovery n)"
  have same: "nd_discovery n' = nd_discovery n \<Longrightarrow> disc_ok (nd_discovery n')" for n' using d by simp
  show ?thesis
  proof (cases op)
    case (ODiscovery e)
    then show ?thesis using disc_ok_step [OF d] by simp
  next
    case OStop
    then show ?thesis using disc_ok_step [OF d, of StopDiscovery] by (simp add: nd_stop_def)
  next
    case (OMessage h b clk)
    then show ?thesis by (intro same) (simp add: route_disc split: option.split)
  next
    case (OAttach h p)
    then show ?thesis by (intro same) (simp add: nd_attach_def Let_def split: prod.split)
  next
    case (OClosed h)
    then show ?thesis by (intro same) (simp add: nd_onClose_def Let_def split: option.split)
  next
    case (OSend p t x clk)
    then show ?thesis by (intro same) (simp add: nd_sendMessage_def Let_def split: option.split sum.split)
  next
    case (OAnswer i out t)
    then show ?thesis by (intro same) (simp add: ai_answer_def ai_reply_def Let_def)
  next
    case (OUpload nm b w)
    then show ?thesis by (intro same) (simp add: nd_uploadAndShare_def Let_def sendFile_disc split: sum.split)
  next
    case (ODownload f)
    then show ?thesis by (intro same) (simp add: nd_download_def Let_def split: option.split prod.split)
  next
    case (OConnect h p)
    then show ?thesis by (intro same) (simp add: nd_connect_def split: sum.split)
  qed (intro same, simp add: sendFile_disc trustPeer_def nd_getThread_def Let_def)+
qed

lemma disc_run:
  assumes "new_node W opts cwd now disk tr nm fs = Inr n0"
  shows "disc_ok (nd_discovery (node_run W ops n0))"
proof -
  have "disc_ok (nd_discovery (node_run W ops n))" if "disc_ok (nd_discovery n)" for n
    using that by (induction W ops n rule: node_run.induct) (simp_all add: step_disc)
  moreover have "disc_ok (nd_discovery n0)"
    using assms disc_ok_start by (auto simp: new_node_def Let_def bind_res_def split: sum.splits)
  ultimately show ?thesis by blast
qed

text \<open>C33. The list of peers. In every state a node reaches it has exactly one row for each identifier that is
  discovered or has a session; a row is marked as connected exactly when there is a session, as trusted exactly
  when the identifier has been approved, and as the node itself exactly when it is its own identifier; and the
  address shown is the announced one, or \<open>session\<close> for a peer known only by its session.\<close>

theorem peers_listed:
  assumes "new_node W opts cwd now disk tr nm fs = Inr n0" and "node_run W ops n0 = n"
  shows "distinct (map (\<lambda>(e, t, self). pr_nodeId e) (peersList n)) \<and>
    (\<forall>i e t self. (e, t, self) \<in> set (peersList n) \<and> pr_nodeId e = i \<longleftrightarrow>
       (jm_has (ds_peers (nd_discovery n)) i \<or> jm_has (nd_sessionsByPeer n) i) \<and>
       e = \<lparr>pr_nodeId = i,
            pr_address = (case jm_get (ds_peers (nd_discovery n)) i of Some p \<Rightarrow> dp_address p | None \<Rightarrow> ''session''),
            pr_securePort = (case jm_get (ds_peers (nd_discovery n)) i of Some p \<Rightarrow> dp_securePort p | None \<Rightarrow> Some JNull),
            pr_connected = jm_has (nd_sessionsByPeer n) i\<rparr> \<and>
       t = isTrusted (JStr i) (nd_trust n) \<and> self = (i = nd_selfHex n))"
proof -
  let ?ds = "ds_peers (nd_discovery n)" and ?ss = "nd_sessionsByPeer n"
  let ?row = "\<lambda>i. \<lparr>pr_nodeId = i,
      pr_address = (case jm_get ?ds i of Some p \<Rightarrow> dp_address p | None \<Rightarrow> ''session''),
      pr_securePort = (case jm_get ?ds i of Some p \<Rightarrow> dp_securePort p | None \<Rightarrow> Some JNull),
      pr_connected = jm_has ?ss i\<rparr>"
  have d: "jm_ok ?ds" using disc_run [OF assms(1), of ops] assms(2) by (simp add: disc_ok_def)
  have ok: "jm_ok (peer_rows n)" unfolding peer_rows_def getPeers_def by (intro rows_distinct) simp
  have get: "jm_get (peer_rows n) i = (if jm_has ?ds i \<or> jm_has ?ss i then Some (?row i) else None)" for i
    unfolding peer_rows_def getPeers_def session_row_get discovered_rows [OF d]
    by (auto simp: jm_has_def jm_get_iff_keys [symmetric] split: option.split)
  have mem: "(i, e) \<in> set (peer_rows n) \<longleftrightarrow> (jm_has ?ds i \<or> jm_has ?ss i) \<and> e = ?row i" for i e
  proof -
    have "(i, e) \<in> set (peer_rows n) \<longleftrightarrow> jm_get (peer_rows n) i = Some e"
      using ok by (simp add: jm_ok_def jm_keys_def jm_get_def)
    then show ?thesis unfolding get by auto
  qed
  have id: "(i, e) \<in> set (peer_rows n) \<Longrightarrow> pr_nodeId e = i" for i e using mem by auto
  have "map (\<lambda>(e, t, self). pr_nodeId e) (peersList n) = jm_keys (peer_rows n)"
    using id by (auto simp: peersList_def jm_keys_def)
  then have A: "distinct (map (\<lambda>(e, t, self). pr_nodeId e) (peersList n))" using ok by (simp add: jm_ok_def)
  have B: "(e, t, self) \<in> set (peersList n) \<and> pr_nodeId e = i \<longleftrightarrow>
      (i, e) \<in> set (peer_rows n) \<and> t = isTrusted (JStr i) (nd_trust n) \<and> self = (i = nd_selfHex n)" for i e t self
    using id by (force simp: peersList_def)
  show ?thesis by (intro conjI allI A) (simp only: B mem conj_assoc)
qed

theorem peers_listed_witness:
  "map (\<lambda>(e, t, self). pr_nodeId e) (peersList demo_up) = [hex_of_bytes (replicate 32 2)]"
proof -
  let ?i = "hex_of_bytes (replicate 32 2)"
  have e: "ds_peers (nd_discovery demo_up) = []"
    by (simp add: demo_up_def nd_attach_def Let_def demo_node_def demo_start_def new_node_def demo_env_def demo_options_def
        fresh_store startDiscovery_def split: prod.split)
  have r: "peersList demo_up = [(\<lparr>pr_nodeId = ?i, pr_address = ''session'', pr_securePort = Some JNull, pr_connected = True\<rparr>,
      isTrusted (JStr ?i) (nd_trust demo_up), ?i = nd_selfHex demo_up)]"
    by (simp add: peersList_def peer_rows_def getPeers_def e session_row_def jm_keys_def jm_get_def)
  show ?thesis using peers_listed [OF demo_start_ok [unfolded demo_start_def] demo_up_run] by (simp add: r)
qed

section \<open>The state as a whole\<close>

text \<open>The transfer below the node goes through its own operations only.\<close>

lemma upto_same: "node_ok f \<Longrightarrow> f' = f \<Longrightarrow> node_ok f'"
  by simp

lemma sendFile_ok:
  assumes "node_ok (nd_file n)" and "nd_sendFile W p n = (r, n')"
  shows "node_ok (nd_file n')"
proof -
  have "node_ok f" if "seed C fs m p (nd_file n) = (x, f)" for C fs m x f by (rule upto_seed [OF assms(1) that])
  then show ?thesis
    using assms by (fastforce simp: nd_sendFile_def split: option.splits sum.splits if_splits prod.splits)
qed

lemma message_ok:
  assumes "node_ok (nd_file n)" and "mixer_ok mix" and "known_key (fn_seq (nd_file n)) (fs_peerHex s)"
    and "nd_route W mix s buf clk n = (r, n')"
  shows "node_ok (nd_file n')"
proof (cases buf)
  case Nil
  then show ?thesis using assms(1,4) by (simp add: nd_route_def)
next
  case (Cons t rest)
  let ?W = "\<lparr>fw_crypto = nw_crypto W, fw_keys = nw_keys W, fw_json = manifest_of_bytes, fw_files = (\<lambda>p. None)\<rparr>"
  have h: "node_ok (snd (handleMessage (nw_crypto W) (nw_keys W) manifest_of_bytes mix s buf (nd_file n)))"
    using upto_apply [OF assms(1), of mix "FMsg s buf" ?W] assms(2,3) by simp
  consider "nd_fileMessage W mix s buf n = (r, n')" | "n' = nd_onChat W s rest clk n" | "n' = n"
    using assms(4) by (auto simp: nd_route_def Cons split: if_splits)
  then show ?thesis
  proof cases
    case 1
    then show ?thesis using h by (auto simp: nd_fileMessage_def Let_def split: prod.splits)
  qed (use assms(1) in simp_all)
qed

lemma transfer_step:
  assumes "node_ok (nd_file n)" and "sessions_ok n" and "mixer_ok mix"
  shows "node_ok (nd_file (snd (node_step W mix op n)))"
proof (cases op)
  case (OMessage h b clk)
  show ?thesis
  proof (cases "jm_get (nd_conns n) h")
    case (Some s)
    then have "known_key (fn_seq (nd_file n)) (fs_peerHex s)" using assms(2) unfolding sessions_ok_def by metis
    then show ?thesis using message_ok [OF assms(1,3)] OMessage Some by simp (metis prod.collapse)
  qed (use OMessage assms(1) in simp)
next
  case (OAttach h p)
  obtain k f where "attachSession p (nd_file n) = (k, f)" by fastforce
  then show ?thesis using OAttach assms(1) upto_attach [OF assms(1), of p] by (simp add: nd_attach_def Let_def)
next
  case (OClosed h)
  then show ?thesis using assms(1) upto_close [OF assms(1,3)] by (simp add: nd_onClose_def Let_def split: option.split)
next
  case (OSend p t x clk)
  then show ?thesis using assms(1) sendMessage_fields by simp (metis prod.collapse)
next
  case (OSendFile p)
  then show ?thesis using sendFile_ok [OF assms(1)] by simp (metis prod.collapse)
next
  case (OUpload nm b w)
  have "node_ok (nd_file (snd (nd_sendFile W p (n\<lparr>nd_fs := fs\<rparr>))))" for p fs
    using sendFile_ok [of "n\<lparr>nd_fs := fs\<rparr>" W p] assms(1) by simp (metis prod.collapse)
  then show ?thesis using OUpload assms(1) by (simp add: nd_uploadAndShare_def Let_def split: sum.split)
next
  case (ODownload f)
  then show ?thesis using assms(1) upto_download [OF assms(1,3)]
    by (simp add: nd_download_def Let_def split: option.split prod.split)
next
  case (OConnect h p)
  then show ?thesis using assms(1) connect_fields by simp (metis prod.collapse)
next
  case (OFileTimeout f i)
  then show ?thesis using upto_apply [OF assms(1), of mix "FTimeout f i"] assms(3) by simp
next
  case (OFileTick f)
  then show ?thesis using upto_apply [OF assms(1), of mix "FTick f"] assms(3) by simp
qed (use assms(1) in \<open>simp_all add: trustPeer_def nd_getThread_def nd_stop_def Let_def\<close>)

definition node_inv :: "node_world \<Rightarrow> p2p_node \<Rightarrow> bool" where
  "node_inv W n \<longleftrightarrow> sessions_ok n \<and> node_ok (nd_file n) \<and> offers_ok W n \<and> disc_ok (nd_discovery n)"

lemma node_inv_step: "node_inv W n \<Longrightarrow> mixer_ok mix \<Longrightarrow> node_inv W (snd (node_step W mix op n))"
  by (simp add: node_inv_def sessions_step transfer_step offers_step step_disc)

text \<open>C24. The node's state is well-formed at all times. From a start with an intact store, whatever its peers
  send, its user asks and its timers do: each identifier has one session, which is open and authenticated as
  that identifier; no two sessions share a key of the transfer layer, and each is registered there; every
  download in progress keeps the invariant of the transfer layer (distinct requests, within the limit, for
  missing chunks, to sessions that announced them); the offered files are verified and filed under their own
  identifiers; and the table of discovered peers has no duplicate and not the node itself.\<close>

theorem node_well_formed:
  assumes "new_node W opts cwd now disk tr nm fs = Inr n0" and "store_ok (open_store disk)"
    and "list_all (\<lambda>x. mixer_ok (fst x)) ops"
  shows "node_inv W (node_run W ops n0)"
proof (rule node_run_induct [OF _ _ assms(3)])
  have "nd_file n0 = new_file_node (open_store disk) 8"
    using assms(1) by (auto simp: new_node_def Let_def bind_res_def split: sum.splits)
  moreover have "offers_ok W n0" using assms(1) by (auto simp: new_node_def Let_def bind_res_def offers_ok_def split: sum.splits)
  moreover have "disc_ok (nd_discovery n0)" using disc_run [OF assms(1), of "[]"] by simp
  ultimately show "node_inv W n0" using sessions_start [OF assms(1)] node_ok_new [OF assms(2)] by (simp add: node_inv_def)
qed (rule node_inv_step)

theorem node_well_formed_witness:
  "node_inv demo_env (node_run demo_env [(\<lambda>f xs. xs, OAttach 0 (replicate 32 2)), (\<lambda>f xs. xs, OClosed 0)] demo_node)"
  using node_well_formed [OF demo_start_ok [unfolded demo_start_def] store_ok_empty,
      of "[(\<lambda>f xs. xs, OAttach 0 (replicate 32 2)), (\<lambda>f xs. xs, OClosed 0)]"] mixer_id by simp

end
