(* ===== verification/Control.thy ===== *)
theory Control
  imports NodeSafe
begin

text \<open>
  \<open>src/node/controlServer.js\<close>: the HTTP server through which the user's application drives the node. A request
  is its method, its parsed address and the chunks of its body; the answer is a status with a JSON value, or
  nothing. \<open>http\<close>, \<open>url.parse\<close> and listening are the runtime's. Calls that wait (for the assistant, for a
  download) are answered by \<open>ctl_resume\<close> when the outcome is known. What a handler throws becomes the answer
  400, with the error in the place of its message. Fields of a body that have another type than the handler
  reads (a number for an identifier, a list for a text) are outside the model: the answer is \<open>CtlOther\<close>.
\<close>

section \<open>Requests\<close>

record http_request =
  rq_method :: string
  rq_path :: string
  rq_peer :: "string option"        \<comment> \<open>\<open>query.peer\<close>\<close>
  rq_chunks :: "bytes list"

datatype awaiting = AwMessage | AwAsk | AwDownload string string

datatype ctl_reply =
    CtlReply nat json | CtlNoContent | CtlFail error | CtlAwait awaiting | CtlClosed | CtlOther

text \<open>The number of UTF-16 units of a text.\<close>

definition unit_count :: "string \<Rightarrow> nat" where
  "unit_count t =
     sum_list (map (\<lambda>c. let n = (of_char c :: nat) in if n < 0x80 then 1 else if n < 0xC0 then 0 else if n < 0xF0 then 1 else 2) t)"

text \<open>
  \<open>readBody\<close>: every chunk is converted to text on its own. Past the limit the request is destroyed, and the
  promise is never settled. A body that is no JSON counts as the empty object.
\<close>

definition BODY_LIMIT :: nat where "BODY_LIMIT = 64 * 1024 * 1024"

fun read_chunks :: "string \<Rightarrow> bytes list \<Rightarrow> string option" where
  "read_chunks b [] = Some b"
| "read_chunks b (c # cs) =
     (let b = b @ buf_text c in if BODY_LIMIT < unit_count b then None else read_chunks b cs)"

definition readBody :: "bytes list \<Rightarrow> json option" where
  "readBody cs =
     (case read_chunks '''' cs of
        None \<Rightarrow> None
      | Some b \<Rightarrow> Some (if b = '''' then JObj [] else case json_parse b of Inl e \<Rightarrow> JObj [] | Inr v \<Rightarrow> v))"

text \<open>
  \<open>Buffer.from(text, 'base64')\<close>: characters outside both alphabets are skipped, the first \<open>=\<close> ends the text,
  incomplete bytes are dropped.
\<close>

definition base64_digit :: "char \<Rightarrow> nat option" where
  "base64_digit c =
     (let n = (of_char c :: nat) in
      if 65 \<le> n \<and> n \<le> 90 then Some (n - 65) else if 97 \<le> n \<and> n \<le> 122 then Some (n - 71)
      else if 48 \<le> n \<and> n \<le> 57 then Some (n + 4)
      else if c \<in> {CHR ''+'', CHR ''-''} then Some 62 else if c \<in> {CHR ''/'', CHR ''_''} then Some 63 else None)"

fun base64_groups :: "nat list \<Rightarrow> bytes" where
  "base64_groups (a # b # c # d # r) =
     of_nat (4 * a + b div 16) # of_nat (16 * (b mod 16) + c div 4) # of_nat (64 * (c mod 4) + d) # base64_groups r"
| "base64_groups [a, b, c] = [of_nat (4 * a + b div 16), of_nat (16 * (b mod 16) + c div 4)]"
| "base64_groups [a, b] = [of_nat (4 * a + b div 16)]"
| "base64_groups _ = []"

definition from_base64 :: "string \<Rightarrow> bytes" where
  "from_base64 t = base64_groups (List.map_filter base64_digit (takeWhile (\<lambda>c. c \<noteq> CHR ''='') t))"

section \<open>Answers\<close>

definition dir_text :: "chat_dir \<Rightarrow> string" where
  "dir_text d = (case d of ChatIn \<Rightarrow> ''in'' | ChatOut \<Rightarrow> ''out'' | ChatAi \<Rightarrow> ''ai'')"

definition entry_json :: "chat_entry \<Rightarrow> json" where
  "entry_json e = JObj [(''dir'', JStr (dir_text (ce_dir e))), (''text'', JStr (ce_text e)), (''ts'', JNum (ce_ts e))]"

definition row_json :: "peer_row \<times> bool \<times> bool \<Rightarrow> json" where
  "row_json x =
     (case x of (e, trusted, self) \<Rightarrow>
        JObj ([(''nodeId'', JStr (pr_nodeId e)), (''address'', JStr (pr_address e))] @
          (case pr_securePort e of None \<Rightarrow> [] | Some p \<Rightarrow> [(''securePort'', p)]) @
          [(''connected'', JBool (pr_connected e)), (''trusted'', JBool trusted), (''self'', JBool self)]))"

definition shared_json :: "manifest \<Rightarrow> json" where
  "shared_json m =
     JObj [(''file_id'', JStr (mf_file_id m)), (''filename'', JStr (mf_filename m)), (''size'', JNum (mf_size m)),
       (''nb_chunks'', JNum (int (mf_nb_chunks m)))]"

definition offer_json :: "manifest \<times> string \<Rightarrow> json" where
  "offer_json x = (case shared_json (fst x) of JObj ms \<Rightarrow> JObj (ms @ [(''from'', JStr (snd x))]))"

definition api_index :: json where
  "api_index =
     JObj [(''name'', JStr ''AttestP2P''), (''api'', JStr ''control''),
       (''ui'', JStr ''application mobile React Native (dossier mobile/)''),
       (''routes'', JArr (map JStr [''/status'', ''/peers'', ''/receive'', ''/messages?peer='', ''/connect'', ''/msg'',
          ''/send'', ''/upload'', ''/download'', ''/trust'', ''/ask'']))]"

definition no_route :: ctl_reply where
  "no_route = CtlReply 404 (JObj [(''error'', JStr ''route inconnue'')])"

definition ctl_ok :: "(string \<times> json) list \<Rightarrow> ctl_reply" where
  "ctl_ok ms = CtlReply 200 (JObj ((''ok'', JBool True) # ms))"

section \<open>The handler\<close>

text \<open>What the node's environment does during a call: outcome of \<open>send\<close> and of the file write, clock.\<close>

record ctl_world =
  cw_sent :: "unit res"
  cw_written :: "unit res"
  cw_clock :: clock
  cw_mix :: mixer

text \<open>A member of the body: absent, a text, or of another type. Reading a member of \<open>null\<close> throws.\<close>

datatype member = Absent | Text string | OtherValue json

definition member_of :: "json \<Rightarrow> string \<Rightarrow> member" where
  "member_of body k = (case json_get body k of None \<Rightarrow> Absent | Some (JStr s) \<Rightarrow> Text s | Some v \<Rightarrow> OtherValue v)"

definition ctl_result :: "('a \<Rightarrow> json) \<Rightarrow> 'a res \<times> p2p_node \<Rightarrow> ctl_reply \<times> p2p_node" where
  "ctl_result f x = (case x of (Inl e, n) \<Rightarrow> (CtlFail e, n) | (Inr v, n) \<Rightarrow> (CtlReply 200 (f v), n))"

definition ctl_connect :: "node_world \<Rightarrow> json \<Rightarrow> p2p_node \<Rightarrow> ctl_reply \<times> p2p_node" where
  "ctl_connect W body n =
     (case json_get body ''port'' of
        None \<Rightarrow> (CtlFail RangeError, n)
      | Some port \<Rightarrow>
          (case (case member_of body ''host'' of Absent \<Rightarrow> Some ''''  | Text h \<Rightarrow> Some h | OtherValue v \<Rightarrow> if json_truthy v then None else Some '''') of
             None \<Rightarrow> (CtlOther, n)
           | Some h \<Rightarrow>
               (case nd_connect W (if h = '''' then ''127.0.0.1'' else h) port n of
                  (Inl e, n) \<Rightarrow> (CtlFail e, n)
                | (Inr _, n) \<Rightarrow> (ctl_ok [], n))))"

text \<open>
  \<open>sendMessage\<close> gives \<open>null\<close>, or the promise of the assistant's reply; with \<open>--no-ai\<close> that one is settled
  at once. A text that is missing or of a type \<open>Buffer.from\<close> refuses throws after the session is looked up.
\<close>

definition ctl_message :: "node_world \<Rightarrow> ctl_world \<Rightarrow> json \<Rightarrow> p2p_node \<Rightarrow> ctl_reply \<times> p2p_node" where
  "ctl_message W cw body n =
     (case (member_of body ''nodeId'', member_of body ''text'') of
        (Text peer, Text text) \<Rightarrow>
          (case nd_sendMessage W peer text (cw_sent cw) (cw_clock cw) n of
             (Inl e, n) \<Rightarrow> (CtlFail e, n)
           | (Inr _, n) \<Rightarrow>
               (if \<not> isAiTrigger text then ctl_ok [(''aiReply'', JNull)]
                else if nd_noAi n then ctl_ok [(''aiReply'', JStr (ce_text (last (nd_thread n peer))))]
                else CtlAwait AwMessage, n))
      | (Text peer, Absent) \<Rightarrow>
          (CtlFail (if jm_has (nd_sessionsByPeer n) peer then TypeError else NoSession), n)
      | (Absent, t) \<Rightarrow> (CtlFail TypeError, n)
      | _ \<Rightarrow> (CtlOther, n))"

definition ctl_ask :: "node_world \<Rightarrow> ctl_world \<Rightarrow> json \<Rightarrow> p2p_node \<Rightarrow> ctl_reply \<times> p2p_node" where
  "ctl_ask W cw body n =
     (case (member_of body ''nodeId'', member_of body ''query'') of
        (Text peer, Text query) \<Rightarrow>
          (let n = askAI W peer query (cw_clock cw 0) n in
           (if nd_noAi n then CtlReply 200 (JObj [(''reply'', JStr (ce_text (last (nd_thread n peer))))])
            else CtlAwait AwAsk, n))
      | _ \<Rightarrow> (CtlOther, n))"

definition ctl_send :: "node_world \<Rightarrow> json \<Rightarrow> p2p_node \<Rightarrow> ctl_reply \<times> p2p_node" where
  "ctl_send W body n =
     (case member_of body ''filepath'' of
        Text p \<Rightarrow> ctl_result shared_json (nd_sendFile W p n)
      | _ \<Rightarrow> (CtlFail FileNotFound, n))"

definition ctl_upload :: "node_world \<Rightarrow> ctl_world \<Rightarrow> json \<Rightarrow> p2p_node \<Rightarrow> ctl_reply \<times> p2p_node" where
  "ctl_upload W cw body n =
     (case (case member_of body ''filename'' of Absent \<Rightarrow> Some None | Text s \<Rightarrow> Some (Some s)
            | OtherValue v \<Rightarrow> if json_truthy v then None else Some None,
            case member_of body ''dataBase64'' of Absent \<Rightarrow> Some '''' | Text s \<Rightarrow> Some s
            | OtherValue v \<Rightarrow> if json_truthy v then None else Some '''') of
        (Some nm, Some data) \<Rightarrow> ctl_result shared_json (nd_uploadAndShare W nm (from_base64 data) (cw_written cw) n)
      | _ \<Rightarrow> (CtlOther, n))"

definition ctl_download :: "node_world \<Rightarrow> ctl_world \<Rightarrow> json \<Rightarrow> p2p_node \<Rightarrow> ctl_reply \<times> p2p_node" where
  "ctl_download W cw body n =
     (case member_of body ''file_id'' of
        Text f \<Rightarrow>
          (case nd_download W (cw_mix cw) f n of
             (Inl e, n') \<Rightarrow> (CtlFail e, n')
           | (Inr out, n') \<Rightarrow>
               (CtlAwait (AwDownload out (case jm_get (nd_availableFiles n) f of Some (m, from) \<Rightarrow> mf_filename m
                  | None \<Rightarrow> (case jm_get (fn_manifests (nd_file n)) f of Some m \<Rightarrow> mf_filename m | None \<Rightarrow> ''''))), n'))
      | _ \<Rightarrow> (CtlOther, n))"

definition ctl_trust :: "json \<Rightarrow> p2p_node \<Rightarrow> ctl_reply \<times> p2p_node" where
  "ctl_trust body n =
     (case json_get body ''nodeId'' of
        None \<Rightarrow> (CtlOther, n)
      | Some i \<Rightarrow> (case trustPeer i n of (l, n) \<Rightarrow> (CtlReply 200 (JObj [(''trusted'', JArr l)]), n)))"

definition POST_PATHS :: "string list" where
  "POST_PATHS = [''/connect'', ''/msg'', ''/send'', ''/upload'', ''/download'', ''/trust'', ''/ask'']"

definition ctl_post :: "node_world \<Rightarrow> ctl_world \<Rightarrow> string \<Rightarrow> json \<Rightarrow> p2p_node \<Rightarrow> ctl_reply \<times> p2p_node" where
  "ctl_post W cw path body n =
     (if path \<notin> set POST_PATHS then (no_route, n)
      else if body = JNull then (CtlFail TypeError, n)
      else if path = ''/connect'' then ctl_connect W body n
      else if path = ''/msg'' then ctl_message W cw body n
      else if path = ''/send'' then ctl_send W body n
      else if path = ''/upload'' then ctl_upload W cw body n
      else if path = ''/download'' then ctl_download W cw body n
      else if path = ''/trust'' then ctl_trust body n
      else ctl_ask W cw body n)"

definition ctl_get :: "ctl_world \<Rightarrow> string \<Rightarrow> string option \<Rightarrow> p2p_node \<Rightarrow> ctl_reply \<times> p2p_node" where
  "ctl_get cw path peer n =
     (if path = ''/'' then (CtlReply 200 api_index, n)
      else if path = ''/status'' then (CtlReply 200 (nd_status (cw_clock cw 0) n), n)
      else if path = ''/peers'' then (CtlReply 200 (JArr (map row_json (peersList n))), n)
      else if path = ''/receive'' then (CtlReply 200 (JArr (map offer_json (listAvailable n))), n)
      else if path = ''/messages'' then
        (case nd_getThread (case peer of None \<Rightarrow> '''' | Some p \<Rightarrow> p) n of
           (t, n) \<Rightarrow> (CtlReply 200 (JArr (map entry_json t)), n))
      else (no_route, n))"

definition ctl_handle :: "node_world \<Rightarrow> ctl_world \<Rightarrow> http_request \<Rightarrow> p2p_node \<Rightarrow> ctl_reply \<times> p2p_node" where
  "ctl_handle W cw rq n =
     (if rq_method rq = ''OPTIONS'' then (CtlNoContent, n)
      else if rq_method rq = ''GET'' then ctl_get cw (rq_path rq) (rq_peer rq) n
      else if rq_method rq = ''POST'' then
        (case readBody (rq_chunks rq) of
           None \<Rightarrow> (CtlClosed, n)
         | Some body \<Rightarrow> ctl_post W cw (rq_path rq) body n)
      else (no_route, n))"

text \<open>The outcome a call was waiting for: the reply of the assistant, or hash and match of a download.\<close>

datatype awaited = GotReply string | GotFile "(string \<times> bool) res"

fun ctl_resume :: "awaiting \<Rightarrow> awaited \<Rightarrow> ctl_reply" where
  "ctl_resume AwMessage (GotReply r) = ctl_ok [(''aiReply'', JStr r)]"
| "ctl_resume AwAsk (GotReply r) = CtlReply 200 (JObj [(''reply'', JStr r)])"
| "ctl_resume (AwDownload out nm) (GotFile (Inl e)) = CtlFail e"
| "ctl_resume (AwDownload out nm) (GotFile (Inr (sha, ok))) =
     CtlReply 200 (JObj [(''sha256'', JStr sha), (''matches'', JBool ok), (''outPath'', JStr out), (''out'', JStr out),
       (''filename'', JStr nm)])"
| "ctl_resume _ _ = CtlOther"

section \<open>A request is at most one operation of the node\<close>

text \<open>The method and the path under which an operation is reached.\<close>

fun api_route :: "node_op \<Rightarrow> (string \<times> string) option" where
  "api_route (OConnect host port) = Some (''POST'', ''/connect'')"
| "api_route (OSend peer text sent clk) = Some (''POST'', ''/msg'')"
| "api_route (OSendFile path) = Some (''POST'', ''/send'')"
| "api_route (OUpload filename buffer written) = Some (''POST'', ''/upload'')"
| "api_route (ODownload fileId) = Some (''POST'', ''/download'')"
| "api_route (OTrust i) = Some (''POST'', ''/trust'')"
| "api_route (OAsk peer query now) = Some (''POST'', ''/ask'')"
| "api_route (OThread peer) = Some (''GET'', ''/messages'')"
| "api_route _ = None"

definition by_route :: "node_world \<Rightarrow> mixer \<Rightarrow> string \<Rightarrow> string \<Rightarrow> p2p_node \<Rightarrow> p2p_node \<Rightarrow> bool" where
  "by_route W mix m p n n' \<longleftrightarrow>
     (\<exists>ops. length ops \<le> 1 \<and> list_all (\<lambda>(mx, op). mx = mix \<and> api_route op = Some (m, p)) ops \<and> n' = node_run W ops n)"

lemma by_route_none: "by_route W mix m p n n"
  unfolding by_route_def by (intro exI [of _ "[]"]) simp

lemma by_route_one: "api_route op = Some (m, p) \<Longrightarrow> n' = snd (node_step W mix op n) \<Longrightarrow> by_route W mix m p n n'"
  unfolding by_route_def by (intro exI [of _ "[(mix, op)]"]) simp

lemma ctl_result_node: "snd (ctl_result f x) = snd x"
  by (auto simp: ctl_result_def split: prod.split sum.split)

lemma connect_route: "by_route W mix ''POST'' ''/connect'' n (snd (ctl_connect W body n))"
proof -
  have one: "by_route W mix ''POST'' ''/connect'' n (snd (nd_connect W h p n))" for h p
    by (rule by_route_one [of "OConnect h p"]) simp_all
  have "snd (case nd_connect W h p n of (Inl e, n) \<Rightarrow> (CtlFail e, n) | (Inr u, n) \<Rightarrow> (ctl_ok [], n)) = snd (nd_connect W h p n)" for h p
    by (auto split: prod.split sum.split)
  then show ?thesis unfolding ctl_connect_def using one
    by (auto simp: by_route_none split: option.split)
qed

lemma message_route: "by_route W (cw_mix cw) ''POST'' ''/msg'' n (snd (ctl_message W cw body n))"
proof -
  have one: "by_route W (cw_mix cw) ''POST'' ''/msg'' n (snd (nd_sendMessage W p t (cw_sent cw) (cw_clock cw) n))" for p t
    by (rule by_route_one [of "OSend p t (cw_sent cw) (cw_clock cw)"]) simp_all
  have "snd (case nd_sendMessage W p t (cw_sent cw) (cw_clock cw) n of (Inl e, n) \<Rightarrow> (CtlFail e, n) | (Inr u, n) \<Rightarrow> (g n, n))
      = snd (nd_sendMessage W p t (cw_sent cw) (cw_clock cw) n)" for p t and g :: "p2p_node \<Rightarrow> ctl_reply"
    by (auto split: prod.split sum.split)
  then show ?thesis unfolding ctl_message_def using one
    by (cases "member_of body ''nodeId''"; cases "member_of body ''text''") (simp_all add: by_route_none)
qed

lemma ask_route: "by_route W (cw_mix cw) ''POST'' ''/ask'' n (snd (ctl_ask W cw body n))"
proof -
  have "by_route W (cw_mix cw) ''POST'' ''/ask'' n (askAI W p q (cw_clock cw 0) n)" for p q
    by (rule by_route_one [of "OAsk p q (cw_clock cw 0)"]) simp_all
  then show ?thesis unfolding ctl_ask_def
    by (cases "member_of body ''nodeId''"; cases "member_of body ''query''") (simp_all add: by_route_none Let_def)
qed

lemma send_route: "by_route W mix ''POST'' ''/send'' n (snd (ctl_send W body n))"
proof -
  have "by_route W mix ''POST'' ''/send'' n (snd (nd_sendFile W p n))" for p
    by (rule by_route_one [of "OSendFile p"]) simp_all
  then show ?thesis unfolding ctl_send_def
    by (cases "member_of body ''filepath''") (simp_all add: by_route_none ctl_result_node)
qed

lemma upload_route: "by_route W (cw_mix cw) ''POST'' ''/upload'' n (snd (ctl_upload W cw body n))"
proof -
  have "by_route W (cw_mix cw) ''POST'' ''/upload'' n (snd (nd_uploadAndShare W nm b (cw_written cw) n))" for nm b
    by (rule by_route_one [of "OUpload nm b (cw_written cw)"]) simp_all
  then show ?thesis unfolding ctl_upload_def
    by (auto simp: by_route_none ctl_result_node split: option.split prod.split)
qed

lemma download_route: "by_route W (cw_mix cw) ''POST'' ''/download'' n (snd (ctl_download W cw body n))"
proof -
  have one: "by_route W (cw_mix cw) ''POST'' ''/download'' n (snd (nd_download W (cw_mix cw) f n))" for f
    by (rule by_route_one [of "ODownload f"]) simp_all
  have "snd (case nd_download W (cw_mix cw) f n of (Inl e, n') \<Rightarrow> (CtlFail e, n') | (Inr out, n') \<Rightarrow> (g out, n'))
      = snd (nd_download W (cw_mix cw) f n)" for f and g :: "string \<Rightarrow> ctl_reply"
    by (auto split: prod.split sum.split)
  then show ?thesis unfolding ctl_download_def using one
    by (cases "member_of body ''file_id''") (simp_all add: by_route_none)
qed

lemma trust_route: "by_route W mix ''POST'' ''/trust'' n (snd (ctl_trust body n))"
proof -
  have one: "by_route W mix ''POST'' ''/trust'' n (snd (trustPeer i n))" for i
    by (rule by_route_one [of "OTrust i"]) simp_all
  have "snd (ctl_trust body n) = (case json_get body ''nodeId'' of None \<Rightarrow> n | Some i \<Rightarrow> snd (trustPeer i n))"
    by (auto simp: ctl_trust_def split: option.split prod.split)
  then show ?thesis using one by (auto simp: by_route_none split: option.split)
qed

lemma get_route: "by_route W mix ''GET'' path n (snd (ctl_get cw path peer n))"
proof (cases "path = ''/messages''")
  case True
  define q where "q = (case peer of None \<Rightarrow> '''' | Some p \<Rightarrow> p)"
  have "snd (ctl_get cw path peer n) = snd (nd_getThread q n)"
    by (simp add: ctl_get_def True q_def split: prod.split)
  then show ?thesis by (intro by_route_one [of "OThread q"]) (simp_all add: True)
qed (simp add: ctl_get_def by_route_none)


section \<open>Reading a body\<close>

lemma unit_count_append [simp]: "unit_count (a @ b) = unit_count a + unit_count b"
  by (simp add: unit_count_def)

lemma read_chunks_whole:
  "list_all well_formed ts \<Longrightarrow> unit_count (b @ concat ts) \<le> BODY_LIMIT \<Longrightarrow>
   read_chunks b (map text_bytes ts) = Some (b @ concat ts)"
  by (induction ts arbitrary: b) (simp_all add: buf_text_bytes Let_def)

lemma json_text_nonempty: "json_plain v \<Longrightarrow> json_text v \<noteq> ''''"
  using starts_json_text [of v "''''"] by (auto simp: starts_value_def)

text \<open>A body that is cut between characters arrives. The value a client sends as JSON text is the value the
  handler gets, however the bytes are cut into chunks between characters, up to the limit.\<close>

theorem body_roundtrip:
  assumes "json_plain v" and "json_wf v" and "concat ts = json_text v" and "list_all well_formed ts"
    and "unit_count (json_text v) \<le> BODY_LIMIT"
  shows "readBody (map text_bytes ts) = Some v"
  using read_chunks_whole [of ts "''''"] assms json_text_nonempty [OF assms(1)] json_parse_text [OF assms(1)]
  by (simp add: readBody_def)

theorem body_roundtrip_witness:
  "readBody (map text_bytes [''{\"a\":\"'', [CHR 0xC3, CHR 0xA9], ''\"}'']) = Some (JObj [(''a'', JStr [CHR 0xC3, CHR 0xA9])])"
proof -
  have e: "well_formed [CHR 0xC3, CHR 0xA9]"
    using lead_step [of "CHR 0xC3" 1 "0x80" "0xBF" "[CHR 0xA9]" "[]"] by (simp add: well_formed_def utf8_lead_def utf8_lossy.simps [of "[]"])
  show ?thesis
    by (rule body_roundtrip)
      (auto simp: json_string_def json_escape_def e well_formed_ascii unit_count_def BODY_LIMIT_def)
qed

text \<open>A character cut by the end of a chunk is lost: both its parts are replaced, whatever surrounds them.\<close>

theorem split_character:
  assumes "well_formed x" and "well_formed y" and "utf8_lead (of_char c) = Some (1, lo, hi)"
    and "utf8_tail 1 lo hi [k] = [k]" and "unit_count (x @ replacement @ replacement @ y) \<le> BODY_LIMIT"
  shows "read_chunks '''' [text_bytes (x @ [c]), text_bytes (k # y)] = Some (x @ replacement @ replacement @ y)"
proof -
  have c: "\<not> (of_char c :: nat) < 0x80" using assms(3) by (auto simp: utf8_lead_def split: if_splits)
  then have "utf8_lossy [c] = replacement" using assms(3)
    by (subst utf8_lossy.simps) (simp add: Let_def utf8_lossy.simps [of "[]"])
  then have 1: "buf_text (text_bytes (x @ [c])) = x @ replacement"
    using lossy_append [OF assms(1), of "[c]"] by (simp add: buf_text_def)
  have k: "0x80 \<le> (of_char k :: nat)" "(of_char k :: nat) \<le> 0xBF"
    using assms(3,4) by (auto simp: utf8_lead_def eval_nat_numeral split: if_splits)
  have "utf8_lead (of_char k) = None" using k by (simp add: utf8_lead_def)
  then have 2: "buf_text (text_bytes (k # y)) = replacement @ y"
    using k assms(2) by (simp add: buf_text_def well_formed_def) (subst utf8_lossy.simps, simp)
  show ?thesis using assms(5) by (simp add: 1 2 Let_def)
qed

theorem split_character_witness:
  "read_chunks '''' [text_bytes ([] @ [CHR 0xC3]), text_bytes (CHR 0xA9 # [])] = Some ([] @ replacement @ replacement @ [])"
  by (rule split_character [of _ _ _ "0x80" "0xBF"]) (simp_all add: utf8_lead_def unit_count_def replacement_def BODY_LIMIT_def)

end
