(* ===== verification/Settings.thy ===== *)
theory Settings
  imports NodeSafe TcpServer PeerManager
begin

text \<open>
  The part of \<open>src/config.js\<close> that the environment decides, the intervals of the timers, and \<open>src/index.js\<close>, the
  process without user interface: packet server, session server, discovery and peer manager. The environment
  is a function from names to values, as \<open>dotenv\<close> leaves it.
\<close>

section \<open>Settings\<close>

type_synonym environment = "string \<Rightarrow> string option"

text \<open>
  \<open>Number(text)\<close> of a text of decimal digits, of one that cannot be a numeral (\<open>JNull\<close> is \<open>NaN\<close>, which
  \<open>JSON.stringify\<close> writes so) and of the empty text; \<open>None\<close> is for anything else that begins like a numeral.
\<close>

definition js_number :: "string \<Rightarrow> json option" where
  "js_number text =
     (let t = trim text in
      if t = '''' then Some (JNum 0)
      else if list_all is_digit t \<and> length t \<le> 15 then Some (JNum (int (undecimal 0 t)))
      else if is_digit (hd t) \<or> hd t \<in> {CHR ''+'', CHR ''-'', CHR ''.'', CHR ''I''} then None else Some JNull)"

text \<open>\<open>Number(process.env.X) || d\<close>.\<close>

definition env_number :: "environment \<Rightarrow> string \<Rightarrow> nat \<Rightarrow> nat option" where
  "env_number E x d =
     (case E x of None \<Rightarrow> Some d
      | Some t \<Rightarrow>
          (case js_number t of
             None \<Rightarrow> None
           | Some (JNum i) \<Rightarrow> Some (if i = 0 then d else nat i)
           | Some _ \<Rightarrow> Some d))"

definition TCP_PORT :: "environment \<Rightarrow> nat option" where "TCP_PORT E = env_number E ''TCP_PORT'' 7777"
definition SECURE_TCP_PORT :: "environment \<Rightarrow> nat option" where
  "SECURE_TCP_PORT E = env_number E ''SECURE_TCP_PORT'' 7778"
definition NODE_NAME :: "environment \<Rightarrow> string" where "NODE_NAME E = str_or (E ''NODE_NAME'') ''attestp2p-node''"
definition MULTICAST_ADDR :: "environment \<Rightarrow> string" where
  "MULTICAST_ADDR E = str_or (E ''MULTICAST_ADDR'') ''239.255.42.99''"
definition MULTICAST_PORT :: "environment \<Rightarrow> nat option" where
  "MULTICAST_PORT E = env_number E ''MULTICAST_PORT'' 6000"
definition IDENTITY_FILE :: "environment \<Rightarrow> string \<Rightarrow> string" where
  "IDENTITY_FILE E cwd = str_or (E ''IDENTITY_FILE'') (path_join [cwd, ''identity.key''])"
definition ATTACK_LOG_FILE :: "environment \<Rightarrow> string \<Rightarrow> string" where
  "ATTACK_LOG_FILE E cwd = str_or (E ''ATTACK_LOG_FILE'') (path_join [cwd, ''logs'', ''attacks.log''])"

definition SOCKET_IDLE_TIMEOUT :: time where "SOCKET_IDLE_TIMEOUT = 10000"
definition DISCOVERY_INTERVAL_MS :: time where "DISCOVERY_INTERVAL_MS = 5000"
definition PEER_DIAL_INTERVAL_MS :: time where "PEER_DIAL_INTERVAL_MS = 3000"
definition SESSION_HANDSHAKE_TIMEOUT :: time where "SESSION_HANDSHAKE_TIMEOUT = 5000"

text \<open>The timers fit together: a peer that announces itself in every interval is never forgotten in between.\<close>

lemma announced_in_time: "2 * DISCOVERY_INTERVAL_MS < PEER_TTL_MS"
  by (simp add: DISCOVERY_INTERVAL_MS_def PEER_TTL_MS_def)

section \<open>The process\<close>

record process =
  pc_packets :: server
  pc_sessions :: secure_server
  pc_discovery :: discovery
  pc_peers :: peer_manager

text \<open>\<open>main\<close>: \<open>None\<close> where a port is a numeral outside \<open>js_number\<close>.\<close>

definition index_main :: "environment \<Rightarrow> keystore \<Rightarrow> net \<Rightarrow> process res option" where
  "index_main E ks net =
     (case (TCP_PORT E, SECURE_TCP_PORT E) of
        (Some tcp, Some secure) \<Rightarrow>
          Some
            (bind_res (getPublicKey ks) (\<lambda>selfId.
             bind_res (startDiscovery (Some selfId) (Some tcp) (Some secure) (NODE_NAME E)) (\<lambda>disc.
             bind_res (new_peer_manager (Some selfId) True True) (\<lambda>pm.
               (case pm_start net (getPeers disc) pm of
                  (Inl e, _) \<Rightarrow> Inl e
                | (Inr _, pm) \<Rightarrow>
                    Inr \<lparr>pc_packets = new_server, pc_sessions = startSecureServer None None None (None, None, None),
                         pc_discovery = disc, pc_peers = pm\<rparr>)))))
      | _ \<Rightarrow> None)"

text \<open>\<open>onSession\<close> sends a greeting on each session it opens.\<close>

definition greeting :: "bytes \<Rightarrow> bytes" where
  "greeting selfId = text_bytes (''hello from '' @ take 8 (hex_of_bytes selfId))"

lemma main_starts:
  assumes "index_main E ks net = Some (Inr p)"
  shows "pm_sessions (pc_peers p) = [] \<and> pm_dialing (pc_peers p) = [] \<and> pm_timer (pc_peers p) \<and>
    ds_selfId (pc_discovery p) = pm_selfId (pc_peers p) \<and> getPeers (pc_discovery p) = []"
  using assms
  by (cases "getPublicKey ks")
    (auto simp: index_main_def startDiscovery_def new_peer_manager_def pm_start_def getPeers_def
      bind_res_def split: option.splits prod.splits sum.splits)

text \<open>The greeting is neither a file message nor a chat: a node with a user interface ignores it.\<close>

lemma greeting_ignored: "nd_route W mix s (greeting selfId) clk n = (Inr (), n)"
  by (simp add: nd_route_def greeting_def text_bytes_def CHAT_def)

end
