(* ===== verification/Cli.thy ===== *)
theory Cli
  imports Control Settings
begin

text \<open>
  \<open>bin/attestp2p.js\<close>: the command line of the node, from the arguments to the request the API gets (or to the
  start of a node), what is printed for the answer, and what a message becomes on its way from the command line
  to a session. The arguments are those after the script's name; \<open>CliOther\<close> stands for numerals in other than
  decimal notation. A line break inside a printed text separates two lines of the model.
\<close>

section \<open>Flags\<close>

definition starts_with :: "string \<Rightarrow> string \<Rightarrow> bool" where
  "starts_with t p = (take (length p) t = p)"

definition dashed :: "string \<Rightarrow> string" where "dashed name = ''--'' @ name"

text \<open>\<open>argv[i]\<close>, \<open>undefined\<close> past the end.\<close>

definition arg :: "string list \<Rightarrow> nat \<Rightarrow> string option" where
  "arg argv i = (if i < length argv then Some (argv ! i) else None)"

fun indexOf :: "string \<Rightarrow> string list \<Rightarrow> nat option" where
  "indexOf x [] = None"
| "indexOf x (y # ys) = (if y = x then Some 0 else map_option Suc (indexOf x ys))"

definition getFlag :: "string list \<Rightarrow> string \<Rightarrow> string option" where
  "getFlag argv name =
     (case indexOf (dashed name) argv of
        None \<Rightarrow> None
      | Some i \<Rightarrow>
          (case arg argv (i + 1) of
             None \<Rightarrow> None
           | Some v \<Rightarrow> if v \<noteq> '''' \<and> \<not> starts_with v ''--'' then Some v else None))"

fun getAll :: "string list \<Rightarrow> string \<Rightarrow> string list" where
  "getAll [] name = []"
| "getAll [x] name = []"
| "getAll (x # y # xs) name = (if x = dashed name \<and> y \<noteq> '''' then [y] else []) @ getAll (y # xs) name"

definition hasFlag :: "string list \<Rightarrow> string \<Rightarrow> bool" where
  "hasFlag argv name = (dashed name \<in> set argv)"

text \<open>\<open>path.resolve\<close> of one path, in an absolute working directory.\<close>

definition path_resolve :: "string \<Rightarrow> string \<Rightarrow> string" where
  "path_resolve cwd p =
     abs_path (foldl (norm_seg True) [] (split_slash (if p \<noteq> '''' \<and> hd p = CHR ''/'' then p else cwd @ ''/'' @ p)))"

definition cli_dataDir :: "string \<Rightarrow> string list \<Rightarrow> string" where
  "cli_dataDir cwd argv =
     path_resolve cwd (case getFlag argv ''data'' of Some d \<Rightarrow> d | None \<Rightarrow> path_join [cwd, ''.attestp2p''])"

text \<open>A port given to the constructor; there \<open>NaN\<close> counts as none.\<close>

definition port_flag :: "string list \<Rightarrow> string \<Rightarrow> nat \<Rightarrow> nat option option" where
  "port_flag argv name dflt =
     (case getFlag argv name of
        None \<Rightarrow> Some (Some dflt)
      | Some v \<Rightarrow>
          (case js_number v of None \<Rightarrow> None | Some (JNum i) \<Rightarrow> Some (Some (nat i)) | Some _ \<Rightarrow> Some None))"

section \<open>Commands\<close>

text \<open>
  A start carries the values of \<open>IDENTITY_FILE\<close> and \<open>HMAC_SECRET\<close> that it leaves in the environment; an empty
  one counts as none.
\<close>

record cli_env =
  ce_cwd :: string
  ce_identity :: "string option"
  ce_secret :: "string option"

datatype cli_action =
    CliStart node_options string string | CliApi string string "json option" | CliThrow | CliUsage nat | CliOther

fun join_blank :: "string list \<Rightarrow> string" where
  "join_blank [] = ''''"
| "join_blank [x] = x"
| "join_blank (x # y # xs) = x @ '' '' @ join_blank (y # xs)"

text \<open>\<open>JSON.stringify\<close> leaves out a member that is \<open>undefined\<close>.\<close>

definition text_member :: "string \<Rightarrow> string option \<Rightarrow> (string \<times> json) list" where
  "text_member k v = (case v of None \<Rightarrow> [] | Some s \<Rightarrow> [(k, JStr s)])"

definition cli_start :: "cli_env \<Rightarrow> string list \<Rightarrow> cli_action" where
  "cli_start E argv =
     (let data = cli_dataDir (ce_cwd E) argv in
      case (port_flag argv ''port'' 7778, port_flag argv ''tcp'' 7777, port_flag argv ''control'' 0) of
        (Some secure, Some tcp, Some control) \<Rightarrow>
          CliStart \<lparr>no_securePort = secure, no_tcpPort = tcp,
              no_controlPort = (if control = Some 0 then None else control),
              no_controlHost = Some (case getFlag argv ''control-host'' of None \<Rightarrow> ''127.0.0.1'' | Some h \<Rightarrow> h),
              no_dataDir = Some data, no_downloadDir = None, no_noAi = hasFlag argv ''no-ai'',
              no_bootstrap = getAll argv ''connect''\<rparr>
            (str_or (ce_identity E) (path_join [data, ''identity.key'']))
            (str_or (ce_secret E) ''attestp2p'')
      | _ \<Rightarrow> CliOther)"

definition cli_message :: "string list \<Rightarrow> json" where
  "cli_message argv = JObj (text_member ''nodeId'' (arg argv 1) @ [(''text'', JStr (join_blank (drop 2 argv)))])"

fun split_colon :: "string \<Rightarrow> string list" where
  "split_colon [] = ['''']"
| "split_colon (c # s) =
     (if c = CHR '':'' then '''' # split_colon s
      else (case split_colon s of [] \<Rightarrow> [[c]] | w # ws \<Rightarrow> (c # w) # ws))"

definition cli_connect :: "string list \<Rightarrow> cli_action" where
  "cli_connect argv =
     (case arg argv 1 of
        None \<Rightarrow> CliThrow
      | Some hp \<Rightarrow>
          (let parts = split_colon hp in
           case (case arg parts 1 of None \<Rightarrow> Some JNull | Some p \<Rightarrow> js_number p) of
             None \<Rightarrow> CliOther
           | Some port \<Rightarrow> CliApi ''POST'' ''/connect'' (Some (JObj [(''host'', JStr (hd parts)), (''port'', port)]))))"

definition cli_send :: "cli_env \<Rightarrow> string list \<Rightarrow> cli_action" where
  "cli_send E argv =
     (case arg argv 2 of
        None \<Rightarrow> CliThrow
      | Some p \<Rightarrow> CliApi ''POST'' ''/send''
          (Some (JObj (text_member ''nodeId'' (arg argv 1) @ [(''filepath'', JStr (path_resolve (ce_cwd E) p))]))))"

definition cli_main :: "cli_env \<Rightarrow> string list \<Rightarrow> cli_action" where
  "cli_main E argv =
     (case argv of
        [] \<Rightarrow> CliUsage 0
      | cmd # _ \<Rightarrow>
          if cmd = ''start'' then cli_start E argv
          else if cmd = ''peers'' then CliApi ''GET'' ''/peers'' None
          else if cmd = ''status'' then CliApi ''GET'' ''/status'' None
          else if cmd = ''receive'' then CliApi ''GET'' ''/receive'' None
          else if cmd = ''msg'' then CliApi ''POST'' ''/msg'' (Some (cli_message argv))
          else if cmd = ''send'' then cli_send E argv
          else if cmd = ''download'' then CliApi ''POST'' ''/download'' (Some (JObj (text_member ''file_id'' (arg argv 1))))
          else if cmd = ''trust'' then CliApi ''POST'' ''/trust'' (Some (JObj (text_member ''nodeId'' (arg argv 1))))
          else if cmd = ''connect'' then cli_connect argv
          else if cmd = ''ask'' then
            CliApi ''POST'' ''/ask''
              (Some (JObj (text_member ''nodeId'' (arg argv 1) @ [(''query'', JStr (join_blank (drop 2 argv)))])))
          else CliUsage (if cmd = '''' then 0 else 1))"

text \<open>
  \<open>api\<close>: the request as the server gets it, its body cut into \<open>chunks\<close> by the network. The port is the one
  in the file \<open>runtime.json\<close>, which a running node has written; without a readable file the command ends.
\<close>

definition api_port :: "string option \<Rightarrow> json option option" where
  "api_port runtime =
     (case runtime of None \<Rightarrow> None
      | Some t \<Rightarrow>
          (case json_parse t of
             Inl e \<Rightarrow> None
           | Inr v \<Rightarrow> if v = JNull then None else Some (json_get v ''controlPort'')))"

definition api_text :: "json option \<Rightarrow> string" where
  "api_text body = (case body of None \<Rightarrow> '''' | Some v \<Rightarrow> json_text v)"

definition api_request :: "string \<Rightarrow> string \<Rightarrow> bytes list \<Rightarrow> http_request" where
  "api_request m route chunks = \<lparr>rq_method = m, rq_path = route, rq_peer = None, rq_chunks = chunks\<rparr>"

section \<open>What a command prints\<close>

text \<open>
  The answer is a JSON value. Concatenation turns a value to text: \<open>js_text\<close>, with \<open>None\<close> for \<open>undefined\<close>;
  arrays, objects and fractions do not occur in the answers there and are printed as nothing.
\<close>

fun js_text :: "json option \<Rightarrow> string" where
  "js_text None = ''undefined''"
| "js_text (Some JNull) = ''null''"
| "js_text (Some (JBool b)) = (if b then ''true'' else ''false'')"
| "js_text (Some (JNum i)) = json_int i"
| "js_text (Some (JStr t)) = t"
| "js_text (Some v) = ''''"

definition truthy :: "json option \<Rightarrow> bool" where
  "truthy v = (case v of None \<Rightarrow> False | Some w \<Rightarrow> json_truthy w)"

text \<open>\<open>short\<close> of an identifier, a hexadecimal text; anything falsy is returned as it is.\<close>

definition short_id :: "json option \<Rightarrow> string" where
  "short_id h = (if truthy h then take 16 (js_text h) @ ''...'' else js_text h)"

definition items_of :: "json \<Rightarrow> json list" where
  "items_of v = (case v of JArr vs \<Rightarrow> vs | _ \<Rightarrow> [])"

definition peer_line :: "json \<Rightarrow> string" where
  "peer_line p =
     (let g = json_get p in
      short_id (g ''nodeId'') @ (if truthy (g ''self'') then '' [moi]'' else '''') @
      (if truthy (g ''connected'') then '' [session]'' else '''') @ (if truthy (g ''trusted'') then '' [trust]'' else '''') @
      ''  '' @ (if truthy (g ''address'') then js_text (g ''address'') else ''''))"

definition file_line :: "json \<Rightarrow> string" where
  "file_line f =
     (let g = (\<lambda>k. js_text (json_get f k)) in
      g ''file_id'' @ ''  '' @ g ''filename'' @ ''  '' @ g ''size'' @ '' o  (de '' @ g ''from'' @ '')'')"

definition or_error :: "json \<Rightarrow> string \<Rightarrow> string" where
  "or_error r t = (if truthy (json_get r ''error'') then ''Erreur: '' @ js_text (json_get r ''error'') else t)"

fun join_comma :: "string list \<Rightarrow> string" where
  "join_comma [] = ''''"
| "join_comma [x] = x"
| "join_comma (x # y # xs) = x @ '', '' @ join_comma (y # xs)"

text \<open>\<open>JSON.stringify(value, null, 2)\<close> of an object whose members are no arrays and no objects.\<close>

definition json_lines :: "json \<Rightarrow> string list" where
  "json_lines v =
     (case v of
        JObj (m # ms) \<Rightarrow>
          [''{''] @ map (\<lambda>x. ''  '' @ json_string (fst x) @ '': '' @ json_text (snd x) @ '','') (butlast (m # ms)) @
          [''  '' @ json_string (fst (last (m # ms))) @ '': '' @ json_text (snd (last (m # ms))), ''}'']
      | _ \<Rightarrow> [json_text v])"

definition cli_print :: "string list \<Rightarrow> json \<Rightarrow> string list" where
  "cli_print argv r =
     (let cmd = js_text (map_option JStr (arg argv 0)); g = json_get r in
      if cmd = ''peers'' then (if items_of r = [] then [''(aucun pair)''] else map peer_line (items_of r))
      else if cmd = ''status'' then json_lines r
      else if cmd = ''receive'' then
        (if items_of r = [] then [''(aucun fichier disponible)''] else map file_line (items_of r))
      else if cmd = ''msg'' then
        or_error r ''message envoye'' #
          (if truthy (g ''error'') \<or> \<not> truthy (g ''aiReply'') then [] else [''IA: '' @ js_text (g ''aiReply'')])
      else if cmd = ''send'' then
        [or_error r (''fichier partage - file_id '' @ js_text (g ''file_id'') @ '' ('' @ js_text (g ''nb_chunks'') @ '' chunks)'')]
      else if cmd = ''download'' then
        [or_error r (''telecharge: '' @ js_text (g ''filename'') @ '' - SHA-256 conforme: '' @ js_text (g ''matches''))]
      else if cmd = ''trust'' then
        [''pairs approuves: '' @
         join_comma (case g ''trusted'' of None \<Rightarrow> [] | Some l \<Rightarrow> map (\<lambda>h. short_id (Some h)) (items_of l))]
      else if cmd = ''connect'' then [''connexion demandee vers '' @ js_text (map_option JStr (arg argv 1))]
      else if cmd = ''ask'' then [''IA: '' @ js_text (g ''reply'')]
      else [])"

text \<open>
  An error answer is shown by \<open>msg\<close>, \<open>send\<close> and \<open>download\<close>; \<open>connect\<close> prints the same for every answer, and \<open>ask\<close>
  prints \<open>undefined\<close> as the reply.
\<close>

lemma errors_shown:
  assumes "cmd \<in> {''msg'', ''send'', ''download''}" and "e \<noteq> ''''"
  shows "cli_print (cmd # args) (JObj [(''error'', JStr e)]) = [''Erreur: '' @ e]"
  using assms by (auto simp: cli_print_def Let_def arg_def or_error_def truthy_def jm_get_def)

lemma errors_hidden:
  "cli_print (''connect'' # args) r = cli_print (''connect'' # args) r' \<and>
   cli_print (''ask'' # args) (JObj [(''error'', JStr e)]) = [''IA: undefined'']"
  by (simp add: cli_print_def Let_def arg_def jm_get_def)

section \<open>From the command line to the session\<close>

lemma well_formed_join: "list_all well_formed ws \<Longrightarrow> well_formed (join_blank ws)"
  by (induction ws rule: join_blank.induct) (simp_all add: well_formed_append well_formed_Cons)

lemma cli_main_msg:
  "cli_main E (''msg'' # peer # ws) =
     CliApi ''POST'' ''/msg'' (Some (JObj [(''nodeId'', JStr peer), (''text'', JStr (join_blank ws))]))"
  by (simp add: cli_main_def cli_message_def text_member_def arg_def)

lemma ctl_message_texts:
  "ctl_message W cw (JObj [(''nodeId'', JStr peer), (''text'', JStr text)]) n =
     (case nd_sendMessage W peer text (cw_sent cw) (cw_clock cw) n of
        (Inl e, n) \<Rightarrow> (CtlFail e, n)
      | (Inr _, n) \<Rightarrow>
          (if \<not> isAiTrigger text then ctl_ok [(''aiReply'', JNull)]
           else if nd_noAi n then ctl_ok [(''aiReply'', JStr (ce_text (last (nd_thread n peer))))]
           else CtlAwait AwMessage, n))"
  by (simp add: ctl_message_def member_of_def jm_get_def)

lemma ctl_handle_msg:
  assumes "v = JObj ms" and "readBody chunks = Some v"
  shows "ctl_handle W cw (api_request ''POST'' ''/msg'' chunks) n = ctl_message W cw v n"
  using assms by (simp add: ctl_handle_def api_request_def ctl_post_def POST_PATHS_def)

lemma cli_handled:
  assumes "cli_main E (''msg'' # peer # ws) = CliApi m route body"
    and "concat ts = api_text body" and "list_all well_formed ts"
    and "unit_count (api_text body) \<le> BODY_LIMIT"
  shows "ctl_handle W cw (api_request m route (map text_bytes ts)) n =
    ctl_message W cw (JObj [(''nodeId'', JStr peer), (''text'', JStr (join_blank ws))]) n"
proof -
  let ?v = "JObj [(''nodeId'', JStr peer), (''text'', JStr (join_blank ws))]"
  have b: "m = ''POST''" "route = ''/msg''" "body = Some ?v" using assms(1) by (simp_all add: cli_main_msg)
  have t: "concat ts = json_text ?v" "unit_count (json_text ?v) \<le> BODY_LIMIT"
    using assms(2,4) by (simp_all only: b api_text_def option.case)
  have "readBody (map text_bytes ts) = Some ?v"
    using read_chunks_whole [of ts "[]"] t assms(3) json_text_nonempty [of ?v] json_parse_text [of ?v]
    by (simp add: readBody_def del: json_text.simps)
  then show ?thesis unfolding b by (rule ctl_handle_msg [OF refl])
qed

lemma sent_message:
  assumes "nd_sendMessage W peer text (Inr ()) clk n = (r, n')" and "jm_get (nd_sessionsByPeer n) peer = Some h"
  shows "r = Inr () \<and> (\<exists>es. nd_out n' = nd_out n @ NSend h (chat_packet text) # es \<and> chat_sends es = []) \<and>
    (\<forall>q. entries ChatOut n' q = entries ChatOut n q @ (if q = peer then [text] else []))"
proof -
  let ?m = "push_entry peer \<lparr>ce_dir = ChatOut, ce_text = text, ce_ts = clk 0\<rparr> (nd_emit (NSend h (CHAT # text_bytes text)) n)"
  obtain es where es: "nd_out (askAI W peer (stripTrigger text) (clk 1) ?m) = nd_out ?m @ es" "chat_sends es = []"
    using askAI_out by blast
  have r: "r = Inr ()" and n': "n' = (if isAiTrigger text then askAI W peer (stripTrigger text) (clk 1) ?m else ?m)"
    using assms by (auto simp: nd_sendMessage_def Let_def)
  have "nd_out n' = nd_out n @ NSend h (chat_packet text) # (if isAiTrigger text then es else [])"
    using n' es(1) by (simp add: chat_packet_def)
  moreover have "chat_sends (if isAiTrigger text then es else []) = []"
    using es(2) by (simp add: chat_sends_def List.map_filter_def)
  moreover have "entries ChatOut n' q = entries ChatOut n q @ (if q = peer then [text] else [])" for q
    using n' by (simp add: entries_askAI entries_push)
  ultimately show ?thesis using r by blast
qed

text \<open>C26. From the command line to the session. The command \<open>attestp2p msg <node_id> words\<close> makes the request
  whose answer is computed here; its body may be cut anywhere between two characters. When the node has a session
  with the identifier and the session takes the message, exactly one chat packet goes out, on that session, with
  the words of the command joined by blanks, and it is appended to the conversation as sent; the answer is a
  success or waits for the assistant. Without a session the answer is the error and the node is unchanged.\<close>

theorem cli_message_sent:
  assumes "cli_main E (''msg'' # peer # ws) = CliApi m route body"
    and "concat ts = api_text body" and "list_all well_formed ts"
    and "unit_count (api_text body) \<le> BODY_LIMIT" and "cw_sent cw = Inr ()"
    and "ctl_handle W cw (api_request m route (map text_bytes ts)) n = (reply, n')"
  shows "case jm_get (nd_sessionsByPeer n) peer of
      None \<Rightarrow> reply = CtlFail NoSession \<and> n' = n
    | Some h \<Rightarrow>
        (\<exists>es. nd_out n' = nd_out n @ NSend h (chat_packet (join_blank ws)) # es \<and> chat_sends es = []) \<and>
        (\<forall>q. entries ChatOut n' q = entries ChatOut n q @ (if q = peer then [join_blank ws] else [])) \<and>
        (reply = CtlAwait AwMessage \<or> (\<exists>v. reply = ctl_ok [(''aiReply'', v)]))"
proof -
  note h = cli_handled [OF assms(1-4), of W cw n]
  obtain r n1 where s: "nd_sendMessage W peer (join_blank ws) (cw_sent cw) (cw_clock cw) n = (r, n1)" by fastforce
  note e = h [unfolded ctl_message_texts s assms(6), simplified]
  show ?thesis
  proof (cases "jm_get (nd_sessionsByPeer n) peer")
    case None
    then have "r = Inl NoSession" "n1 = n" using s by (simp_all add: nd_sendMessage_def)
    then show ?thesis using e None by simp
  next
    case (Some h)
    show ?thesis using sent_message [OF s [unfolded assms(5)] Some] e Some by (auto split: if_splits)
  qed
qed

lemma unit_count_le: "unit_count t \<le> 2 * length t"
  by (induction t) (simp_all add: unit_count_def Let_def)

lemma length_json_string: "length (json_string s) \<le> 6 * length s + 2"
proof -
  have "length (json_escape c) \<le> 6" for c by (simp add: json_escape_def Let_def)
  then have "length (concat (map json_escape s)) \<le> 6 * length s"
    by (induction s) (simp_all add: add_mono)
  then show ?thesis by (simp add: json_string_def)
qed

lemma demo_command:
  "unit_count (api_text (Some (cli_message [''msg'', hex_of_bytes (replicate 32 2), ''salut'', ''toi'']))) \<le> BODY_LIMIT"
  "well_formed (api_text (Some (cli_message [''msg'', hex_of_bytes (replicate 32 2), ''salut'', ''toi''])))"
proof -
  let ?p = "hex_of_bytes (replicate 32 2)" let ?ws = "[''salut'', ''toi'']"
  let ?b = "Some (cli_message (''msg'' # ?p # ?ws))"
  have v: "cli_message (''msg'' # ?p # ?ws) = JObj [(''nodeId'', JStr ?p), (''text'', JStr ''salut toi'')]"
    by (simp add: cli_message_def text_member_def arg_def)
  have wf: "well_formed (api_text ?b)"
    unfolding v api_text_def option.case by (rule well_formed_text) (simp add: well_formed_ascii hex_ascii)
  have "length (api_text ?b) \<le> length (json_string ?p) + 100"
    unfolding v api_text_def option.case by (simp add: json_string_def json_escape_def)
  then have "length (api_text ?b) \<le> 6 * length ?p + 102" using length_json_string [of ?p] by linarith
  then have u: "unit_count (api_text ?b) \<le> BODY_LIMIT"
    using unit_count_le [of "api_text ?b"] unfolding length_hex_of_bytes length_replicate BODY_LIMIT_def by linarith
  show "unit_count (api_text ?b) \<le> BODY_LIMIT" "well_formed (api_text ?b)" by (fact u, fact wf)
qed

theorem cli_message_sent_witness:
  "\<exists>reply n' es. ctl_handle demo_env \<lparr>cw_sent = Inr (), cw_written = Inr (), cw_clock = \<lambda>k. 0, cw_mix = \<lambda>f xs. xs\<rparr>
      (api_request ''POST'' ''/msg'' (map text_bytes [api_text (Some (cli_message [''msg'', hex_of_bytes (replicate 32 2), ''salut'', ''toi'']))]))
      demo_up = (reply, n') \<and> nd_out n' = nd_out demo_up @ NSend 0 (chat_packet ''salut toi'') # es"
proof -
  let ?p = "hex_of_bytes (replicate 32 2)" let ?ws = "[''salut'', ''toi'']"
  let ?b = "Some (cli_message (''msg'' # ?p # ?ws))"
  let ?cw = "\<lparr>cw_sent = Inr (), cw_written = Inr (), cw_clock = \<lambda>k. 0, cw_mix = \<lambda>f xs. xs\<rparr> :: ctl_world"
  obtain reply n' where h: "ctl_handle demo_env ?cw (api_request ''POST'' ''/msg'' (map text_bytes [api_text ?b])) demo_up = (reply, n')"
    by fastforce
  have c: "cli_main \<lparr>ce_cwd = ''/'', ce_identity = None, ce_secret = None\<rparr> (''msg'' # ?p # ?ws) = CliApi ''POST'' ''/msg'' ?b"
    by (simp add: cli_main_def)
  have u: "unit_count (api_text ?b) \<le> BODY_LIMIT" and wf: "well_formed (api_text ?b)" by (rule demo_command)+
  have s: "jm_get (nd_sessionsByPeer demo_up) ?p = Some 0" by (simp add: jm_get_def)
  show ?thesis
    using cli_message_sent [OF c _ _ u _ h] wf h unfolding s by (simp del: replicate.simps) blast
qed

text \<open>
  The flag \<open>--data\<close>, which says which node a command is for, is taken as part of the message when it follows
  the words.
\<close>

theorem flags_in_message:
  assumes "ws \<noteq> []" and "''--data'' \<notin> set (peer # ws)" and "d \<noteq> ''''" and "\<not> starts_with d ''--''"
  shows "getFlag (''msg'' # peer # ws @ [''--data'', d]) ''data'' = Some d \<and>
    cli_main E (''msg'' # peer # ws @ [''--data'', d]) =
      CliApi ''POST'' ''/msg'' (Some (JObj [(''nodeId'', JStr peer), (''text'', JStr (join_blank ws @ '' --data '' @ d))]))"
proof -
  have i: "''--data'' \<notin> set xs \<Longrightarrow> indexOf ''--data'' (xs @ [''--data'', d]) = Some (length xs)" for xs
    by (induction xs) auto
  have j: "ws \<noteq> [] \<Longrightarrow> join_blank (ws @ [''--data'', d]) = join_blank ws @ '' --data '' @ d" for ws
    by (induction ws rule: join_blank.induct) auto
  have f: "indexOf ''--data'' (''msg'' # peer # ws @ [''--data'', d]) = Some (Suc (Suc (length ws)))"
    using i [of "''msg'' # peer # ws"] assms(2) by simp
  have "getFlag (''msg'' # peer # ws @ [''--data'', d]) ''data'' = Some d"
    unfolding getFlag_def dashed_def using f assms(3,4) by (simp add: arg_def nth_append)
  moreover have "ws @ [''--data'', d] \<noteq> []" by simp
  ultimately show ?thesis using j [OF assms(1)] by (simp add: cli_main_msg)
qed

theorem flags_in_message_witness:
  "cli_main E [''msg'', ''a'', ''x'', ''--data'', ''/n''] =
     CliApi ''POST'' ''/msg'' (Some (JObj [(''nodeId'', JStr ''a''), (''text'', JStr ''x --data /n'')]))"
  using flags_in_message [of "[''x'']" "''a''" "''/n''" E] by (simp add: starts_with_def)

end
