(* ===== verification/MobileClient.thy ===== *)
theory MobileClient
  imports Control
begin

text \<open>
  \<open>mobile/src/api.js\<close>: the client of the API in the mobile application, with the coding of a query in an address
  that the client and the server (\<open>encodeURIComponent\<close>, \<open>url.parse\<close>) rely on, and the proof that each call of
  the client is the operation of the node it stands for. Of addresses those of the client are read: a path, and
  after a \<open>?\<close> a query without \<open>#\<close>. The screens are left out.
\<close>

section \<open>Queries in addresses\<close>

definition uri_plain :: "char \<Rightarrow> bool" where
  "uri_plain c =
     (let n = (of_char c :: nat) in
      48 \<le> n \<and> n \<le> 57 \<or> 65 \<le> n \<and> n \<le> 90 \<or> 97 \<le> n \<and> n \<le> 122 \<or> c \<in> set ''-_.!~*()'' \<or> n = 39)"

definition percent :: "char \<Rightarrow> string" where
  "percent c =
     (let n = (of_char c :: nat); d = (\<lambda>k. ''0123456789ABCDEF'' ! k) in [CHR ''%'', d (n div 16), d (n mod 16)])"

definition encodeURIComponent :: "string \<Rightarrow> string" where
  "encodeURIComponent t = concat (map (\<lambda>c. if uri_plain c then [c] else percent c) t)"

text \<open>The value of a query: \<open>%\<close> and two digits are a byte, \<open>+\<close> is a blank, other bytes stay.\<close>

fun percent_decode :: "string \<Rightarrow> string" where
  "percent_decode [] = ''''"
| "percent_decode (c # a # b # r) =
     (if c = CHR ''%'' \<and> nibble_of_hex a \<noteq> None \<and> nibble_of_hex b \<noteq> None
      then char_of (16 * the (nibble_of_hex a) + the (nibble_of_hex b) :: nat) # percent_decode r
      else (if c = CHR ''+'' then CHR '' '' else c) # percent_decode (a # b # r))"
| "percent_decode (c # r) = (if c = CHR ''+'' then CHR '' '' else c) # percent_decode r"

definition unescape :: "string \<Rightarrow> string" where
  "unescape t = utf8_lossy (percent_decode t)"

text \<open>A query: pairs separated by \<open>&\<close>, the first \<open>=\<close> after the name. Of a repeated name the first value is read.\<close>

fun split_on :: "char \<Rightarrow> string \<Rightarrow> string list" where
  "split_on d [] = ['''']"
| "split_on d (c # s) =
     (if c = d then '''' # split_on d s
      else (case split_on d s of [] \<Rightarrow> [[c]] | w # ws \<Rightarrow> (c # w) # ws))"

definition query_pair :: "string \<Rightarrow> string \<times> string" where
  "query_pair w =
     (let k = takeWhile (\<lambda>c. c \<noteq> CHR ''='') w in (unescape k, unescape (drop (length k + 1) w)))"

definition query_get :: "string \<Rightarrow> string \<Rightarrow> string option" where
  "query_get q k = map_of (map query_pair (split_on (CHR ''&'') q)) k"

definition url_parse :: "string \<Rightarrow> string \<times> string option" where
  "url_parse u =
     (let p = takeWhile (\<lambda>c. c \<noteq> CHR ''?'') u in (p, query_get (drop (length p + 1) u) ''peer''))"

section \<open>The client\<close>

datatype client_call =
    ClStatus | ClPeers | ClReceive | ClMessages string | ClConnect string json | ClMsg string string
  | ClSend string string | ClUpload string string string | ClDownload string | ClTrust string | ClAsk string string

definition texts :: "(string \<times> string) list \<Rightarrow> json" where
  "texts ms = JObj (map (\<lambda>(k, v). (k, JStr v)) ms)"

fun createClient :: "client_call \<Rightarrow> string \<times> string \<times> json option" where
  "createClient ClStatus = (''GET'', ''/status'', None)"
| "createClient ClPeers = (''GET'', ''/peers'', None)"
| "createClient ClReceive = (''GET'', ''/receive'', None)"
| "createClient (ClMessages peer) = (''GET'', ''/messages?peer='' @ encodeURIComponent peer, None)"
| "createClient (ClConnect host port) = (''POST'', ''/connect'', Some (JObj [(''host'', JStr host), (''port'', port)]))"
| "createClient (ClMsg i text) = (''POST'', ''/msg'', Some (texts [(''nodeId'', i), (''text'', text)]))"
| "createClient (ClSend i path) = (''POST'', ''/send'', Some (texts [(''nodeId'', i), (''filepath'', path)]))"
| "createClient (ClUpload i name data) =
     (''POST'', ''/upload'', Some (texts [(''nodeId'', i), (''filename'', name), (''dataBase64'', data)]))"
| "createClient (ClDownload f) = (''POST'', ''/download'', Some (texts [(''file_id'', f)]))"
| "createClient (ClTrust i) = (''POST'', ''/trust'', Some (texts [(''nodeId'', i)]))"
| "createClient (ClAsk i query) = (''POST'', ''/ask'', Some (texts [(''nodeId'', i), (''query'', query)]))"

text \<open>\<open>request\<close>: what \<open>fetch\<close> sends, as the server's \<open>http\<close> module presents it.\<close>

definition client_body :: "client_call \<Rightarrow> string" where
  "client_body call = (case snd (snd (createClient call)) of None \<Rightarrow> '''' | Some v \<Rightarrow> json_text v)"

definition client_request :: "client_call \<Rightarrow> bytes list \<Rightarrow> http_request" where
  "client_request call chunks =
     (case createClient call of (m, route, body) \<Rightarrow>
        \<lparr>rq_method = m, rq_path = fst (url_parse route), rq_peer = snd (url_parse route), rq_chunks = chunks\<rparr>)"

section \<open>Coding and decoding\<close>

lemma decode_plain: "uri_plain c \<Longrightarrow> percent_decode (c # r) = c # percent_decode r"
proof -
  assume "uri_plain c"
  then have "c \<noteq> CHR ''%'' \<and> c \<noteq> CHR ''+''" by (auto simp: uri_plain_def Let_def)
  then show ?thesis by (cases r; cases "tl r") auto
qed

lemma upper_nibble: "k < 16 \<Longrightarrow> nibble_of_hex (''0123456789ABCDEF'' ! k) = Some k"
  by (drule all_nibbles) (auto simp: nibble_of_hex_def)

lemma decode_percent: "percent_decode (percent c @ r) = c # percent_decode r"
proof -
  have "(of_char c :: nat) div 16 < 16" by (simp add: div_less_iff_less_mult)
  then show ?thesis by (simp add: percent_def Let_def upper_nibble)
qed

lemma decode_encode_uri: "percent_decode (encodeURIComponent t) = t"
  by (induction t) (simp_all add: encodeURIComponent_def decode_plain decode_percent)

lemma encoded_chars: "c \<in> set (encodeURIComponent t) \<Longrightarrow> uri_plain c \<or> c = CHR ''%''"
proof -
  have "k < 16 \<Longrightarrow> uri_plain (''0123456789ABCDEF'' ! k)" for k
    by (drule all_nibbles) (auto simp: uri_plain_def)
  moreover have "(of_char d :: nat) div 16 < 16" for d :: char by (simp add: div_less_iff_less_mult)
  ultimately show "c \<in> set (encodeURIComponent t) \<Longrightarrow> uri_plain c \<or> c = CHR ''%''"
    by (auto simp: encodeURIComponent_def percent_def Let_def split: if_splits)
qed

lemma split_on_single: "d \<notin> set s \<Longrightarrow> split_on d s = [s]"
  by (induction s) auto

lemma unescape_plain: "list_all (\<lambda>c. uri_plain c \<and> (of_char c :: nat) < 0x80) s \<Longrightarrow> unescape s = s"
proof -
  assume a: "list_all (\<lambda>c. uri_plain c \<and> (of_char c :: nat) < 0x80) s"
  then have "percent_decode s = s" by (induction s) (simp_all add: decode_plain)
  moreover have "well_formed s" using a by (intro well_formed_ascii) (simp add: list_all_iff)
  ultimately show ?thesis by (simp add: unescape_def well_formed_def)
qed

lemma query_roundtrip:
  assumes "well_formed t"
  shows "url_parse (''/messages?peer='' @ encodeURIComponent t) = (''/messages'', Some t)"
proof -
  have "CHR ''&'' \<notin> set (''peer='' @ encodeURIComponent t)"
    using encoded_chars [of "CHR ''&''" t] by (auto simp: uri_plain_def)
  then have s: "split_on (CHR ''&'') (''peer='' @ encodeURIComponent t) = [''peer='' @ encodeURIComponent t]"
    by (rule split_on_single)
  have "query_pair (''peer='' @ encodeURIComponent t) = (''peer'', t)"
    using assms unescape_plain [of "''peer''"]
    by (simp add: query_pair_def uri_plain_def) (simp add: unescape_def decode_encode_uri well_formed_def)
  then have "query_get (''peer='' @ encodeURIComponent t) ''peer'' = Some t"
    unfolding query_get_def s by simp
  then show ?thesis by (simp add: url_parse_def)
qed

section \<open>The calls of the client\<close>

text \<open>What each call stands for: an operation of the node, or a reading of its state.\<close>

fun call_op :: "ctl_world \<Rightarrow> client_call \<Rightarrow> node_op option" where
  "call_op cw (ClMessages peer) = Some (OThread peer)"
| "call_op cw (ClConnect host port) = Some (OConnect (if host = '''' then ''127.0.0.1'' else host) port)"
| "call_op cw (ClMsg i text) = Some (OSend i text (cw_sent cw) (cw_clock cw))"
| "call_op cw (ClSend i path) = Some (OSendFile path)"
| "call_op cw (ClUpload i name data) = Some (OUpload (Some name) (from_base64 data) (cw_written cw))"
| "call_op cw (ClDownload f) = Some (ODownload f)"
| "call_op cw (ClTrust i) = Some (OTrust (JStr i))"
| "call_op cw (ClAsk i query) = Some (OAsk i query (cw_clock cw 0))"
| "call_op cw _ = None"

fun call_view :: "ctl_world \<Rightarrow> p2p_node \<Rightarrow> client_call \<Rightarrow> json" where
  "call_view cw n ClStatus = nd_status (cw_clock cw 0) n"
| "call_view cw n ClPeers = JArr (map row_json (peersList n))"
| "call_view cw n ClReceive = JArr (map offer_json (listAvailable n))"
| "call_view cw n _ = JNull"

text \<open>The texts of a call are well-formed, a port is a value JSON keeps.\<close>

fun call_wf :: "client_call \<Rightarrow> bool" where
  "call_wf (ClMessages peer) = well_formed peer"
| "call_wf (ClConnect host port) = (well_formed host \<and> json_plain port \<and> json_wf port)"
| "call_wf (ClMsg i text) = (well_formed i \<and> well_formed text)"
| "call_wf (ClSend i path) = (well_formed i \<and> well_formed path)"
| "call_wf (ClUpload i name data) = (well_formed i \<and> well_formed name \<and> well_formed data)"
| "call_wf (ClDownload f) = well_formed f"
| "call_wf (ClTrust i) = well_formed i"
| "call_wf (ClAsk i query) = (well_formed i \<and> well_formed query)"
| "call_wf _ = True"

definition accepted_reply :: "ctl_reply \<Rightarrow> bool" where
  "accepted_reply r = (case r of CtlReply code v \<Rightarrow> code = 200 | CtlAwait a \<Rightarrow> True | _ \<Rightarrow> False)"

definition served :: "ctl_reply \<times> p2p_node \<Rightarrow> unit res \<times> p2p_node \<Rightarrow> bool" where
  "served x y = (snd x = snd y \<and> (case fst y of Inl e \<Rightarrow> fst x = CtlFail e | Inr _ \<Rightarrow> accepted_reply (fst x)))"

lemma post_body:
  assumes "createClient call = (''POST'', route, Some v)" and "json_plain v" and "CHR ''?'' \<notin> set route"
    and "concat ts = client_body call" and "list_all well_formed ts" and "unit_count (client_body call) \<le> BODY_LIMIT"
  shows "ctl_handle W cw (client_request call (map text_bytes ts)) n = ctl_post W cw route v n"
proof -
  have b: "client_body call = json_text v" by (simp add: client_body_def assms(1))
  have "readBody (map text_bytes ts) = Some v"
    using read_chunks_whole [of ts "''''"] assms(4,5,6) json_text_nonempty [OF assms(2)] json_parse_text [OF assms(2)]
    by (simp add: readBody_def b)
  moreover have "fst (url_parse route) = route"
    using assms(3) by (simp add: url_parse_def Let_def takeWhile_eq_all_conv) metis
  ultimately show ?thesis by (simp add: ctl_handle_def client_request_def assms(1))
qed

lemmas posted = ctl_post_def POST_PATHS_def texts_def member_of_def jm_get_def served_def accepted_reply_def

lemma serve_connect:
  "served (ctl_post W cw ''/connect'' (JObj [(''host'', JStr host), (''port'', port)]) n)
     (node_step W mix (OConnect (if host = '''' then ''127.0.0.1'' else host) port) n)"
  by (auto simp: posted ctl_connect_def ctl_ok_def split: prod.split sum.split)

lemma serve_message:
  "served (ctl_post W cw ''/msg'' (texts [(''nodeId'', i), (''text'', t)]) n)
     (node_step W mix (OSend i t (cw_sent cw) (cw_clock cw)) n)"
  by (auto simp: posted ctl_message_def ctl_ok_def split: prod.split sum.split)

lemma serve_send:
  "served (ctl_post W cw ''/send'' (texts [(''nodeId'', i), (''filepath'', p)]) n) (node_step W mix (OSendFile p) n)"
  by (auto simp: posted ctl_send_def ctl_result_def outcome_def split: prod.split sum.split)

lemma serve_upload:
  "served (ctl_post W cw ''/upload'' (texts [(''nodeId'', i), (''filename'', nm), (''dataBase64'', d)]) n)
     (node_step W mix (OUpload (Some nm) (from_base64 d) (cw_written cw)) n)"
  by (auto simp: posted ctl_upload_def ctl_result_def outcome_def split: prod.split sum.split)

lemma serve_download:
  "served (ctl_post W cw ''/download'' (texts [(''file_id'', f)]) n) (node_step W (cw_mix cw) (ODownload f) n)"
  by (auto simp: posted ctl_download_def outcome_def split: prod.split sum.split)

lemma serve_trust:
  "served (ctl_post W cw ''/trust'' (texts [(''nodeId'', i)]) n) (node_step W mix (OTrust (JStr i)) n)"
  by (auto simp: posted ctl_trust_def split: prod.split)

lemma serve_ask:
  "served (ctl_post W cw ''/ask'' (texts [(''nodeId'', i), (''query'', q)]) n)
     (node_step W mix (OAsk i q (cw_clock cw 0)) n)"
  by (auto simp: posted ctl_ask_def Let_def)

lemma serve_get:
  "served (ctl_get cw ''/messages'' (Some p) n) (node_step W mix (OThread p) n)"
  by (auto simp: ctl_get_def served_def accepted_reply_def split: prod.split)

text \<open>C27. The mobile application and the node agree. Each call of the application's client, with whatever
  well-formed texts and however its body is cut between characters, is answered by the operation of the node it
  stands for, on exactly the values it was given: the node is afterwards what that operation makes it, an error
  the operation throws is the answer's error, and any other answer is a success or waits for one. The calls that
  only read get the view of the state they ask for.\<close>

theorem client_call_served:
  assumes "call_wf call" and "concat ts = client_body call" and "list_all well_formed ts"
    and "unit_count (client_body call) \<le> BODY_LIMIT"
    and "ctl_handle W cw (client_request call (map text_bytes ts)) n = r"
  shows "case call_op cw call of
      Some op \<Rightarrow> served r (node_step W (cw_mix cw) op n)
    | None \<Rightarrow> r = (CtlReply 200 (call_view cw n call), n)"
proof -
  note post = post_body [OF _ _ _ assms(2-4), of _ _ W cw n, unfolded assms(5)]
  show ?thesis
  proof (cases call)
    case (ClMessages p)
    have "r = ctl_get cw ''/messages'' (Some p) n"
      using assms(1,5) query_roundtrip [of p] by (simp add: ClMessages client_request_def ctl_handle_def)
    then show ?thesis using serve_get [of cw p n W "cw_mix cw"] by (simp add: ClMessages)
  qed (use assms(1,5) post serve_connect serve_message serve_send serve_upload serve_download serve_trust serve_ask in
      \<open>simp_all add: client_request_def ctl_handle_def ctl_get_def url_parse_def texts_def del: node_step.simps\<close>)
qed

theorem client_call_served_witness:
  "served (ctl_handle demo_env \<lparr>cw_sent = Inr (), cw_written = Inr (), cw_clock = \<lambda>k. 0, cw_mix = \<lambda>f xs. xs\<rparr>
       (client_request (ClMsg ''a'' ''b'') (map text_bytes [client_body (ClMsg ''a'' ''b'')])) demo_up)
     (node_step demo_env (\<lambda>f xs. xs) (OSend ''a'' ''b'' (Inr ()) (\<lambda>k. 0)) demo_up)"
proof -
  have b: "client_body (ClMsg ''a'' ''b'') = ''{\"nodeId\":\"a\",\"text\":\"b\"}''"
    by (simp add: client_body_def texts_def json_string_def json_escape_def)
  have "unit_count (client_body (ClMsg ''a'' ''b'')) \<le> BODY_LIMIT" unfolding b by (simp add: unit_count_def BODY_LIMIT_def)
  moreover have "well_formed (client_body (ClMsg ''a'' ''b''))" unfolding b by (simp add: well_formed_ascii)
  ultimately show ?thesis
    using client_call_served [of "ClMsg ''a'' ''b''" "[client_body (ClMsg ''a'' ''b'')]" demo_env
        "\<lparr>cw_sent = Inr (), cw_written = Inr (), cw_clock = \<lambda>k. 0, cw_mix = \<lambda>f xs. xs\<rparr>" demo_up, OF _ _ _ _ refl]
    by (simp add: well_formed_ascii del: node_step.simps)
qed

end
